(* ===== verification/Keet_Prelude.thy ===== *)
theory Keet_Prelude
  imports Main "HOL-Library.Word"
begin

section \<open>Shared vocabulary of the gateway model\<close>

text \<open>
  What every component uses: bytes and byte slices, Go strings, Go errors and run-time
  panics as values, the big-endian integer codec of \<open>encoding/binary\<close>, and the
  \<open>io.ReadFull\<close> discipline of \<open>bytes.Reader\<close> and \<open>net.Conn\<close>.

  A Go \<open>[]byte\<close> is a \<open>byte list\<close>, a fixed array \<open>[n]byte\<close> a list whose length is \<open>n\<close>
  (stated where it matters), a Go \<open>string\<close> a HOL \<open>string\<close> (both are sequences of 8-bit
  units), and a Go result \<open>(T, error)\<close> a value of \<open>error + T\<close>. A run-time panic (slice
  bounds, close of a closed channel, failed type assertion) is the error value \<open>Panic\<close>,
  so that it is a branch of the model and not an unspecified HOL value.
\<close>

unbundle bit_operations_syntax

named_theorems codec_simps \<open>unfolding rules of encoders and decoders\<close>
named_theorems roundtrip \<open>decoding what was encoded\<close>
named_theorems keet_inv \<open>operations keep their component's invariant\<close>

text \<open>Lengths are compared as naturals here, so \<open>int (unat w)\<close> is kept rather than \<open>uint w\<close>.\<close>

declare of_nat_unat [simp del]

lemma word_of_nat_unat [simp]: "(of_nat (unat w) :: 'a word) = w" for w :: "'a::len word"
  by (simp add: of_nat_unat)

type_synonym byte = "8 word"
type_synonym bytes = "byte list"
type_synonym u16 = "16 word"
type_synonym u32 = "32 word"
type_synonym u64 = "64 word"

subsection \<open>Errors and panics\<close>

datatype error =
    EOF
  | UnexpectedEOF
  | ErrNew string
  | Wrap string error
  | Panic string

type_synonym 'a result = "error + 'a"

fun is_panic :: "'a result \<Rightarrow> bool" where
  "is_panic (Inl (Panic _)) = True"
| "is_panic _ = False"

text \<open>\<open>errors.Is(err, io.EOF)\<close>: follows the chain of wrapped errors.\<close>

fun errors_is_EOF :: "error \<Rightarrow> bool" where
  "errors_is_EOF EOF = True"
| "errors_is_EOF (Wrap _ e) = errors_is_EOF e"
| "errors_is_EOF _ = False"

subsection \<open>Go strings and byte slices\<close>

definition byte_of_char :: "char \<Rightarrow> byte" where
  "byte_of_char c = of_nat (of_char c)"

definition char_of_byte :: "byte \<Rightarrow> char" where
  "char_of_byte b = char_of (unat b)"

abbreviation bytes_of_string :: "string \<Rightarrow> bytes" where
  "bytes_of_string s \<equiv> map byte_of_char s"

abbreviation string_of_bytes :: "bytes \<Rightarrow> string" where
  "string_of_bytes b \<equiv> map char_of_byte b"

lemma of_char_less_256: "(of_char c :: nat) < 256"
  by (metis char_of_char of_char_of mod_less_divisor zero_less_numeral)

lemma char_of_byte_of_char [simp]: "char_of_byte (byte_of_char c) = c"
  using of_char_less_256 [of c]
  by (simp add: char_of_byte_def byte_of_char_def unat_of_nat)

lemma unat_byte_less: "unat (b :: byte) < 256"
  using unsigned_less [of b, where 'a = nat] by simp

lemma byte_of_char_of_byte [simp]: "byte_of_char (char_of_byte b) = b"
  using unat_byte_less [of b] by (simp add: char_of_byte_def byte_of_char_def)

lemma string_of_bytes_of_string [simp]: "string_of_bytes (bytes_of_string s) = s"
  by (simp add: map_idI)

lemma bytes_of_string_of_bytes [simp]: "bytes_of_string (string_of_bytes b) = b"
  by (simp add: map_idI)

lemma char_of_byte_comp [simp]:
  "char_of_byte \<circ> byte_of_char = id" "byte_of_char \<circ> char_of_byte = id"
  by (simp_all add: fun_eq_iff)

text \<open>Words below \<open>2 ^ n\<close> are unchanged by truncation to \<open>n\<close> bits.\<close>

lemma take_bit_unat: "unat w < 2 ^ n \<Longrightarrow> take_bit n w = w"
  by (metis take_bit_nat_eq_self unsigned_take_bit_eq unsigned_word_eqI)

lemma unat_drop_bit_div: "unat (drop_bit n w) = unat w div 2 ^ n"
  unfolding unat_drop_bit_eq by (rule drop_bit_eq_div)

lemma bit_le_unat: "bit w k \<Longrightarrow> 2 ^ k \<le> unat w"
  by (rule ccontr) (use take_bit_unat [of w k] in \<open>auto simp: not_le bit_take_bit_iff dest: arg_cong [where f = "\<lambda>x. bit x k"]\<close>)

lemma and_15: "(x :: byte) AND 0x0f = take_bit 4 x"
  by (simp add: take_bit_eq_mask mask_numeral)

text \<open>The slice \<open>xs[i:j]\<close> where the code has already checked the bounds.\<close>

definition gslice :: "nat \<Rightarrow> nat \<Rightarrow> 'a list \<Rightarrow> 'a list" where
  "gslice i j xs = take (j - i) (drop i xs)"

lemma length_gslice [simp]: "j \<le> length xs \<Longrightarrow> length (gslice i j xs) = j - i"
  by (simp add: gslice_def)

lemma gslice_append1: "j \<le> length xs \<Longrightarrow> gslice i j (xs @ ys) = gslice i j xs"
  by (simp add: gslice_def)

lemma gslice_append2: "length xs \<le> i \<Longrightarrow>
    gslice i j (xs @ ys) = gslice (i - length xs) (j - length xs) ys"
  by (simp add: gslice_def)

lemma gslice_drop: "i \<le> j \<Longrightarrow> gslice i j xs @ drop j xs = drop i xs"
  using append_take_drop_id [of "j - i" "drop i xs"] by (simp add: gslice_def)

lemma gslice_Cons: "0 < i \<Longrightarrow> gslice i j (x # xs) = gslice (i - 1) (j - 1) xs"
  by (cases i; cases j) (simp_all add: gslice_def)

lemma gslice_full: "length xs = n \<Longrightarrow> gslice 0 n xs = xs"
  by (simp add: gslice_def)

lemmas gslice_simps = gslice_append1 gslice_append2 gslice_Cons gslice_full

text \<open>
  The slice expression \<open>xs[i:j]\<close> with its run-time check (for a slice whose capacity is its
  length): Go panics unless \<open>0 \<le> i \<le> j \<le> len(xs)\<close>. The bounds are Go \<open>int\<close>s, so they may be
  negative.
\<close>

definition go_slice :: "int \<Rightarrow> int \<Rightarrow> 'a list \<Rightarrow> 'a list result" where
  "go_slice i j xs =
     (if 0 \<le> i \<and> i \<le> j \<and> j \<le> int (length xs)
      then Inr (gslice (nat i) (nat j) xs)
      else Inl (Panic ''slice bounds out of range''))"

subsection \<open>Big-endian integers\<close>

text \<open>
  \<open>binary.BigEndian.PutUintN\<close> writes the most significant byte first, and \<open>UintN\<close> shifts the
  bytes back together. One definition serves the widths 16, 32 and 64.
\<close>

fun be_enc :: "nat \<Rightarrow> 'a::len word \<Rightarrow> bytes" where
  "be_enc 0 w = []"
| "be_enc (Suc n) w = ucast (drop_bit (8 * n) w) # be_enc n w"

definition be_dec :: "bytes \<Rightarrow> 'a::len word" where
  "be_dec bs = foldl (\<lambda>acc b. push_bit 8 acc OR ucast b) 0 bs"

definition put_u16 :: "u16 \<Rightarrow> bytes" where "put_u16 w = be_enc 2 w"
definition put_u32 :: "u32 \<Rightarrow> bytes" where "put_u32 w = be_enc 4 w"
definition put_u64 :: "u64 \<Rightarrow> bytes" where "put_u64 w = be_enc 8 w"

lemma be_enc_numeral:
  "be_enc (numeral k) w = ucast (drop_bit (8 * pred_numeral k) w) # be_enc (pred_numeral k) w"
  by (simp add: numeral_eq_Suc)

lemma length_be_enc [simp]: "length (be_enc n w) = n"
  by (induction n) simp_all

lemma length_put [simp]:
  "length (put_u16 w) = 2" "length (put_u32 v) = 4" "length (put_u64 u) = 8"
  by (simp_all add: put_u16_def put_u32_def put_u64_def)

lemma be_fold_enc:
  "foldl (\<lambda>acc b. push_bit 8 acc OR ucast b) (a :: 'a::len word) (be_enc n w) =
     push_bit (8 * n) a OR take_bit (8 * n) w"
proof (induction n arbitrary: a)
  case 0
  then show ?case by simp
next
  case (Suc n)
  have "push_bit (8 * n) (push_bit 8 a OR ucast (ucast (drop_bit (8 * n) w) :: byte)) OR
      take_bit (8 * n) w = push_bit (8 * Suc n) a OR take_bit (8 * Suc n) w"
    by (rule bit_word_eqI) (auto simp: bit_simps ac_simps)
  then show ?case by (simp add: Suc.IH)
qed

lemma be_dec_enc: "LENGTH('a) \<le> 8 * n \<Longrightarrow> be_dec (be_enc n w) = (w :: 'a::len word)"
  by (simp add: be_dec_def be_fold_enc take_bit_word_eq_self)

lemma be_enc_Suc_snoc: "be_enc (Suc n) w = be_enc n (drop_bit 8 w) @ [ucast w]"
  by (induction n) (simp_all add: ac_simps)

lemma be_enc_cong: "take_bit (8 * n) v = take_bit (8 * n) w \<Longrightarrow> be_enc n v = be_enc n w"
proof (induction n)
  case 0
  then show ?case by simp
next
  case (Suc n)
  have eq: "k < 8 * Suc n \<Longrightarrow> bit v k = bit w k" for k
    using arg_cong [OF Suc.prems, of "\<lambda>x. bit x k"] by (simp add: bit_take_bit_iff)
  have "take_bit (8 * n) v = take_bit (8 * n) w"
    by (rule bit_word_eqI) (use eq in \<open>auto simp: bit_take_bit_iff\<close>)
  moreover have "(ucast (drop_bit (8 * n) v) :: byte) = ucast (drop_bit (8 * n) w)"
    by (rule bit_word_eqI) (use eq in \<open>auto simp: bit_simps\<close>)
  ultimately show ?case using Suc.IH by simp
qed

lemma be_dec_snoc: "be_dec (bs @ [b]) = push_bit 8 (be_dec bs) OR ucast b"
  by (simp add: be_dec_def)

lemma be_enc_dec: "8 * length bs \<le> LENGTH('a) \<Longrightarrow> be_enc (length bs) (be_dec bs :: 'a::len word) = bs"
proof (induction bs rule: rev_induct)
  case Nil
  then show ?case by simp
next
  case (snoc b bs)
  let ?d = "be_dec bs :: 'a word"
  have "be_enc (length bs) (drop_bit 8 (push_bit 8 ?d OR ucast b)) = be_enc (length bs) ?d"
    by (rule be_enc_cong, rule bit_word_eqI)
      (use snoc.prems in \<open>auto simp: bit_simps dest: bit_imp_le_length\<close>)
  moreover have "(ucast (push_bit 8 ?d OR ucast b) :: byte) = b"
    by (rule bit_word_eqI) (use snoc.prems in \<open>auto simp: bit_simps dest: bit_imp_le_length\<close>)
  ultimately show ?case
    using snoc by (simp add: be_enc_Suc_snoc be_dec_snoc del: be_enc.simps)
qed

lemma be_dec_put [simp, roundtrip]:
  "be_dec (put_u16 w) = w" "be_dec (put_u32 v) = v" "be_dec (put_u64 u) = u"
  by (simp_all add: put_u16_def put_u32_def put_u64_def be_dec_enc)

lemma put_inject [simp]:
  "put_u16 w = put_u16 w' \<longleftrightarrow> w = w'" "put_u32 v = put_u32 v' \<longleftrightarrow> v = v'"
  "put_u64 u = put_u64 u' \<longleftrightarrow> u = u'"
  by (metis be_dec_put(1), metis be_dec_put(2), metis be_dec_put(3))

lemma put_be_dec:
  "length bs = 2 \<Longrightarrow> put_u16 (be_dec bs) = bs"
  "length bs = 4 \<Longrightarrow> put_u32 (be_dec bs) = bs"
  "length bs = 8 \<Longrightarrow> put_u64 (be_dec bs) = bs"
  using be_enc_dec [of bs, where 'a = 16] be_enc_dec [of bs, where 'a = 32]
    be_enc_dec [of bs, where 'a = 64]
  by (simp_all add: put_u16_def put_u32_def put_u64_def)

subsection \<open>Reading from a byte stream\<close>

text \<open>
  \<open>io.ReadFull(r, buf)\<close> with \<open>len(buf) = n\<close> on a reader whose unread bytes are \<open>r\<close>: an empty
  buffer is filled at once, an exhausted reader gives \<open>io.EOF\<close>, and a short one
  \<open>io.ErrUnexpectedEOF\<close>. \<open>binary.Read\<close> of a fixed-size integer is \<open>ReadFull\<close> of its width.
\<close>

definition read_full :: "nat \<Rightarrow> bytes \<Rightarrow> (bytes \<times> bytes) result" where
  "read_full n r =
     (if n = 0 then Inr ([], r)
      else if r = [] then Inl EOF
      else if length r < n then Inl UnexpectedEOF
      else Inr (take n r, drop n r))"

definition read_u16 :: "bytes \<Rightarrow> (u16 \<times> bytes) result" where
  "read_u16 r = (case read_full 2 r of Inl e \<Rightarrow> Inl e | Inr (b, r') \<Rightarrow> Inr (be_dec b, r'))"

definition read_u32 :: "bytes \<Rightarrow> (u32 \<times> bytes) result" where
  "read_u32 r = (case read_full 4 r of Inl e \<Rightarrow> Inl e | Inr (b, r') \<Rightarrow> Inr (be_dec b, r'))"

definition read_u64 :: "bytes \<Rightarrow> (u64 \<times> bytes) result" where
  "read_u64 r = (case read_full 8 r of Inl e \<Rightarrow> Inl e | Inr (b, r') \<Rightarrow> Inr (be_dec b, r'))"

lemma read_full_append [simp]: "length b = n \<Longrightarrow> read_full n (b @ r) = Inr (b, r)"
  by (auto simp: read_full_def)

lemma read_full_Inr: "read_full n r = Inr (b, r') \<longleftrightarrow> r = b @ r' \<and> length b = n"
  by (auto simp: read_full_def append_eq_conv_conj split: if_splits)

lemma read_full_no_panic: "\<not> is_panic (read_full n r)"
  by (simp add: read_full_def)

lemma read_put [simp]:
  "read_u16 (put_u16 w @ r) = Inr (w, r)"
  "read_u32 (put_u32 v @ r) = Inr (v, r)"
  "read_u64 (put_u64 u @ r) = Inr (u, r)"
  by (simp_all add: read_u16_def read_u32_def read_u64_def)

lemmas read_put_end [simp] = read_put [where r = "[]", simplified]

lemma read_u32_Inr: "read_u32 r = Inr (v, r') \<longleftrightarrow> r = put_u32 v @ r'"
  by (auto simp: read_u32_def read_full_Inr put_be_dec split: sum.splits)

lemma read_u64_Inr: "read_u64 r = Inr (v, r') \<longleftrightarrow> r = put_u64 v @ r'"
  by (auto simp: read_u64_def read_full_Inr put_be_dec split: sum.splits)

lemma read_u16_Inr: "read_u16 r = Inr (v, r') \<longleftrightarrow> r = put_u16 v @ r'"
  by (auto simp: read_u16_def read_full_Inr put_be_dec split: sum.splits)

subsection \<open>Loops that stop at the first error\<close>

text \<open>
  \<open>for _, i := range is \<lbrace> if err := body(i); err != nil \<lbrace> return err \<rbrace> \<rbrace>\<close> over a state:
  the state reached so far is kept, and the error, if any, is returned.
\<close>

fun for_each :: "('i \<Rightarrow> 's \<Rightarrow> 's \<times> error option) \<Rightarrow> 'i list \<Rightarrow> 's \<Rightarrow> 's \<times> error option" where
  "for_each body [] s = (s, None)"
| "for_each body (i # is) s =
     (case body i s of (s', Some e) \<Rightarrow> (s', Some e) | (s', None) \<Rightarrow> for_each body is s')"

lemma for_each_append:
  "for_each body (is @ js) s =
     (case for_each body is s of (s', Some e) \<Rightarrow> (s', Some e) | (s', None) \<Rightarrow> for_each body js s')"
  by (induction "is" arbitrary: s) (auto split: prod.splits option.splits)

lemma for_each_preserves:
  assumes "\<And>i s. i \<in> set is \<Longrightarrow> P s \<Longrightarrow> P (fst (body i s))" "P s"
  shows "P (fst (for_each body is s))"
  using assms
proof (induction "is" arbitrary: s)
  case Nil
  then show ?case by simp
next
  case (Cons i "is")
  obtain s' e where b: "body i s = (s', e)" by force
  with Cons.prems(1) [of i s] Cons.prems(2) have "P s'" by simp
  with b Cons show ?case by (cases e) auto
qed

end
