(* ===== verification/Utp_Packet.thy ===== *)
theory Utp_Packet
  imports Keet_Prelude
begin

section \<open>uTP packets (pkg/utp/packet.go)\<close>

text \<open>
  The 20-byte uTP header and its wire codec. \<open>MsgType\<close> is Go's \<open>uint8\<close> with five named
  values, so any byte is a value of it: the codec, not the type, restricts it to four bits.
\<close>

type_synonym utp_type = byte

definition ST_DATA :: utp_type where "ST_DATA = 0"
definition ST_FIN :: utp_type where "ST_FIN = 1"
definition ST_STATE :: utp_type where "ST_STATE = 2"
definition ST_RESET :: utp_type where "ST_RESET = 3"
definition ST_SYN :: utp_type where "ST_SYN = 4"

lemmas ST_defs = ST_DATA_def ST_FIN_def ST_STATE_def ST_RESET_def ST_SYN_def

record utp_header =
  h_type :: utp_type
  h_version :: byte
  h_ext :: byte
  h_conn_id :: u16
  h_tmicro :: u32
  h_tdiff :: u32
  h_wnd_size :: u32
  h_seq_num :: u16
  h_ack_num :: u16

record utp_packet =
  p_header :: utp_header
  p_payload :: bytes

text \<open>A \<open>Header\<close> literal of the code sets the fields it names and leaves the others zero.\<close>

definition zero_header :: utp_header where
  "zero_header = \<lparr>h_type = 0, h_version = 0, h_ext = 0, h_conn_id = 0, h_tmicro = 0, h_tdiff = 0,
     h_wnd_size = 0, h_seq_num = 0, h_ack_num = 0\<rparr>"

subsection \<open>Encode and DecodePacket\<close>

definition encode_packet :: "utp_packet \<Rightarrow> bytes result" where
  "encode_packet p =
     (let h = p_header p in
      Inr ([push_bit 4 (h_type h) OR (h_version h AND 0x0f), h_ext h]
           @ put_u16 (h_conn_id h)
           @ put_u32 (h_tmicro h) @ put_u32 (h_tdiff h) @ put_u32 (h_wnd_size h)
           @ put_u16 (h_seq_num h) @ put_u16 (h_ack_num h)
           @ p_payload p))"

definition decode_packet :: "bytes \<Rightarrow> utp_packet result" where
  "decode_packet d =
     (if length d < 20 then Inl (ErrNew ''packet too short to contain uTP header'')
      else
        let ty = drop_bit 4 (d ! 0); ver = d ! 0 AND 0x0f in
        if ver \<noteq> 1 then Inl (ErrNew ''unsupported uTP version'')
        else Inr \<lparr>p_header = \<lparr>h_type = ty, h_version = ver, h_ext = d ! 1,
                    h_conn_id = be_dec (gslice 2 4 d),
                    h_tmicro = be_dec (gslice 4 8 d),
                    h_tdiff = be_dec (gslice 8 12 d),
                    h_wnd_size = be_dec (gslice 12 16 d),
                    h_seq_num = be_dec (gslice 16 18 d),
                    h_ack_num = be_dec (gslice 18 20 d)\<rparr>,
                  p_payload = drop 20 d\<rparr>)"

text \<open>The packets the wire format can carry: a four-bit type, and version 1.\<close>

definition wire_packet :: "utp_packet \<Rightarrow> bool" where
  "wire_packet p \<longleftrightarrow> h_type (p_header p) < 16 \<and> h_version (p_header p) = 1"

subsection \<open>The codec is a bijection on wire packets\<close>

lemma nibbles_join:
  fixes t v :: byte
  assumes "t < 16"
  shows "drop_bit 4 (push_bit 4 t OR (v AND 0x0f)) = t"
    and "(push_bit 4 t OR (v AND 0x0f)) AND 0x0f = v AND 0x0f"
proof -
  have t: "take_bit 4 t = t"
    using assms by (intro take_bit_unat) (simp add: word_less_nat_alt)
  have bt: "bit t k \<Longrightarrow> k < 4" for k
    using t by (metis bit_take_bit_iff)
  show "drop_bit 4 (push_bit 4 t OR (v AND 0x0f)) = t"
    by (rule bit_word_eqI) (auto simp: and_15 bit_simps dest: bt)
  show "(push_bit 4 t OR (v AND 0x0f)) AND 0x0f = v AND 0x0f"
    by (rule bit_word_eqI) (auto simp: and_15 bit_simps)
qed

lemma nibbles_split: "push_bit 4 (drop_bit 4 b) OR (b AND 0x0f) = (b :: byte)"
  by (rule bit_word_eqI) (auto simp: and_15 bit_simps)

lemma drop_nibble_less: "drop_bit 4 (b :: byte) < 16"
proof -
  have "unat b div 2 ^ 4 < 16" using unat_byte_less [of b] by simp
  then show ?thesis
    by (simp add: word_less_nat_alt drop_bit_eq_div unat_div_distrib)
qed

lemma encode_packet_length: "encode_packet p = Inr d \<Longrightarrow> length d = 20 + length (p_payload p)"
  by (auto simp: encode_packet_def Let_def)

lemma split_wire:
  assumes "20 \<le> length d"
  shows "d = [d ! 0, d ! 1] @ gslice 2 4 d @ gslice 4 8 d @ gslice 8 12 d @ gslice 12 16 d
    @ gslice 16 18 d @ gslice 18 20 d @ drop 20 d"
proof -
  have "take 2 d = [d ! 0, d ! 1]"
    using assms by (auto simp: list_eq_iff_nth_eq less_Suc_eq numeral_2_eq_2)
  then show ?thesis
    by (simp add: gslice_drop) (metis append_Cons append_Nil append_take_drop_id)
qed

text \<open>
  \<open>DecodePacket\<close> and \<open>Encode\<close> are inverse to each other: a byte string decodes to \<open>p\<close>
  exactly when \<open>p\<close> fits the wire (four-bit type, version 1) and encodes to that string.
  Every header field, the nibbles of byte 0 and the payload survive, and no two byte
  strings decode to the same packet.
\<close>

lemma decode_packet_iff:
  "decode_packet d = Inr p \<longleftrightarrow> wire_packet p \<and> encode_packet p = Inr d"
proof
  assume dec: "decode_packet d = Inr p"
  then have len: "20 \<le> length d" by (auto simp: decode_packet_def split: if_splits)
  from dec have "wire_packet p"
    by (auto simp: decode_packet_def wire_packet_def drop_nibble_less Let_def split: if_splits)
  moreover have "encode_packet p = Inr d"
    using dec split_wire [OF len] len nibbles_split [of "d ! 0"]
    by (auto simp: decode_packet_def encode_packet_def put_be_dec Let_def simp del: append.simps
        split: if_splits)
  ultimately show "wire_packet p \<and> encode_packet p = Inr d" ..
next
  assume asm: "wire_packet p \<and> encode_packet p = Inr d"
  then have t: "h_type (p_header p) < 16" and v: "h_version (p_header p) = 1"
    by (simp_all add: wire_packet_def)
  obtain h pl where p: "p = \<lparr>p_header = h, p_payload = pl\<rparr>" by (cases p) auto
  from asm show "decode_packet d = Inr p"
    using nibbles_join [OF t, of "h_version (p_header p)"] v
    by (auto simp: p encode_packet_def decode_packet_def Let_def gslice_simps
        simp flip: and_15)
qed

end
