(* ===== verification/Hyper_Wire.thy ===== *)
theory Hyper_Wire
  imports Keet_Prelude
begin

section \<open>Hypercore replication messages (pkg/hypercore/wire.go)\<close>

text \<open>
  The five message types of a sync session and their codecs. Length prefixes are 32-bit and a
  decoder refuses a field longer than \<open>MaxMessageSize\<close>; the encoders truncate \<open>len\<close> to 32 bits
  with no check of their own.
\<close>

record hc_handshake =
  hs_protocol :: string
  hs_key :: bytes
  hs_extensions :: "string list"

record hc_have =
  have_start :: u64
  have_len :: u64

record hc_want =
  want_start :: u64
  want_len :: u64

record hc_request =
  req_index :: u64

record hc_data =
  data_index :: u64
  data_value :: bytes
  data_signature :: bytes

definition MaxMessageSize :: nat where "MaxMessageSize = 10 * 1024 * 1024"

subsection \<open>Length-prefixed fields\<close>

definition write_bytes :: "bytes \<Rightarrow> bytes" where
  "write_bytes b = put_u32 (of_nat (length b)) @ b"

definition write_string :: "string \<Rightarrow> bytes" where
  "write_string s = write_bytes (bytes_of_string s)"

definition read_bytes :: "bytes \<Rightarrow> (bytes \<times> bytes) result" where
  "read_bytes r =
     (case read_u32 r of Inl e \<Rightarrow> Inl e
      | Inr (len, r1) \<Rightarrow>
          if MaxMessageSize < unat len
          then Inl (ErrNew ''message bytes field exceeds safety limit'')
          else read_full (unat len) r1)"

definition read_string :: "bytes \<Rightarrow> (string \<times> bytes) result" where
  "read_string r =
     (case read_u32 r of Inl e \<Rightarrow> Inl e
      | Inr (len, r1) \<Rightarrow>
          if MaxMessageSize < unat len
          then Inl (ErrNew ''message string field exceeds safety limit'')
          else (case read_full (unat len) r1 of Inl e \<Rightarrow> Inl e
                | Inr (b, r2) \<Rightarrow> Inr (string_of_bytes b, r2)))"

subsection \<open>Encoders and decoders\<close>

definition EncodeHandshake :: "hc_handshake \<Rightarrow> bytes result" where
  "EncodeHandshake m =
     Inr ([0] @ write_string (hs_protocol m) @ write_bytes (hs_key m)
          @ put_u32 (of_nat (length (hs_extensions m)))
          @ concat (map write_string (hs_extensions m)))"

fun read_strings :: "nat \<Rightarrow> bytes \<Rightarrow> (string list \<times> bytes) result" where
  "read_strings 0 r = Inr ([], r)"
| "read_strings (Suc n) r =
     (case read_string r of Inl e \<Rightarrow> Inl e
      | Inr (s, r1) \<Rightarrow>
          (case read_strings n r1 of Inl e \<Rightarrow> Inl e
           | Inr (ss, r2) \<Rightarrow> Inr (s # ss, r2)))"

definition DecodeHandshake :: "bytes \<Rightarrow> hc_handshake result" where
  "DecodeHandshake b =
     (if length b < 1 \<or> b ! 0 \<noteq> 0 then Inl (ErrNew ''invalid handshake message type'')
      else case read_string (drop 1 b) of Inl e \<Rightarrow> Inl e
      | Inr (protocol, r1) \<Rightarrow> (case read_bytes r1 of Inl e \<Rightarrow> Inl e
      | Inr (key, r2) \<Rightarrow> (case read_u32 r2 of
          Inl _ \<Rightarrow> Inr \<lparr>hs_protocol = protocol, hs_key = key, hs_extensions = []\<rparr>
        | Inr (ext_len, r3) \<Rightarrow> (case read_strings (unat ext_len) r3 of Inl e \<Rightarrow> Inl e
            | Inr (exts, _) \<Rightarrow>
                Inr \<lparr>hs_protocol = protocol, hs_key = key, hs_extensions = exts\<rparr>))))"

definition EncodeHave :: "hc_have \<Rightarrow> bytes result" where
  "EncodeHave m = Inr ([2] @ put_u64 (have_start m) @ put_u64 (have_len m))"

definition DecodeHave :: "bytes \<Rightarrow> hc_have result" where
  "DecodeHave b =
     (if length b < 1 \<or> b ! 0 \<noteq> 2 then Inl (ErrNew ''invalid Have message type'')
      else case read_u64 (drop 1 b) of Inl e \<Rightarrow> Inl e
      | Inr (start, r1) \<Rightarrow> (case read_u64 r1 of Inl e \<Rightarrow> Inl e
      | Inr (len, _) \<Rightarrow> Inr \<lparr>have_start = start, have_len = len\<rparr>))"

definition EncodeWant :: "hc_want \<Rightarrow> bytes result" where
  "EncodeWant m = Inr ([3] @ put_u64 (want_start m) @ put_u64 (want_len m))"

definition DecodeWant :: "bytes \<Rightarrow> hc_want result" where
  "DecodeWant b =
     (if length b < 1 \<or> b ! 0 \<noteq> 3 then Inl (ErrNew ''invalid Want message type'')
      else case read_u64 (drop 1 b) of Inl e \<Rightarrow> Inl e
      | Inr (start, r1) \<Rightarrow> (case read_u64 r1 of Inl e \<Rightarrow> Inl e
      | Inr (len, _) \<Rightarrow> Inr \<lparr>want_start = start, want_len = len\<rparr>))"

definition EncodeRequest :: "hc_request \<Rightarrow> bytes result" where
  "EncodeRequest m = Inr ([4] @ put_u64 (req_index m))"

definition DecodeRequest :: "bytes \<Rightarrow> hc_request result" where
  "DecodeRequest b =
     (if length b < 1 \<or> b ! 0 \<noteq> 4 then Inl (ErrNew ''invalid Request message type'')
      else case read_u64 (drop 1 b) of Inl e \<Rightarrow> Inl e
      | Inr (index, _) \<Rightarrow> Inr \<lparr>req_index = index\<rparr>)"

definition EncodeData :: "hc_data \<Rightarrow> bytes result" where
  "EncodeData m =
     Inr ([5] @ put_u64 (data_index m) @ write_bytes (data_value m)
          @ write_bytes (data_signature m))"

definition DecodeData :: "bytes \<Rightarrow> hc_data result" where
  "DecodeData b =
     (if length b < 1 \<or> b ! 0 \<noteq> 5 then Inl (ErrNew ''invalid Data message type'')
      else case read_u64 (drop 1 b) of Inl e \<Rightarrow> Inl e
      | Inr (index, r1) \<Rightarrow> (case read_bytes r1 of Inl e \<Rightarrow> Inl e
      | Inr (value, r2) \<Rightarrow> (case read_bytes r2 of Inl e \<Rightarrow> Inl e
      | Inr (signature, _) \<Rightarrow>
          Inr \<lparr>data_index = index, data_value = value, data_signature = signature\<rparr>)))"

lemmas hc_encode_defs [codec_simps] =
  EncodeHandshake_def EncodeHave_def EncodeWant_def EncodeRequest_def EncodeData_def

lemmas hc_decode_defs [codec_simps] =
  DecodeHandshake_def DecodeHave_def DecodeWant_def DecodeRequest_def DecodeData_def

subsection \<open>Field lemmas\<close>

definition fits :: "'a list \<Rightarrow> bool" where
  "fits b \<longleftrightarrow> length b \<le> MaxMessageSize"

lemma unat_of_nat_fits [simp]: "fits b \<Longrightarrow> unat (of_nat (length b) :: u32) = length b"
  by (simp add: fits_def MaxMessageSize_def unat_of_nat)

lemma unat_of_nat_le_Max:
  "length (b :: 'a list) \<le> MaxMessageSize \<Longrightarrow> unat (of_nat (length b) :: u32) = length b"
  using unat_of_nat_fits [of b] by (simp add: fits_def)

lemma read_write_bytes [simp]: "fits b \<Longrightarrow> read_bytes (write_bytes b @ r) = Inr (b, r)"
  by (auto simp: read_bytes_def write_bytes_def) (simp add: fits_def)

lemmas read_write_bytes_end [simp] = read_write_bytes [where r = "[]", simplified]

lemma read_write_string [simp]: "fits s \<Longrightarrow> read_string (write_string s @ r) = Inr (s, r)"
  using unat_of_nat_fits [of "bytes_of_string s"]
  by (auto simp: read_string_def write_string_def write_bytes_def fits_def)

lemma read_bytes_Inr: "read_bytes r = Inr (b, r') \<longleftrightarrow> fits b \<and> r = write_bytes b @ r'"
  by (auto simp: read_bytes_def write_bytes_def read_u32_Inr read_full_Inr fits_def
      dest: unat_of_nat_le_Max split: sum.splits if_splits)

lemma write_bytes_append_inject [simp]:
  "fits a \<Longrightarrow> fits b \<Longrightarrow> write_bytes a @ r = write_bytes b @ r' \<longleftrightarrow> a = b \<and> r = r'"
  by (metis Inr_inject prod.inject read_write_bytes)

lemma read_write_strings:
  "list_all fits ss \<Longrightarrow> read_strings (length ss) (concat (map write_string ss) @ r) = Inr (ss, r)"
  by (induction ss) simp_all

text \<open>
  C13. A block message decodes to \<open>m\<close> exactly when its value and signature respect the 10 MB
  limit and the frame starts with the encoding of \<open>m\<close>: \<open>DecodeData\<close> inverts \<open>EncodeData\<close>,
  accepts nothing else, and ignores whatever follows the signature.
\<close>

theorem decode_data_iff:
  "DecodeData b = Inr m \<longleftrightarrow>
     fits (data_value m) \<and> fits (data_signature m) \<and>
     (\<exists>enc rest. EncodeData m = Inr enc \<and> b = enc @ rest)"
proof (cases b)
  case Nil
  then show ?thesis by (simp add: codec_simps)
next
  case (Cons a r)
  then show ?thesis
    by (cases m) (auto simp: codec_simps read_u64_Inr read_bytes_Inr split: sum.splits)
qed

text \<open>The other three fixed-layout messages have the same characterisation.\<close>

lemma decode_have_iff:
  "DecodeHave b = Inr m \<longleftrightarrow> (\<exists>enc rest. EncodeHave m = Inr enc \<and> b = enc @ rest)"
  by (cases b; cases m) (auto simp: codec_simps read_u64_Inr split: sum.splits)

lemma decode_want_iff:
  "DecodeWant b = Inr m \<longleftrightarrow> (\<exists>enc rest. EncodeWant m = Inr enc \<and> b = enc @ rest)"
  by (cases b; cases m) (auto simp: codec_simps read_u64_Inr split: sum.splits)

lemma decode_request_iff:
  "DecodeRequest b = Inr m \<longleftrightarrow> (\<exists>enc rest. EncodeRequest m = Inr enc \<and> b = enc @ rest)"
  by (cases b; cases m) (auto simp: codec_simps read_u64_Inr split: sum.splits)

text \<open>The handshakes both sides can exchange: every field within the safety limit.\<close>

definition wf_handshake :: "hc_handshake \<Rightarrow> bool" where
  "wf_handshake h \<longleftrightarrow> fits (hs_protocol h) \<and> fits (hs_key h) \<and> list_all fits (hs_extensions h)
     \<and> length (hs_extensions h) < 2 ^ 32"

text \<open>
  A handshake whose fields respect the limits survives encoding and decoding (protocol, key
  and the whole extension list, in order), whatever bytes follow it in the frame.
\<close>

lemma handshake_roundtrip:
  assumes "wf_handshake h"
  shows "\<exists>enc. EncodeHandshake h = Inr enc \<and> DecodeHandshake (enc @ rest) = Inr h"
proof -
  from assms have "fits (hs_protocol h)" "fits (hs_key h)" "list_all fits (hs_extensions h)"
    and "unat (of_nat (length (hs_extensions h)) :: u32) = length (hs_extensions h)"
    by (simp_all add: wf_handshake_def unat_of_nat)
  then show ?thesis by (auto simp: codec_simps read_write_strings)
qed

text \<open>
  A handshake that stops before or inside the extension count also decodes, with no extensions:
  the decoder swallows that read error.
\<close>

lemma handshake_without_extensions:
  assumes "fits p" "fits k" "length part < 4"
  shows "DecodeHandshake ([0] @ write_string p @ write_bytes k @ part) =
    Inr \<lparr>hs_protocol = p, hs_key = k, hs_extensions = []\<rparr>"
proof -
  have "\<exists>e. read_u32 part = Inl e"
    using assms(3) by (cases part) (auto simp: read_u32_def read_full_def)
  then show ?thesis using assms(1,2) by (auto simp: codec_simps)
qed

text \<open>No decoder of this file panics, on any input.\<close>

lemma read_bytes_no_panic: "\<not> is_panic (read_bytes r)"
  using read_full_no_panic
  by (auto simp: read_bytes_def read_u32_def read_full_def split: sum.splits)

end
