(* ===== verification/Hyper_Merkle.thy ===== *)
theory Hyper_Merkle
  imports Keet_Prelude
begin

section \<open>Merkle root of a feed (pkg/hypercore/merkle.go, crypto.go)\<close>

text \<open>
  The hash \<open>blake2b.Sum256\<close> is third-party code: it is the parameter \<open>H\<close>, of which the only
  documented fact used is that its digest has 32 bytes. The level loop is modelled with the
  code's promotion of a single odd node.
\<close>

type_synonym hash = bytes

definition HashLeaf :: "(bytes \<Rightarrow> hash) \<Rightarrow> bytes \<Rightarrow> hash" where
  "HashLeaf H d = H (0x00 # d)"

definition HashParent :: "(bytes \<Rightarrow> hash) \<Rightarrow> hash \<Rightarrow> hash \<Rightarrow> hash" where
  "HashParent H left right = H (0x01 # left @ right)"

text \<open>
  One pass of the inner loop, over the index pairs \<open>(i, i+1)\<close>. It takes the combining function
  as an argument (the code's is \<open>HashParent\<close>), so that the same recursion can also build the
  tree whose hash is the root.
\<close>

fun next_level :: "('a \<Rightarrow> 'a \<Rightarrow> 'a) \<Rightarrow> 'a list \<Rightarrow> 'a list" where
  "next_level f (x # y # r) = f x y # next_level f r"
| "next_level f [x] = [x]"
| "next_level f [] = []"

lemma length_next_level [simp]: "length (next_level f xs) = (length xs + 1) div 2"
  by (induction f xs rule: next_level.induct) auto

function level_loop :: "('a \<Rightarrow> 'a \<Rightarrow> 'a) \<Rightarrow> 'a list \<Rightarrow> 'a list" where
  "level_loop f nodes = (if 1 < length nodes then level_loop f (next_level f nodes) else nodes)"
  by pat_completeness auto
termination
  by (relation "measure (\<lambda>(f, nodes). length nodes)") auto

declare level_loop.simps [simp del]

definition ComputeRootHash :: "(bytes \<Rightarrow> hash) \<Rightarrow> bytes list \<Rightarrow> hash result" where
  "ComputeRootHash H leaves =
     (if leaves = [] then Inl (ErrNew ''empty leaves array'')
      else case level_loop (HashParent H) (map (HashLeaf H) leaves) of
        [] \<Rightarrow> Inl (Panic ''index out of range'')
      | root # _ \<Rightarrow> Inr root)"

lemma level_loop_single: "xs \<noteq> [] \<Longrightarrow> \<exists>x. level_loop f xs = [x]"
proof (induction f xs rule: level_loop.induct)
  case (1 f nodes)
  show ?case
  proof (cases "1 < length nodes")
    case True
    then have "next_level f nodes \<noteq> []" by (cases "(f, nodes)" rule: next_level.cases) auto
    with True "1.IH" show ?thesis by (simp add: level_loop.simps [of f nodes])
  next
    case False
    with "1.prems" show ?thesis
      by (cases nodes) (auto simp: level_loop.simps [of f "[x]" for x])
  qed
qed

text \<open>The root exists for every non-empty feed, and \<open>nodes[0]\<close> never panics.\<close>

lemma root_exists: "leaves \<noteq> [] \<Longrightarrow> \<exists>h. ComputeRootHash H leaves = Inr h"
  using level_loop_single [of "map (HashLeaf H) leaves" "HashParent H"]
  by (auto simp: ComputeRootHash_def)

subsection \<open>The tree behind the root\<close>

datatype mtree = MLeaf bytes | MNode mtree mtree

fun tree_hash :: "(bytes \<Rightarrow> hash) \<Rightarrow> mtree \<Rightarrow> hash" where
  "tree_hash H (MLeaf d) = HashLeaf H d"
| "tree_hash H (MNode l r) = HashParent H (tree_hash H l) (tree_hash H r)"

fun tree_leaves :: "mtree \<Rightarrow> bytes list" where
  "tree_leaves (MLeaf d) = [d]"
| "tree_leaves (MNode l r) = tree_leaves l @ tree_leaves r"

text \<open>The byte strings fed to \<open>H\<close> on the way to a tree's hash.\<close>

fun tree_inputs :: "(bytes \<Rightarrow> hash) \<Rightarrow> mtree \<Rightarrow> bytes set" where
  "tree_inputs H (MLeaf d) = {0x00 # d}"
| "tree_inputs H (MNode l r) =
     insert (0x01 # tree_hash H l @ tree_hash H r) (tree_inputs H l \<union> tree_inputs H r)"

definition merkle_tree :: "bytes list \<Rightarrow> mtree" where
  "merkle_tree leaves = hd (level_loop MNode (map MLeaf leaves))"

lemma map_next_level:
  "(\<And>x y. h (f x y) = g (h x) (h y)) \<Longrightarrow> map h (next_level f xs) = next_level g (map h xs)"
  by (induction f xs rule: next_level.induct) auto

lemma map_level_loop:
  "(\<And>x y. h (f x y) = g (h x) (h y)) \<Longrightarrow> map h (level_loop f xs) = level_loop g (map h xs)"
proof (induction f xs rule: level_loop.induct)
  case (1 f nodes)
  then show ?case
    using map_next_level [of h f g nodes, OF "1.prems"]
    by (cases "1 < length nodes")
      (simp_all add: level_loop.simps [of f nodes] level_loop.simps [of g "map h nodes"])
qed

lemma leaves_next_level:
  "concat (map tree_leaves (next_level MNode ts)) = concat (map tree_leaves ts)"
  by (induction "MNode" ts rule: next_level.induct) auto

lemma leaves_level_loop:
  "concat (map tree_leaves (level_loop MNode ts)) = concat (map tree_leaves ts)"
proof (induction "MNode" ts rule: level_loop.induct)
  case (1 nodes)
  then show ?case
    by (cases "1 < length nodes")
      (simp_all add: level_loop.simps [of MNode nodes] leaves_next_level)
qed

lemma leaves_merkle_tree: "leaves \<noteq> [] \<Longrightarrow> tree_leaves (merkle_tree leaves) = leaves"
  using level_loop_single [of "map MLeaf leaves" MNode] leaves_level_loop [of "map MLeaf leaves"]
  by (auto simp: merkle_tree_def comp_def)

text \<open>The loop over hashes computes exactly the hash of that tree.\<close>

lemma root_is_tree_hash:
  assumes "leaves \<noteq> []"
  shows "ComputeRootHash H leaves = Inr (tree_hash H (merkle_tree leaves))"
proof -
  obtain t where t: "level_loop MNode (map MLeaf leaves) = [t]"
    using level_loop_single [of "map MLeaf leaves" MNode] assms by auto
  have "level_loop (HashParent H) (map (HashLeaf H) leaves) =
      map (tree_hash H) (level_loop MNode (map MLeaf leaves))"
    using map_level_loop [of "tree_hash H" MNode "HashParent H" "map MLeaf leaves"]
    by (simp add: comp_def)
  then show ?thesis using assms t by (simp add: ComputeRootHash_def merkle_tree_def)
qed

subsection \<open>The root determines the blocks\<close>

text \<open>
  Every argument on which \<open>ComputeRootHash\<close> calls the hash function, in the order of the calls:
  one per leaf, then one per pair of every level.
\<close>

fun pair_calls :: "hash list \<Rightarrow> bytes list" where
  "pair_calls (x # y # r) = (0x01 # x @ y) # pair_calls r"
| "pair_calls _ = []"

function loop_calls :: "(bytes \<Rightarrow> hash) \<Rightarrow> hash list \<Rightarrow> bytes list" where
  "loop_calls H nodes =
     (if 1 < length nodes then pair_calls nodes @ loop_calls H (next_level (HashParent H) nodes)
      else [])"
  by pat_completeness auto
termination
  by (relation "measure (\<lambda>(H, nodes). length nodes)") auto

declare loop_calls.simps [simp del]

definition hash_calls :: "(bytes \<Rightarrow> hash) \<Rightarrow> bytes list \<Rightarrow> bytes list" where
  "hash_calls H leaves = map ((#) 0x00) leaves @ loop_calls H (map (HashLeaf H) leaves)"

abbreviation forest_inputs :: "(bytes \<Rightarrow> hash) \<Rightarrow> mtree list \<Rightarrow> bytes set" where
  "forest_inputs H ts \<equiv> \<Union> (tree_inputs H ` set ts)"

lemma forest_next_level:
  "forest_inputs H (next_level MNode ts) \<subseteq>
     forest_inputs H ts \<union> set (pair_calls (map (tree_hash H) ts))"
  by (induction "MNode" ts rule: next_level.induct) auto

lemma forest_level_loop:
  "forest_inputs H (level_loop MNode ts) \<subseteq>
     forest_inputs H ts \<union> set (loop_calls H (map (tree_hash H) ts))"
proof (induction "MNode" ts rule: level_loop.induct)
  case (1 nodes)
  have map_eq: "map (tree_hash H) (next_level MNode nodes) =
      next_level (HashParent H) (map (tree_hash H) nodes)"
    by (rule map_next_level) simp
  show ?case
  proof (cases "1 < length nodes")
    case True
    with "1" have "forest_inputs H (level_loop MNode nodes) \<subseteq>
        forest_inputs H (next_level MNode nodes) \<union>
        set (loop_calls H (next_level (HashParent H) (map (tree_hash H) nodes)))"
      by (simp add: level_loop.simps [of MNode nodes] map_eq)
    moreover have "set (loop_calls H (map (tree_hash H) nodes)) =
        set (pair_calls (map (tree_hash H) nodes)) \<union>
        set (loop_calls H (next_level (HashParent H) (map (tree_hash H) nodes)))"
      using True by (simp add: loop_calls.simps [of H "map (tree_hash H) nodes"])
    ultimately show ?thesis using forest_next_level [of H nodes] by blast
  next
    case False
    then show ?thesis by (simp add: level_loop.simps [of MNode nodes])
  qed
qed

lemma merkle_tree_inputs:
  assumes "leaves \<noteq> []"
  shows "tree_inputs H (merkle_tree leaves) \<subseteq> set (hash_calls H leaves)"
proof -
  obtain t where "level_loop MNode (map MLeaf leaves) = [t]"
    using level_loop_single [of "map MLeaf leaves" MNode] assms by auto
  then show ?thesis
    using forest_level_loop [of H "map MLeaf leaves"]
    by (auto simp: merkle_tree_def hash_calls_def comp_def)
qed

text \<open>The last string hashed for a tree; it is one of the tree's inputs and determines its shape.\<close>

fun top_input :: "(bytes \<Rightarrow> hash) \<Rightarrow> mtree \<Rightarrow> bytes" where
  "top_input H (MLeaf d) = 0x00 # d"
| "top_input H (MNode l r) = 0x01 # tree_hash H l @ tree_hash H r"

lemma tree_hash_top: "tree_hash H t = H (top_input H t)"
  by (cases t) (simp_all add: HashLeaf_def HashParent_def)

lemma top_input_mem: "top_input H t \<in> tree_inputs H t"
  by (cases t) simp_all

lemma top_input_eq:
  assumes "inj_on H (tree_inputs H s \<union> tree_inputs H t)" "tree_hash H s = tree_hash H t"
  shows "top_input H s = top_input H t"
proof (rule inj_onD [OF assms(1)])
  show "H (top_input H s) = H (top_input H t)"
    using assms(2) by (simp only: tree_hash_top)
  show "top_input H s \<in> tree_inputs H s \<union> tree_inputs H t"
    using top_input_mem by (rule UnI1)
  show "top_input H t \<in> tree_inputs H s \<union> tree_inputs H t"
    using top_input_mem by (rule UnI2)
qed

lemma tree_hash_inj:
  assumes len: "\<And>x. length (H x) = 32"
  shows "inj_on H (tree_inputs H s \<union> tree_inputs H t) \<Longrightarrow> tree_hash H s = tree_hash H t \<Longrightarrow> s = t"
proof (induction s arbitrary: t)
  case (MLeaf d)
  from top_input_eq [OF MLeaf] show ?case by (cases t) simp_all
next
  case (MNode l r)
  from top_input_eq [OF MNode.prems] obtain l' r' where t: "t = MNode l' r'"
    and eq: "tree_hash H l @ tree_hash H r = tree_hash H l' @ tree_hash H r'"
    by (cases t) simp_all
  have "length (tree_hash H u) = 32" for u
    by (simp only: tree_hash_top len)
  with eq have "tree_hash H l = tree_hash H l'" "tree_hash H r = tree_hash H r'"
    by simp_all
  moreover have "inj_on H (tree_inputs H l \<union> tree_inputs H l')"
    by (rule inj_on_subset [OF MNode.prems(1)]) (auto simp: t)
  moreover have "inj_on H (tree_inputs H r \<union> tree_inputs H r')"
    by (rule inj_on_subset [OF MNode.prems(1)]) (auto simp: t)
  ultimately show ?case using MNode.IH t by blast
qed

lemma root_inj:
  assumes "\<And>x. length (H x) = 32"
    and "inj_on H (set (hash_calls H xs) \<union> set (hash_calls H ys))"
    and "xs \<noteq> []" "ys \<noteq> []" "ComputeRootHash H xs = ComputeRootHash H ys"
  shows "xs = ys"
proof -
  from assms(3-5) have "tree_hash H (merkle_tree xs) = tree_hash H (merkle_tree ys)"
    by (simp add: root_is_tree_hash)
  moreover have "inj_on H (tree_inputs H (merkle_tree xs) \<union> tree_inputs H (merkle_tree ys))"
    using assms(2) by (rule inj_on_subset) (use merkle_tree_inputs assms(3,4) in blast)
  ultimately have "merkle_tree xs = merkle_tree ys" using tree_hash_inj [of H] assms(1) by blast
  then show ?thesis using leaves_merkle_tree assms(3,4) by metis
qed

text \<open>
  C10. The root binds the whole feed: two different non-empty block lists (of any lengths) get
  different roots, unless \<open>H\<close> collides on two of the byte strings that computing these two roots
  feeds to it. The 0x00/0x01 prefixes and the promotion of odd nodes leave no other way to
  make two feeds share a root, so a signature on the root is a signature on every block and
  its position.
\<close>

theorem root_binds_feed:
  assumes "\<And>x. length (H x) = 32"
    and "inj_on H (set (hash_calls H xs) \<union> set (hash_calls H ys))"
    and "xs \<noteq> []" "ys \<noteq> []" "xs \<noteq> ys"
  shows "ComputeRootHash H xs \<noteq> ComputeRootHash H ys"
  using assms root_inj by blast

text \<open>A concrete 32-byte digest with no collision on the strings of the two feeds below.\<close>

definition toy_hash :: "bytes \<Rightarrow> hash" where
  "toy_hash x = take 32 (rev x @ replicate 32 0)"

theorem root_binds_feed_witness:
  "ComputeRootHash toy_hash [[1], [2]] \<noteq> ComputeRootHash toy_hash [[1], [3]]"
proof (rule root_binds_feed)
  show "length (toy_hash x) = 32" for x by (simp add: toy_hash_def)
  show "inj_on toy_hash (set (hash_calls toy_hash [[1], [2]]) \<union> set (hash_calls toy_hash [[1], [3]]))"
    by code_simp
qed simp_all

end
