(* ===== verification/Block_Log.thy ===== *)
theory Block_Log
  imports Keet_Prelude
begin

section \<open>The contract between the block storage and its clients\<close>

text \<open>
  The sync session and the IPC handler use \<open>hypercore.Storage\<close> through \<open>Append\<close>, \<open>Get\<close> and
  \<open>Len\<close> only. What they rely on is an append-only log: appending adds one block at the end,
  \<open>Get i\<close> reads the \<open>i\<close>-th block, an index past the end is an error and never a panic, and
  \<open>Len\<close> counts the blocks. \<open>room\<close> says the log still fits its fixed-width sizes.
\<close>

locale append_log =
  fixes inv :: "'s \<Rightarrow> bool"
    and room :: "'s \<Rightarrow> bytes \<Rightarrow> bool"
    and blocks :: "'s \<Rightarrow> bytes list"
    and append :: "'s \<Rightarrow> bytes \<Rightarrow> 's \<times> error option"
    and get :: "'s \<Rightarrow> u64 \<Rightarrow> bytes result"
    and len :: "'s \<Rightarrow> u64"
  assumes append_ok: "inv s \<Longrightarrow> room s b \<Longrightarrow> snd (append s b) = None"
    and inv_append: "inv s \<Longrightarrow> room s b \<Longrightarrow> inv (fst (append s b))"
    and blocks_append: "inv s \<Longrightarrow> room s b \<Longrightarrow> blocks (fst (append s b)) = blocks s @ [b]"
    and get_in: "inv s \<Longrightarrow> unat i < length (blocks s) \<Longrightarrow> get s i = Inr (blocks s ! unat i)"
    and get_out: "inv s \<Longrightarrow> length (blocks s) \<le> unat i \<Longrightarrow>
      get s i = Inl (ErrNew ''index out of bounds'')"
    and len_blocks: "inv s \<Longrightarrow> unat (len s) = length (blocks s)"
begin

lemma get_no_panic: "inv s \<Longrightarrow> \<not> is_panic (get s i)"
  using get_in [of s i] get_out [of s i] by (cases "unat i < length (blocks s)") auto

text \<open>A block is readable right after its append, at the index that was the length before.\<close>

lemma get_appended:
  assumes "inv s" "room s b"
  shows "get (fst (append s b)) (len s) = Inr b"
  using assms by (simp add: get_in inv_append blocks_append len_blocks)

text \<open>Blocks already in the log never change.\<close>

lemma get_stable:
  assumes "inv s" "room s b" "unat i < length (blocks s)"
  shows "get (fst (append s b)) i = get s i"
  using assms by (simp add: get_in inv_append blocks_append nth_append)

text \<open>A run of appends, each of which must have room.\<close>

fun append_all :: "'s \<Rightarrow> bytes list \<Rightarrow> 's" where
  "append_all s [] = s"
| "append_all s (b # bs) = append_all (fst (append s b)) bs"

fun room_all :: "'s \<Rightarrow> bytes list \<Rightarrow> bool" where
  "room_all s [] = True"
| "room_all s (b # bs) = (room s b \<and> room_all (fst (append s b)) bs)"

lemma append_all_blocks:
  "inv s \<Longrightarrow> room_all s bs \<Longrightarrow>
     inv (append_all s bs) \<and> blocks (append_all s bs) = blocks s @ bs"
  by (induction bs arbitrary: s) (simp_all add: inv_append blocks_append)

end

end
