(* ===== verification/Hyper_Storage.thy ===== *)
theory Hyper_Storage
  imports Block_Log
begin

section \<open>Append-only block storage (pkg/hypercore/storage.go)\<close>

text \<open>
  A storage directory holds \<open>data.log\<close>, the blocks one after the other, and \<open>index.log\<close>, one
  16-byte big-endian record (offset, length) per block. An open file is its bytes and its file
  offset. The operating system can fail any call: an open can fail, and a write can stop after
  some bytes with an error. These outcomes are arguments of the operations (\<open>None\<close>: the call
  succeeds), so every error path of the code is a branch of the model.
\<close>

record os_file =
  f_bytes :: bytes
  f_pos :: nat

type_synonym write_fault = "(nat \<times> error) option"

definition file_write :: "os_file \<Rightarrow> bytes \<Rightarrow> write_fault \<Rightarrow> os_file \<times> nat \<times> error option" where
  "file_write f b fault =
     (let (n, err) = (case fault of None \<Rightarrow> (length b, None)
                       | Some (k, e) \<Rightarrow> (min k (length b), Some e));
          old = f_bytes f; pos = f_pos f;
          new = take pos old @ replicate (pos - length old) 0 @ take n b @ drop (pos + n) old
      in (\<lparr>f_bytes = new, f_pos = pos + n\<rparr>, n, err))"

text \<open>
  \<open>f.ReadAt(buf, off)\<close> with \<open>len(buf) = n\<close>: refuses a negative offset, reads nothing for an
  empty buffer, and reports \<open>io.EOF\<close> when the file ends before the buffer is full.
\<close>

definition file_read_at :: "os_file \<Rightarrow> nat \<Rightarrow> int \<Rightarrow> bytes result" where
  "file_read_at f n off =
     (if off < 0 then Inl (ErrNew ''negative offset'')
      else if n = 0 then Inr []
      else if length (f_bytes f) < nat off + n then Inl EOF
      else Inr (gslice (nat off) (nat off + n) (f_bytes f)))"

record index_entry =
  ie_offset :: u64
  ie_length :: u64

record storage =
  st_dataF :: "os_file option"
  st_indexF :: "os_file option"
  st_entries :: "index_entry list"
  st_dataSize :: nat

text \<open>What is on disk when no process has the directory open.\<close>

record disk =
  d_data :: bytes
  d_index :: bytes

subsection \<open>NewStorage\<close>

text \<open>
  The index loop reads 16 bytes at a time and stops at \<open>io.EOF\<close> or, on a torn last record, at
  \<open>io.ErrUnexpectedEOF\<close>; either way the file offset is then at the end of the file.
\<close>

function read_index :: "bytes \<Rightarrow> index_entry list" where
  "read_index r =
     (case read_full 16 r of
        Inl _ \<Rightarrow> []
      | Inr (buf, r') \<Rightarrow>
          \<lparr>ie_offset = be_dec (gslice 0 8 buf), ie_length = be_dec (gslice 8 16 buf)\<rparr>
          # read_index r')"
  by pat_completeness auto
termination
  by (relation "measure length") (auto simp: read_full_Inr)

declare read_index.simps [simp del]

record open_faults =
  mkdir_err :: "error option"
  open_data_err :: "error option"
  open_index_err :: "error option"
  stat_err :: "error option"
  read_index_err :: "error option"
  seek_err :: "error option"

definition no_faults :: open_faults where
  "no_faults = \<lparr>mkdir_err = None, open_data_err = None, open_index_err = None, stat_err = None,
     read_index_err = None, seek_err = None\<rparr>"

definition NewStorage :: "open_faults \<Rightarrow> disk \<Rightarrow> storage result" where
  "NewStorage os d =
     (case mkdir_err os of Some e \<Rightarrow> Inl (Wrap ''create storage dir'' e) | None \<Rightarrow>
     (case open_data_err os of Some e \<Rightarrow> Inl (Wrap ''open data file'' e) | None \<Rightarrow>
     (case open_index_err os of Some e \<Rightarrow> Inl (Wrap ''open index file'' e) | None \<Rightarrow>
     (case stat_err os of Some e \<Rightarrow> Inl e | None \<Rightarrow>
     (case read_index_err os of Some e \<Rightarrow> Inl (Wrap ''read index'' e) | None \<Rightarrow>
     (case seek_err os of Some e \<Rightarrow> Inl e | None \<Rightarrow>
        Inr \<lparr>st_dataF = Some \<lparr>f_bytes = d_data d, f_pos = length (d_data d)\<rparr>,
             st_indexF = Some \<lparr>f_bytes = d_index d, f_pos = length (d_index d)\<rparr>,
             st_entries = read_index (d_index d),
             st_dataSize = length (d_data d)\<rparr>))))))"

subsection \<open>Append, Get, Len, Close\<close>

definition index_record :: "index_entry \<Rightarrow> bytes" where
  "index_record e = put_u64 (ie_offset e) @ put_u64 (ie_length e)"

text \<open>Methods on a nil \<open>*os.File\<close> (after \<open>Close\<close>) return \<open>os.ErrInvalid\<close>.\<close>

definition ErrInvalid :: error where "ErrInvalid = ErrNew ''invalid argument''"

definition write_opt :: "os_file option \<Rightarrow> bytes \<Rightarrow> write_fault \<Rightarrow> os_file option \<times> nat \<times> error option" where
  "write_opt f b fault =
     (case f of None \<Rightarrow> (None, 0, Some ErrInvalid)
      | Some f \<Rightarrow> (let (f', n, err) = file_write f b fault in (Some f', n, err)))"

definition storage_append :: "write_fault \<Rightarrow> write_fault \<Rightarrow> storage \<Rightarrow> bytes \<Rightarrow> storage \<times> error option" where
  "storage_append data_fault index_fault s block =
     (let offset = of_nat (st_dataSize s); len = of_nat (length block);
          (df, n, err) = write_opt (st_dataF s) block data_fault
      in case err of
        Some e \<Rightarrow> (s\<lparr>st_dataF := df\<rparr>, Some (Wrap ''write data block'' e))
      | None \<Rightarrow>
          let s1 = s\<lparr>st_dataF := df, st_dataSize := st_dataSize s + n\<rparr>;
              entry = \<lparr>ie_offset = offset, ie_length = len\<rparr>;
              (xf, _, err') = write_opt (st_indexF s1) (index_record entry) index_fault
          in case err' of
            Some e \<Rightarrow> (s1\<lparr>st_indexF := xf\<rparr>, Some (Wrap ''write index block'' e))
          | None \<Rightarrow> (s1\<lparr>st_indexF := xf, st_entries := st_entries s1 @ [entry]\<rparr>, None))"

text \<open>
  \<open>make([]byte, n)\<close> panics when \<open>n\<close> exceeds the address space the 64-bit runtime can allocate
  from (\<open>2 ^ 48\<close> bytes); a corrupt index can hold such a length.
\<close>

definition max_alloc :: nat where "max_alloc = 2 ^ 48"

definition storage_get :: "storage \<Rightarrow> u64 \<Rightarrow> bytes result" where
  "storage_get s index =
     (if length (st_entries s) \<le> unat index then Inl (ErrNew ''index out of bounds'')
      else
        let entry = st_entries s ! unat index in
        if max_alloc < unat (ie_length entry) then Inl (Panic ''makeslice: len out of range'')
        else case st_dataF s of
          None \<Rightarrow> Inl (Wrap ''read data block'' ErrInvalid)
        | Some df \<Rightarrow>
            (case file_read_at df (unat (ie_length entry)) (sint (ie_offset entry)) of
               Inl e \<Rightarrow> Inl (Wrap ''read data block'' e)
             | Inr buf \<Rightarrow> Inr buf))"

definition storage_len :: "storage \<Rightarrow> u64" where
  "storage_len s = of_nat (length (st_entries s))"

definition storage_close :: "error option \<Rightarrow> error option \<Rightarrow> storage \<Rightarrow> storage \<times> error option" where
  "storage_close data_err index_err s =
     (let errs = (case st_dataF s of None \<Rightarrow> [] | Some _ \<Rightarrow> (case data_err of None \<Rightarrow> [] | Some e \<Rightarrow> [e]))
               @ (case st_indexF s of None \<Rightarrow> [] | Some _ \<Rightarrow> (case index_err of None \<Rightarrow> [] | Some e \<Rightarrow> [e]))
      in (s\<lparr>st_dataF := None, st_indexF := None\<rparr>,
          case errs of [] \<Rightarrow> None | e # _ \<Rightarrow> Some e))"

subsection \<open>The invariant and the abstraction\<close>

definition entry_block :: "bytes \<Rightarrow> index_entry \<Rightarrow> bytes" where
  "entry_block d e = gslice (unat (ie_offset e)) (unat (ie_offset e) + unat (ie_length e)) d"

definition entry_ok :: "bytes \<Rightarrow> index_entry \<Rightarrow> bool" where
  "entry_ok d e \<longleftrightarrow> unat (ie_offset e) + unat (ie_length e) \<le> length d"

definition at_end :: "os_file \<Rightarrow> bool" where
  "at_end f \<longleftrightarrow> f_pos f = length (f_bytes f)"

definition storage_inv :: "storage \<Rightarrow> bool" where
  "storage_inv s \<longleftrightarrow> (case (st_dataF s, st_indexF s) of
     (Some df, Some xf) \<Rightarrow>
       at_end df \<and> st_dataSize s = length (f_bytes df) \<and> length (f_bytes df) \<le> max_alloc \<and>
       at_end xf \<and> f_bytes xf = concat (map index_record (st_entries s)) \<and>
       length (st_entries s) < 2 ^ 64 \<and> list_all (entry_ok (f_bytes df)) (st_entries s)
   | _ \<Rightarrow> False)"

definition blocks_of :: "storage \<Rightarrow> bytes list" where
  "blocks_of s = (case st_dataF s of None \<Rightarrow> []
     | Some df \<Rightarrow> map (entry_block (f_bytes df)) (st_entries s))"

definition storage_room :: "storage \<Rightarrow> bytes \<Rightarrow> bool" where
  "storage_room s b \<longleftrightarrow>
     st_dataSize s + length b \<le> max_alloc \<and> length (st_entries s) + 1 < 2 ^ 64"

definition disk_of :: "storage \<Rightarrow> disk" where
  "disk_of s = \<lparr>d_data = (case st_dataF s of None \<Rightarrow> [] | Some f \<Rightarrow> f_bytes f),
     d_index = (case st_indexF s of None \<Rightarrow> [] | Some f \<Rightarrow> f_bytes f)\<rparr>"

lemma storage_invE:
  assumes "storage_inv s"
  obtains d xs where
    "s = \<lparr>st_dataF = Some \<lparr>f_bytes = d, f_pos = length d\<rparr>,
          st_indexF = Some \<lparr>f_bytes = concat (map index_record xs),
                            f_pos = length (concat (map index_record xs))\<rparr>,
          st_entries = xs, st_dataSize = length d\<rparr>"
    "length d \<le> max_alloc" "length xs < 2 ^ 64" "list_all (entry_ok d) xs"
proof -
  from assms obtain df xf where s: "st_dataF s = Some df" "st_indexF s = Some xf"
    by (auto simp: storage_inv_def split: option.splits)
  show thesis
    by (rule that [of "f_bytes df" "st_entries s"])
      (use assms s in \<open>cases s; cases df; cases xf; auto simp: storage_inv_def at_end_def\<close>)+
qed

lemma file_write_end:
  "file_write \<lparr>f_bytes = d, f_pos = length d\<rparr> b None =
     (\<lparr>f_bytes = d @ b, f_pos = length (d @ b)\<rparr>, length b, None)"
  by (simp add: file_write_def)

lemma entry_ok_mono: "entry_ok d e \<Longrightarrow> entry_ok (d @ b) e"
  by (simp add: entry_ok_def)

lemma entry_block_mono: "entry_ok d e \<Longrightarrow> entry_block (d @ b) e = entry_block d e"
  by (simp add: entry_ok_def entry_block_def gslice_append1)

lemma unat_of_nat_alloc: "n \<le> max_alloc \<Longrightarrow> unat (of_nat n :: u64) = n"
  by (simp add: max_alloc_def unat_of_nat)

lemma sint_small:
  assumes "unat (w :: u64) \<le> max_alloc"
  shows "sint w = int (unat w)"
proof -
  have "int (unat w) \<le> int max_alloc"
    using assms by (simp only: of_nat_le_iff)
  then have "uint w < 2 ^ 63" by (simp add: max_alloc_def uint_nat)
  moreover have "- (2 ^ 63) \<le> uint w" by (rule order_trans [OF _ uint_ge_0]) simp
  ultimately show ?thesis
    by (simp add: sint_uint signed_take_bit_int_eq_self flip: uint_nat)
qed

lemma sint_of_nat_alloc: "n \<le> max_alloc \<Longrightarrow> sint (of_nat n :: u64) = int n"
  using sint_small [of "of_nat n"] by (metis unat_of_nat_alloc)

lemma new_entry:
  assumes "length d + length b \<le> max_alloc"
  defines "e \<equiv> \<lparr>ie_offset = of_nat (length d), ie_length = of_nat (length b)\<rparr>"
  shows "entry_ok (d @ b) e" "entry_block (d @ b) e = b"
  using assms by (simp_all add: entry_ok_def entry_block_def unat_of_nat_alloc gslice_append2
      gslice_full)

lemma storage_append_ok:
  assumes "storage_inv s" "storage_room s b"
  shows "snd (storage_append None None s b) = None"
    and "storage_inv (fst (storage_append None None s b))"
    and "blocks_of (fst (storage_append None None s b)) = blocks_of s @ [b]"
proof -
  from assms(1) obtain d xs where s: "s = \<lparr>st_dataF = Some \<lparr>f_bytes = d, f_pos = length d\<rparr>,
      st_indexF = Some \<lparr>f_bytes = concat (map index_record xs),
                        f_pos = length (concat (map index_record xs))\<rparr>,
      st_entries = xs, st_dataSize = length d\<rparr>"
    and b: "length d \<le> max_alloc" "length xs < 2 ^ 64" "list_all (entry_ok d) xs"
    by (rule storage_invE)
  from assms(2) have r: "length d + length b \<le> max_alloc" "length xs + 1 < 2 ^ 64"
    by (simp_all add: s storage_room_def)
  note new = new_entry [OF r(1)]
  from b(3) have "list_all (entry_ok (d @ b)) xs"
    by (auto simp: list_all_iff intro: entry_ok_mono)
  moreover from b(3) have "map (entry_block (d @ b)) xs = map (entry_block d) xs"
    by (auto simp: list_all_iff intro: entry_block_mono)
  ultimately show "snd (storage_append None None s b) = None"
    and "storage_inv (fst (storage_append None None s b))"
    and "blocks_of (fst (storage_append None None s b)) = blocks_of s @ [b]"
    using r new
    by (simp_all add: s storage_append_def write_opt_def file_write_end Let_def storage_inv_def
        at_end_def blocks_of_def)
qed

lemma file_read_at_in:
  "off + n \<le> length (f_bytes f) \<Longrightarrow> file_read_at f n (int off) = Inr (gslice off (off + n) (f_bytes f))"
  by (simp add: file_read_at_def gslice_def)

lemma storage_get_in:
  assumes "storage_inv s" "unat i < length (blocks_of s)"
  shows "storage_get s i = Inr (blocks_of s ! unat i)"
proof -
  from assms(1) obtain df where df: "st_dataF s = Some df"
    and b: "length (f_bytes df) \<le> max_alloc" "list_all (entry_ok (f_bytes df)) (st_entries s)"
    by (auto simp: storage_inv_def split: option.splits)
  let ?e = "st_entries s ! unat i"
  from assms(2) df have i: "unat i < length (st_entries s)" by (simp add: blocks_of_def)
  with b(2) have ok: "unat (ie_offset ?e) + unat (ie_length ?e) \<le> length (f_bytes df)"
    by (simp add: list_all_length entry_ok_def)
  with b(1) have le: "unat (ie_length ?e) \<le> max_alloc" "unat (ie_offset ?e) \<le> max_alloc"
    by linarith+
  note sint_small [OF le(2)]
  with le df i file_read_at_in [OF ok] show ?thesis
    by (simp add: storage_get_def Let_def blocks_of_def entry_block_def)
qed

lemma storage_get_out:
  "storage_inv s \<Longrightarrow> length (blocks_of s) \<le> unat i \<Longrightarrow>
     storage_get s i = Inl (ErrNew ''index out of bounds'')"
  by (erule storage_invE) (simp add: storage_get_def blocks_of_def)

lemma storage_len_blocks: "storage_inv s \<Longrightarrow> unat (storage_len s) = length (blocks_of s)"
  by (erule storage_invE) (simp add: storage_len_def blocks_of_def unat_of_nat)

interpretation hc_log: append_log storage_inv storage_room blocks_of
    "storage_append None None" storage_get storage_len
  by unfold_locales
    (simp_all add: storage_append_ok storage_get_in storage_get_out storage_len_blocks)

subsection \<open>Reopening a directory\<close>

lemma read_index_nil: "length t < 16 \<Longrightarrow> read_index t = []"
  by (subst read_index.simps) (auto simp: read_full_def)

lemma length_index_record [simp]: "length (index_record e) = 16"
  by (simp add: index_record_def)

lemma read_index_record: "read_index (index_record e @ r) = e # read_index r"
  by (subst read_index.simps) (simp add: index_record_def gslice_simps flip: append_assoc)

lemma read_index_concat:
  "length t < 16 \<Longrightarrow> read_index (concat (map index_record es) @ t) = es"
  by (induction es) (simp_all add: read_index_nil read_index_record)

lemma reopen_disk_of:
  assumes "storage_inv s"
  shows "NewStorage no_faults (disk_of s) = Inr s"
  using assms
  by (rule storage_invE)
    (use read_index_concat [of "[]"] in \<open>simp add: NewStorage_def no_faults_def disk_of_def\<close>)

definition storage_append_all :: "storage \<Rightarrow> bytes list \<Rightarrow> storage" where
  "storage_append_all s bs = foldl (\<lambda>s b. fst (storage_append None None s b)) s bs"

definition storage_room_all :: "storage \<Rightarrow> bytes list \<Rightarrow> bool" where
  "storage_room_all s bs \<longleftrightarrow>
     st_dataSize s + sum_list (map length bs) \<le> max_alloc \<and>
     length (st_entries s) + length bs < 2 ^ 64"

lemma append_sizes:
  assumes "storage_inv s"
  shows "st_dataSize (fst (storage_append None None s b)) = st_dataSize s + length b"
    and "length (st_entries (fst (storage_append None None s b))) = Suc (length (st_entries s))"
  using assms
  by (auto elim!: storage_invE simp: storage_append_def write_opt_def file_write_end Let_def)

lemma append_all_inv:
  "storage_inv s \<Longrightarrow> storage_room_all s bs \<Longrightarrow>
     storage_inv (storage_append_all s bs) \<and>
     blocks_of (storage_append_all s bs) = blocks_of s @ bs"
proof (induction bs arbitrary: s)
  case Nil
  then show ?case by (simp add: storage_append_all_def)
next
  case (Cons b bs)
  let ?s' = "fst (storage_append None None s b)"
  from Cons.prems have "storage_room s b"
    by (simp add: storage_room_def storage_room_all_def)
  with Cons.prems have "storage_inv ?s'" "blocks_of ?s' = blocks_of s @ [b]"
    by (simp_all add: storage_append_ok)
  moreover from Cons.prems have "storage_room_all ?s' bs"
    by (simp add: storage_room_all_def append_sizes)
  ultimately show ?case using Cons.IH [of ?s'] by (simp add: storage_append_all_def)
qed

text \<open>
  C11. A storage opened on an empty directory, or on any directory whose files are consistent,
  behaves as an append-only log: after appending \<open>bs\<close> every old and new block reads back
  unchanged at its index, \<open>Len\<close> counts them, every index past the end is the bounds error, and
  closing and opening the directory again gives the same storage.
\<close>

theorem storage_is_append_only_log:
  assumes "storage_inv s" "storage_room_all s bs"
  defines "t \<equiv> storage_append_all s bs"
  shows "blocks_of t = blocks_of s @ bs \<and>
    unat (storage_len t) = length (blocks_of s) + length bs \<and>
    (\<forall>i. storage_get t i =
       (if unat i < length (blocks_of s) then storage_get s i
        else if unat i < length (blocks_of s) + length bs
          then Inr (bs ! (unat i - length (blocks_of s)))
        else Inl (ErrNew ''index out of bounds''))) \<and>
    NewStorage no_faults (disk_of t) = Inr t"
proof -
  from append_all_inv [OF assms(1,2)] have t: "storage_inv t" "blocks_of t = blocks_of s @ bs"
    by (simp_all add: t_def)
  then show ?thesis
    using assms(1)
    by (auto simp: hc_log.get_in hc_log.get_out hc_log.len_blocks nth_append reopen_disk_of)
qed

definition empty_storage :: storage where
  "empty_storage = \<lparr>st_dataF = Some \<lparr>f_bytes = [], f_pos = 0\<rparr>,
     st_indexF = Some \<lparr>f_bytes = [], f_pos = 0\<rparr>, st_entries = [], st_dataSize = 0\<rparr>"

lemma new_storage_empty:
  "NewStorage no_faults \<lparr>d_data = [], d_index = []\<rparr> = Inr empty_storage"
  by (simp add: NewStorage_def no_faults_def empty_storage_def read_index_nil)

lemma empty_storage_inv: "storage_inv empty_storage"
  by (simp add: storage_inv_def empty_storage_def at_end_def)

theorem storage_is_append_only_log_witness:
  "storage_inv empty_storage \<and> storage_room_all empty_storage [[1, 2], []] \<and>
   storage_get (storage_append_all empty_storage [[1, 2], []]) 0 = Inr [1, 2]"
proof -
  have r: "storage_room_all empty_storage [[1, 2], []]"
    by (simp add: storage_room_all_def empty_storage_def max_alloc_def)
  have b: "blocks_of empty_storage = []" by (simp add: blocks_of_def empty_storage_def)
  show ?thesis
    using storage_is_append_only_log [OF empty_storage_inv r] empty_storage_inv r b by simp
qed

subsection \<open>Crashes and short writes\<close>

text \<open>An append that does not complete: the data write or the index write stops early.\<close>

definition torn_append :: "write_fault \<Rightarrow> write_fault \<Rightarrow> bool" where
  "torn_append data_fault index_fault \<longleftrightarrow>
     data_fault \<noteq> None \<or> (\<exists>k e. index_fault = Some (k, e) \<and> k < 16)"

lemma file_write_end_fault:
  "file_write \<lparr>f_bytes = d, f_pos = length d\<rparr> b (Some (k, e)) =
     (\<lparr>f_bytes = d @ take k b, f_pos = length d + min k (length b)\<rparr>, min k (length b), Some e)"
  by (simp add: file_write_def Let_def min_def)

lemma NewStorage_blocks:
  assumes "length t < 16" "list_all (entry_ok d) xs"
  shows "\<exists>u. NewStorage no_faults \<lparr>d_data = d @ t', d_index = concat (map index_record xs) @ t\<rparr> = Inr u
      \<and> st_entries u = xs \<and> blocks_of u = map (entry_block d) xs"
proof -
  have "map (entry_block (d @ t')) xs = map (entry_block d) xs"
    using assms(2) by (auto simp: list_all_iff intro: entry_block_mono)
  then show ?thesis
    using read_index_concat [OF assms(1), of xs]
    by (simp add: NewStorage_def no_faults_def blocks_of_def)
qed



text \<open>
  The directory a crash leaves behind after 8 bytes of the first index record, reopened, and the
  next append on it.
\<close>

definition torn_log :: storage where
  "torn_log = (case NewStorage no_faults
      (disk_of (fst (storage_append None (Some (8, EOF)) empty_storage [1]))) of
     Inr t \<Rightarrow> t | Inl _ \<Rightarrow> empty_storage)"

lemma torn_log_eq:
  "torn_log = \<lparr>st_dataF = Some \<lparr>f_bytes = [1], f_pos = 1\<rparr>,
     st_indexF = Some \<lparr>f_bytes = replicate 8 0, f_pos = 8\<rparr>, st_entries = [], st_dataSize = 1\<rparr>"
  by (simp add: torn_log_def empty_storage_def storage_append_def write_opt_def file_write_def
      disk_of_def NewStorage_def no_faults_def read_index_nil index_record_def put_u64_def
      numeral_eq_Suc)

lemma torn_log_append:
  "storage_append None None torn_log [7, 8] =
     (\<lparr>st_dataF = Some \<lparr>f_bytes = [1, 7, 8], f_pos = 3\<rparr>,
       st_indexF = Some \<lparr>f_bytes = replicate 8 0 @ index_record \<lparr>ie_offset = 1, ie_length = 2\<rparr>,
                         f_pos = 24\<rparr>,
       st_entries = [\<lparr>ie_offset = 1, ie_length = 2\<rparr>], st_dataSize = 3\<rparr>, None)"
  by (simp add: torn_log_eq storage_append_def write_opt_def file_write_def Let_def numeral_eq_Suc)

lemma read_torn_index:
  "read_index (replicate 8 0 @ index_record \<lparr>ie_offset = 1, ie_length = 2\<rparr>) =
     [\<lparr>ie_offset = 0, ie_length = 1\<rparr>]"
proof -
  have "replicate 8 0 @ index_record \<lparr>ie_offset = 1, ie_length = 2\<rparr> =
      index_record \<lparr>ie_offset = 0, ie_length = 1\<rparr> @ put_u64 2"
    by (simp add: index_record_def put_u64_def numeral_eq_Suc)
  then show ?thesis by (simp add: read_index_record read_index_nil)
qed

text \<open>
  The recovery above does not truncate a torn index record, so the next record is written
  behind it, out of step with the 16-byte records: the append reports success and the block reads
  back, but after one more reopen the log's only entry is a mixture of the two records: the
  acknowledged block \<open>[7, 8]\<close> is gone, and index 0 now reads the block whose append had failed.
\<close>

lemma torn_index_record_loses_next_block:
  "snd (storage_append None None torn_log [7, 8]) = None \<and>
   storage_get (fst (storage_append None None torn_log [7, 8])) 0 = Inr [7, 8] \<and>
   (\<exists>u. NewStorage no_faults (disk_of (fst (storage_append None None torn_log [7, 8]))) = Inr u \<and>
     storage_get u 0 = Inr [1])"
  by (simp add: torn_log_append NewStorage_def no_faults_def disk_of_def read_torn_index
      storage_get_def max_alloc_def file_read_at_def gslice_def)

text \<open>
  A data write that fails after some bytes moves the file offset but not \<open>dataSize\<close>: the next
  append, which reports success, indexes the wrong range. Its block reads back as the first
  \<open>length c\<close> bytes of the stray bytes followed by it.
\<close>

lemma short_data_write_shifts_next_block:
  fixes n :: nat and e :: error
  assumes "storage_inv s" "st_dataSize s + length b + length c \<le> max_alloc"
    and "length (st_entries s) + 1 < 2 ^ 64"
  defines "s1 \<equiv> fst (storage_append (Some (n, e)) None s b)"
  shows "snd (storage_append None None s1 c) = None \<and>
    storage_get (fst (storage_append None None s1 c)) (storage_len s) = Inr (take (length c) (take n b @ c))"
proof -
  from assms(1) obtain d xs where s: "s = \<lparr>st_dataF = Some \<lparr>f_bytes = d, f_pos = length d\<rparr>,
      st_indexF = Some \<lparr>f_bytes = concat (map index_record xs),
                        f_pos = length (concat (map index_record xs))\<rparr>,
      st_entries = xs, st_dataSize = length d\<rparr>"
    by (rule storage_invE)
  let ?d = "d @ take n b"
  have s1: "s1 = s\<lparr>st_dataF := Some \<lparr>f_bytes = ?d, f_pos = length ?d\<rparr>\<rparr>"
    by (simp add: s1_def s storage_append_def write_opt_def file_write_end_fault min_def)
  let ?e = "\<lparr>ie_offset = of_nat (length d), ie_length = of_nat (length c)\<rparr>"
  have t: "storage_append None None s1 c = (s\<lparr>
      st_dataF := Some \<lparr>f_bytes = ?d @ c, f_pos = length (?d @ c)\<rparr>,
      st_dataSize := length d + length c,
      st_indexF := Some \<lparr>f_bytes = concat (map index_record (xs @ [?e])),
                         f_pos = length (concat (map index_record (xs @ [?e])))\<rparr>,
      st_entries := xs @ [?e]\<rparr>, None)"
    using file_write_end [of ?d c]
    by (simp add: s1 s storage_append_def write_opt_def file_write_end Let_def)
  have off: "sint (of_nat (length d) :: u64) = int (length d)" "unat (of_nat (length c) :: u64) = length c"
    using assms(2) by (simp_all add: s unat_of_nat_alloc sint_of_nat_alloc)
  have "unat (storage_len s) = length xs"
    using assms(3) by (simp add: storage_len_def s unat_of_nat)
  then show ?thesis
    using assms(2) file_read_at_in [of "length d" "length c" "\<lparr>f_bytes = ?d @ c, f_pos = length (?d @ c)\<rparr>"]
    by (simp add: t storage_get_def Let_def off s gslice_append2 gslice_def)
qed

end
