(* ===== verification/Db_Interfaces.thy ===== *)
theory Db_Interfaces
  imports Keet_Prelude
begin

section \<open>Repository interfaces (pkg/db/interfaces.go)\<close>

text \<open>
  The two repository interfaces as records of operations over a database state \<open>'r\<close>, and the
  contract their clients (the sync session, the IPC handler, the DHT node) rely on. A Go slice
  argument that may be \<open>nil\<close> is an \<open>option\<close>.
\<close>

record 'r block_repo =
  PutBlock :: "'r \<Rightarrow> string \<Rightarrow> u64 \<Rightarrow> bytes \<Rightarrow> bytes option \<Rightarrow> 'r \<times> error option"
  GetBlock :: "'r \<Rightarrow> string \<Rightarrow> u64 \<Rightarrow> (bytes \<times> bytes) result"

record 'r swarm_repo =
  RegisterSwarm :: "'r \<Rightarrow> string \<Rightarrow> string \<Rightarrow> 'r \<times> error option"
  UnregisterSwarm :: "'r \<Rightarrow> string \<Rightarrow> 'r \<times> error option"
  GetActiveSwarms :: "'r \<Rightarrow> string list result"

text \<open>A sequence of blocks stored one after the other.\<close>

definition put_all :: "'r block_repo \<Rightarrow> 'r \<Rightarrow> (string \<times> u64 \<times> bytes \<times> bytes) list \<Rightarrow> 'r" where
  "put_all repo r ops = foldl (\<lambda>r (f, i, v, sg). fst (PutBlock repo r f i v (Some sg))) r ops"

text \<open>
  A block repository is a map from (feed, index) to (value, signature): \<open>storable\<close> says which
  arguments the backend can store.
\<close>

locale block_repository =
  fixes repo :: "'r block_repo"
    and ok :: "'r \<Rightarrow> bool"
    and storable :: "string \<Rightarrow> bytes \<Rightarrow> bytes option \<Rightarrow> bool"
  assumes put_ok: "ok r \<Longrightarrow> storable f v sg \<Longrightarrow>
      snd (PutBlock repo r f i v sg) = None \<and> ok (fst (PutBlock repo r f i v sg))"
    and get_put_same: "ok r \<Longrightarrow> storable f v (Some b) \<Longrightarrow>
      GetBlock repo (fst (PutBlock repo r f i v (Some b))) f i = Inr (v, b)"
    and get_put_other: "ok r \<Longrightarrow> storable f v sg \<Longrightarrow> (f', i') \<noteq> (f, i) \<Longrightarrow>
      GetBlock repo (fst (PutBlock repo r f i v sg)) f' i' = Inr x \<longleftrightarrow> GetBlock repo r f' i' = Inr x"
begin

text \<open>The last write wins.\<close>

lemma get_put_twice:
  assumes "ok r" "storable f v sg" "storable f w (Some sg')"
  shows "GetBlock repo (fst (PutBlock repo (fst (PutBlock repo r f i v sg)) f i w (Some sg'))) f i
    = Inr (w, sg')"
  using assms put_ok get_put_same by blast

text \<open>Two blocks of one feed coexist.\<close>

lemma get_put_two:
  assumes "ok r" "storable f v (Some sg)" "storable f w (Some sg')" "i \<noteq> j"
  shows "GetBlock repo (fst (PutBlock repo (fst (PutBlock repo r f i v (Some sg))) f j w (Some sg'))) f i
    = Inr (v, sg)"
  using assms put_ok get_put_same get_put_other by blast

text \<open>A sequence of stored blocks is a sequence of map updates.\<close>

lemma put_all_map:
  assumes "ok r" "\<forall>(f, i, v, sg)\<in>set ops. storable f v (Some sg)" "\<And>f i x. GetBlock repo r f i = Inr x \<longleftrightarrow> m (f, i) = Some x"
  shows "ok (put_all repo r ops) \<and>
    (GetBlock repo (put_all repo r ops) f i = Inr x \<longleftrightarrow> foldl (\<lambda>m (f, i, v, sg). m((f, i) \<mapsto> (v, sg))) m ops (f, i) = Some x)"
  using assms
proof (induction ops arbitrary: r m)
  case Nil
  then show ?case by (simp add: put_all_def)
next
  case (Cons op ops)
  obtain f' i' v' sg' where op: "op = (f', i', v', sg')" by (metis prod.collapse)
  let ?r = "fst (PutBlock repo r f' i' v' (Some sg'))"
  have st: "storable f' v' (Some sg')" using Cons.prems(2) op by simp
  have "GetBlock repo ?r g j = Inr y \<longleftrightarrow> (m((f', i') \<mapsto> (v', sg'))) (g, j) = Some y" for g j y
    using get_put_same [OF Cons.prems(1) st] get_put_other [OF Cons.prems(1) st] Cons.prems(3)
    by (cases "(g, j) = (f', i')") auto
  moreover have "ok ?r" using put_ok [OF Cons.prems(1) st] by blast
  ultimately show ?case using Cons.IH [of ?r "m((f', i') \<mapsto> (v', sg'))"] Cons.prems(2) op
    by (simp add: put_all_def)
qed

end

end
