(* ===== verification/Db_Bolt.thy ===== *)
theory Db_Bolt
  imports Db_Interfaces "HOL-Library.AList"
begin

section \<open>The embedded BoltDB backend (pkg/db/bbolt.go)\<close>

text \<open>
  \<open>go.etcd.io/bbolt\<close> is third-party code: the operations of its API that the repositories call
  are the record \<open>bolt_api\<close>, an argument of every definition, over an abstract database \<open>'db\<close>.
  Buckets are addressed by their path. What its documentation promises of them is the locale
  \<open>bolt_store\<close>. A transaction that fails leaves the database unchanged.
\<close>

record 'db bolt_api =
  has_bucket :: "'db \<Rightarrow> bytes list \<Rightarrow> bool"
  create_bucket :: "'db \<Rightarrow> bytes list \<Rightarrow> 'db result"
  bucket_put :: "'db \<Rightarrow> bytes list \<Rightarrow> bytes \<Rightarrow> bytes \<Rightarrow> 'db result"
  bucket_get :: "'db \<Rightarrow> bytes list \<Rightarrow> bytes \<Rightarrow> bytes option"
  bucket_delete :: "'db \<Rightarrow> bytes list \<Rightarrow> bytes \<Rightarrow> 'db result"
  bucket_keys :: "'db \<Rightarrow> bytes list \<Rightarrow> bytes list"
  commit :: "'db \<Rightarrow> 'db result"

definition swarmsBucket :: bytes where "swarmsBucket = bytes_of_string ''swarms''"
definition blocksBucket :: bytes where "blocksBucket = bytes_of_string ''blocks''"

text \<open>\<open>db.Update(fn)\<close>: commits what \<open>fn\<close> did, or rolls back when \<open>fn\<close> or the commit fails.\<close>

definition bolt_update :: "'db bolt_api \<Rightarrow> 'db \<Rightarrow> ('db \<Rightarrow> 'db result) \<Rightarrow> 'db \<times> error option" where
  "bolt_update B db fn =
     (case fn db of Inl e \<Rightarrow> (db, Some e)
      | Inr db1 \<Rightarrow> (case commit B db1 of Inl e \<Rightarrow> (db, Some e) | Inr db2 \<Rightarrow> (db2, None)))"

subsection \<open>Opening the database\<close>

definition create_if_missing :: "'db bolt_api \<Rightarrow> 'db \<Rightarrow> bytes list \<Rightarrow> 'db result" where
  "create_if_missing B db path = (if has_bucket B db path then Inr db else create_bucket B db path)"

definition NewBoltDB :: "'db bolt_api \<Rightarrow> error option \<Rightarrow> 'db result \<Rightarrow> 'db result" where
  "NewBoltDB B mkdir opened =
     (case mkdir of Some e \<Rightarrow> Inl (Wrap ''create db directory'' e) | None \<Rightarrow>
     (case opened of Inl e \<Rightarrow> Inl (Wrap ''open bbolt'' e) | Inr db \<Rightarrow>
     (case bolt_update B db (\<lambda>tx.
         case create_if_missing B tx [swarmsBucket] of
           Inl e \<Rightarrow> Inl (Wrap ''create swarms bucket'' e)
         | Inr tx1 \<Rightarrow> (case create_if_missing B tx1 [blocksBucket] of
             Inl e \<Rightarrow> Inl (Wrap ''create blocks bucket'' e)
           | Inr tx2 \<Rightarrow> Inr tx2)) of
        (_, Some e) \<Rightarrow> Inl (Wrap ''initialize buckets'' e)
      | (db', None) \<Rightarrow> Inr db')))"

subsection \<open>Swarm repository\<close>

definition bolt_RegisterSwarm :: "'db bolt_api \<Rightarrow> 'db \<Rightarrow> string \<Rightarrow> string \<Rightarrow> 'db \<times> error option" where
  "bolt_RegisterSwarm B db topicKey topicName =
     bolt_update B db (\<lambda>tx.
       if \<not> has_bucket B tx [swarmsBucket] then Inl (ErrNew ''swarms bucket not found'')
       else bucket_put B tx [swarmsBucket] (bytes_of_string topicKey) (bytes_of_string topicName))"

definition bolt_UnregisterSwarm :: "'db bolt_api \<Rightarrow> 'db \<Rightarrow> string \<Rightarrow> 'db \<times> error option" where
  "bolt_UnregisterSwarm B db topicKey =
     bolt_update B db (\<lambda>tx.
       if \<not> has_bucket B tx [swarmsBucket] then Inl (ErrNew ''swarms bucket not found'')
       else bucket_delete B tx [swarmsBucket] (bytes_of_string topicKey))"

definition bolt_GetActiveSwarms :: "'db bolt_api \<Rightarrow> 'db \<Rightarrow> string list result" where
  "bolt_GetActiveSwarms B db =
     (if \<not> has_bucket B db [swarmsBucket] then Inl (ErrNew ''swarms bucket not found'')
      else Inr (map string_of_bytes (bucket_keys B db [swarmsBucket])))"

subsection \<open>The block record\<close>

definition encodeBlock :: "bytes \<Rightarrow> bytes \<Rightarrow> bytes" where
  "encodeBlock value signature =
     put_u32 (of_nat (length value)) @ value @ put_u32 (of_nat (length signature)) @ signature"

text \<open>The slice expressions keep Go's run-time bounds check.\<close>

definition decodeBlock :: "bytes \<Rightarrow> (bytes \<times> bytes) result" where
  "decodeBlock data =
     (if length data < 8 then Inl (ErrNew ''data too short'')
      else case go_slice 0 4 data of Inl e \<Rightarrow> Inl e | Inr h \<Rightarrow>
      (let valLen = unat (be_dec h :: u32) in
       if length data < 8 + valLen then Inl (ErrNew ''data too short for value'')
       else case go_slice 4 (4 + int valLen) data of Inl e \<Rightarrow> Inl e | Inr value \<Rightarrow>
       (case go_slice (4 + int valLen) (8 + int valLen) data of Inl e \<Rightarrow> Inl e | Inr h2 \<Rightarrow>
       (let sigLen = unat (be_dec h2 :: u32) in
        if length data < 8 + valLen + sigLen then Inl (ErrNew ''data too short for signature'')
        else case go_slice (8 + int valLen) (8 + int valLen + int sigLen) data of Inl e \<Rightarrow> Inl e
        | Inr signature \<Rightarrow> Inr (value, signature)))))"

subsection \<open>Block repository\<close>

definition sig_bytes :: "bytes option \<Rightarrow> bytes" where
  "sig_bytes sg = (case sg of None \<Rightarrow> [] | Some b \<Rightarrow> b)"

definition bolt_PutBlock ::
  "'db bolt_api \<Rightarrow> 'db \<Rightarrow> string \<Rightarrow> u64 \<Rightarrow> bytes \<Rightarrow> bytes option \<Rightarrow> 'db \<times> error option" where
  "bolt_PutBlock B db feedKey index value signature =
     bolt_update B db (\<lambda>tx.
       if \<not> has_bucket B tx [blocksBucket] then Inl (ErrNew ''blocks bucket not found'')
       else case create_if_missing B tx [blocksBucket, bytes_of_string feedKey] of
         Inl e \<Rightarrow> Inl (Wrap ''create feed bucket'' e)
       | Inr tx1 \<Rightarrow> bucket_put B tx1 [blocksBucket, bytes_of_string feedKey] (put_u64 index)
           (encodeBlock value (sig_bytes signature)))"

definition bolt_GetBlock :: "'db bolt_api \<Rightarrow> 'db \<Rightarrow> string \<Rightarrow> u64 \<Rightarrow> (bytes \<times> bytes) result" where
  "bolt_GetBlock B db feedKey index =
     (if \<not> has_bucket B db [blocksBucket] then Inl (ErrNew ''blocks bucket not found'')
      else if \<not> has_bucket B db [blocksBucket, bytes_of_string feedKey]
        then Inl (ErrNew ''feed bucket not found'')
      else case bucket_get B db [blocksBucket, bytes_of_string feedKey] (put_u64 index) of
        None \<Rightarrow> Inl (ErrNew ''block not found'')
      | Some data \<Rightarrow> decodeBlock data)"

definition bolt_block_repo :: "'db bolt_api \<Rightarrow> 'db block_repo" where
  "bolt_block_repo B = \<lparr>PutBlock = bolt_PutBlock B, GetBlock = bolt_GetBlock B\<rparr>"

definition bolt_swarm_repo :: "'db bolt_api \<Rightarrow> 'db swarm_repo" where
  "bolt_swarm_repo B = \<lparr>RegisterSwarm = bolt_RegisterSwarm B,
     UnregisterSwarm = bolt_UnregisterSwarm B, GetActiveSwarms = bolt_GetActiveSwarms B\<rparr>"

subsection \<open>The block record is a faithful, panic-free codec\<close>

lemma go_slice_ok:
  "i \<le> j \<Longrightarrow> j \<le> length xs \<Longrightarrow> go_slice (int i) (int j) xs = Inr (gslice i j xs)"
  by (simp add: go_slice_def)

lemma decodeBlock_split:
  "decodeBlock data = Inr (v, sg) \<longleftrightarrow>
     8 \<le> length data \<and> 8 + unat (be_dec (gslice 0 4 data) :: u32) \<le> length data \<and>
     (let n = unat (be_dec (gslice 0 4 data) :: u32); m = unat (be_dec (gslice (4 + n) (8 + n) data) :: u32)
      in 8 + n + m \<le> length data \<and> v = gslice 4 (4 + n) data \<and> sg = gslice (8 + n) (8 + n + m) data)"
  using go_slice_ok [of 0 4 data] go_slice_ok [of 4 "4 + n" data for n]
    go_slice_ok [of "4 + n" "8 + n" data for n] go_slice_ok [of "8 + n" "8 + n + m" data for n m]
  by (auto simp: decodeBlock_def Let_def)

lemma encodeBlock_parts:
  fixes rest :: bytes
  assumes "length v < 2 ^ 32" "length sg < 2 ^ 32"
  defines "d \<equiv> encodeBlock v sg @ rest"
  shows "gslice 0 4 d = put_u32 (of_nat (length v))" "gslice 4 (4 + length v) d = v"
    "gslice (4 + length v) (8 + length v) d = put_u32 (of_nat (length sg))"
    "gslice (8 + length v) (8 + length v + length sg) d = sg"
  by (simp_all add: d_def encodeBlock_def gslice_simps)

lemma block_layout:
  assumes "8 + n + m \<le> length data"
  shows "data = gslice 0 4 data @ gslice 4 (4 + n) data @ gslice (4 + n) (8 + n) data
    @ gslice (8 + n) (8 + n + m) data @ drop (8 + n + m) data"
  by (simp add: gslice_drop)

lemma decode_encodeBlock:
  assumes "length v < 2 ^ 32" "length sg < 2 ^ 32"
  shows "decodeBlock (encodeBlock v sg @ rest) = Inr (v, sg)"
proof -
  from assms have "unat (of_nat (length v) :: u32) = length v" "unat (of_nat (length sg) :: u32) = length sg"
    by (simp_all add: unat_of_nat)
  then show ?thesis
    unfolding decodeBlock_split encodeBlock_parts(1) [OF assms] Let_def
    using encodeBlock_parts [OF assms, of rest]
    by (simp add: encodeBlock_def)
qed

text \<open>
  A stored record decodes to \<open>(v, sg)\<close> exactly when it starts with the encoding of \<open>(v, sg)\<close>
  and both lengths fit their 32-bit fields: what \<open>PutBlock\<close> packs, \<open>GetBlock\<close> unpacks, and every
  other record is an error.
\<close>

lemma decodeBlock_iff:
  "decodeBlock data = Inr (v, sg) \<longleftrightarrow>
     length v < 2 ^ 32 \<and> length sg < 2 ^ 32 \<and> (\<exists>rest. data = encodeBlock v sg @ rest)"
proof
  assume dec: "decodeBlock data = Inr (v, sg)"
  define n where "n = unat (be_dec (gslice 0 4 data) :: u32)"
  define m where "m = unat (be_dec (gslice (4 + n) (8 + n) data) :: u32)"
  from dec have len: "8 + n + m \<le> length data"
    and v: "v = gslice 4 (4 + n) data" and sg: "sg = gslice (8 + n) (8 + n + m) data"
    by (simp_all add: decodeBlock_split n_def m_def Let_def)
  from len v sg have "length v = n" "length sg = m" by simp_all
  moreover have "n < 2 ^ 32" "m < 2 ^ 32"
    using unsigned_less [of "be_dec (gslice 0 4 data) :: u32", where 'a = nat]
      unsigned_less [of "be_dec (gslice (4 + n) (8 + n) data) :: u32", where 'a = nat]
    by (simp_all add: n_def m_def)
  moreover have "put_u32 (of_nat n) = gslice 0 4 data" "put_u32 (of_nat m) = gslice (4 + n) (8 + n) data"
    using len by (simp_all add: n_def m_def put_be_dec)
  ultimately show "length v < 2 ^ 32 \<and> length sg < 2 ^ 32 \<and> (\<exists>rest. data = encodeBlock v sg @ rest)"
    using block_layout [OF len] v sg by (auto simp: encodeBlock_def)
next
  assume "length v < 2 ^ 32 \<and> length sg < 2 ^ 32 \<and> (\<exists>rest. data = encodeBlock v sg @ rest)"
  then show "decodeBlock data = Inr (v, sg)" using decode_encodeBlock by blast
qed

text \<open>
  No stored bytes, however corrupt, make \<open>decodeBlock\<close> panic: each of its four slice
  expressions is within the bounds its length checks established.
\<close>

lemma decodeBlock_no_panic: "\<not> is_panic (decodeBlock data)"
  using go_slice_ok [of 0 4 data] go_slice_ok [of 4 "4 + n" data for n]
    go_slice_ok [of "4 + n" "8 + n" data for n] go_slice_ok [of "8 + n" "8 + n + m" data for n m]
  by (auto simp: decodeBlock_def Let_def)

subsection \<open>What bbolt promises, and the block repository on top of it\<close>

text \<open>
  The documented limits of bbolt: a key or bucket name is 1 to 32768 bytes, a value at most
  \<open>2 ^ 31 - 2\<close>; a key that names a nested bucket cannot be put, and the reverse.
\<close>

definition valid_key :: "bytes \<Rightarrow> bool" where
  "valid_key k \<longleftrightarrow> k \<noteq> [] \<and> length k \<le> 32768"

lemma valid_key_Nil [simp]: "\<not> valid_key []"
  by (simp add: valid_key_def)

definition valid_value :: "bytes \<Rightarrow> bool" where
  "valid_value v \<longleftrightarrow> length v \<le> 2 ^ 31 - 2"

locale bolt_store =
  fixes B :: "'db bolt_api" and good :: "'db \<Rightarrow> bool"
  assumes commit_ok: "good db \<Longrightarrow> commit B db = Inr db"
    and create_ok: "good db \<Longrightarrow> \<not> has_bucket B db p \<Longrightarrow> p \<noteq> [] \<Longrightarrow> valid_key (last p) \<Longrightarrow>
      butlast p = [] \<or> has_bucket B db (butlast p) \<Longrightarrow> bucket_get B db (butlast p) (last p) = None \<Longrightarrow>
      \<exists>db'. create_bucket B db p = Inr db' \<and> good db' \<and>
        (\<forall>q. has_bucket B db' q = (q = p \<or> has_bucket B db q)) \<and>
        (\<forall>q k. bucket_get B db' q k = (if q = p then None else bucket_get B db q k))"
    and put_ok: "good db \<Longrightarrow> has_bucket B db p \<Longrightarrow> valid_key k \<Longrightarrow> valid_value v \<Longrightarrow>
      \<not> has_bucket B db (p @ [k]) \<Longrightarrow>
      \<exists>db'. bucket_put B db p k v = Inr db' \<and> good db' \<and>
        (\<forall>q. has_bucket B db' q = has_bucket B db q) \<and>
        (\<forall>q k'. bucket_get B db' q k' = (if q = p \<and> k' = k then Some v else bucket_get B db q k'))"

text \<open>
  The shape \<open>NewBoltDB\<close> establishes and the repositories keep: both top-level buckets exist,
  the blocks bucket holds feed buckets only, and feed buckets hold no nested bucket.
\<close>

definition bolt_ready :: "'db bolt_api \<Rightarrow> ('db \<Rightarrow> bool) \<Rightarrow> 'db \<Rightarrow> bool" where
  "bolt_ready B good db \<longleftrightarrow> good db \<and> has_bucket B db [swarmsBucket] \<and> has_bucket B db [blocksBucket] \<and>
     (\<forall>k. bucket_get B db [blocksBucket] k = None) \<and>
     (\<forall>f k. \<not> has_bucket B db [blocksBucket, f, k])"

definition bolt_storable :: "string \<Rightarrow> bytes \<Rightarrow> bytes option \<Rightarrow> bool" where
  "bolt_storable feed v sg \<longleftrightarrow>
     valid_key (bytes_of_string feed) \<and> valid_value (encodeBlock v (sig_bytes sg)) \<and>
     length v < 2 ^ 32 \<and> length (sig_bytes sg) < 2 ^ 32"

context bolt_store
begin

lemma ensure_feed:
  assumes "bolt_ready B good db" "valid_key f"
  shows "\<exists>db'. create_if_missing B db [blocksBucket, f] = Inr db' \<and> bolt_ready B good db' \<and>
    has_bucket B db' [blocksBucket, f] \<and>
    (\<forall>q. has_bucket B db q \<longrightarrow> has_bucket B db' q) \<and>
    (\<forall>q k v. has_bucket B db q \<longrightarrow> bucket_get B db' q k = bucket_get B db q k) \<and>
    (\<forall>q. has_bucket B db' q \<longrightarrow> q = [blocksBucket, f] \<or> has_bucket B db q) \<and>
    (\<not> has_bucket B db [blocksBucket, f] \<longrightarrow> (\<forall>k. bucket_get B db' [blocksBucket, f] k = None))"
proof (cases "has_bucket B db [blocksBucket, f]")
  case True
  then show ?thesis using assms(1) by (auto simp: create_if_missing_def)
next
  case False
  then obtain db' where "create_bucket B db [blocksBucket, f] = Inr db'" "good db'"
    "\<forall>q. has_bucket B db' q = (q = [blocksBucket, f] \<or> has_bucket B db q)"
    "\<forall>q k. bucket_get B db' q k = (if q = [blocksBucket, f] then None else bucket_get B db q k)"
    using create_ok [of db "[blocksBucket, f]"] assms by (auto simp: bolt_ready_def)
  then show ?thesis using False assms(1) by (auto simp: create_if_missing_def bolt_ready_def)
qed

lemma put_block_effect:
  assumes "bolt_ready B good db" "bolt_storable feed v sg"
  shows "\<exists>db'. bolt_PutBlock B db feed i v sg = (db', None) \<and> bolt_ready B good db' \<and>
    has_bucket B db' [blocksBucket, bytes_of_string feed] \<and>
    (\<forall>q. has_bucket B db q \<longrightarrow> has_bucket B db' q) \<and>
    (\<forall>q k. has_bucket B db q \<or> q = [blocksBucket, bytes_of_string feed] \<and> k = put_u64 i \<longrightarrow>
      bucket_get B db' q k =
      (if q = [blocksBucket, bytes_of_string feed] \<and> k = put_u64 i
       then Some (encodeBlock v (sig_bytes sg)) else bucket_get B db q k)) \<and>
    (\<forall>q. has_bucket B db' q \<longrightarrow> q = [blocksBucket, bytes_of_string feed] \<or> has_bucket B db q) \<and>
    (\<not> has_bucket B db [blocksBucket, bytes_of_string feed] \<longrightarrow>
      (\<forall>k. k \<noteq> put_u64 i \<longrightarrow> bucket_get B db' [blocksBucket, bytes_of_string feed] k = None))"
proof -
  let ?p = "[blocksBucket, bytes_of_string feed]"
  from assms(2) have valid: "valid_key (bytes_of_string feed)" "valid_value (encodeBlock v (sig_bytes sg))"
    by (simp_all add: bolt_storable_def)
  obtain db1 where db1: "create_if_missing B db ?p = Inr db1" "bolt_ready B good db1" "has_bucket B db1 ?p"
    "\<forall>q. has_bucket B db q \<longrightarrow> has_bucket B db1 q"
    "\<forall>q k. has_bucket B db q \<longrightarrow> bucket_get B db1 q k = bucket_get B db q k"
    "\<forall>q. has_bucket B db1 q \<longrightarrow> q = ?p \<or> has_bucket B db q"
    "\<not> has_bucket B db ?p \<longrightarrow> (\<forall>k. bucket_get B db1 ?p k = None)"
    using ensure_feed [OF assms(1) valid(1)] by auto
  have k: "valid_key (put_u64 i)" by (simp add: valid_key_def flip: length_0_conv)
  obtain db2 where db2: "bucket_put B db1 ?p (put_u64 i) (encodeBlock v (sig_bytes sg)) = Inr db2" "good db2"
    "\<forall>q. has_bucket B db2 q = has_bucket B db1 q"
    "\<forall>q k'. bucket_get B db2 q k' =
      (if q = ?p \<and> k' = put_u64 i then Some (encodeBlock v (sig_bytes sg)) else bucket_get B db1 q k')"
    using put_ok [OF _ db1(3) k valid(2)] db1(2) by (auto simp: bolt_ready_def)
  then have "bolt_ready B good db2" using db1(2) by (auto simp: bolt_ready_def)
  then show ?thesis
    using assms(1) db1 db2 commit_ok [OF db2(2)]
    by (auto simp: bolt_PutBlock_def bolt_update_def bolt_ready_def)
qed

end

lemma encodeBlock_inverse:
  "bolt_storable feed v sg \<Longrightarrow> decodeBlock (encodeBlock v (sig_bytes sg)) = Inr (v, sig_bytes sg)"
  using decode_encodeBlock [of v "sig_bytes sg" "[]"] by (simp add: bolt_storable_def)

sublocale bolt_store \<subseteq> bolt_blocks: block_repository "bolt_block_repo B" "bolt_ready B good" bolt_storable
proof unfold_locales
  fix r f i v sg
  assume a: "bolt_ready B good r" "bolt_storable f v sg"
  show "snd (PutBlock (bolt_block_repo B) r f i v sg) = None \<and>
      bolt_ready B good (fst (PutBlock (bolt_block_repo B) r f i v sg))"
    using put_block_effect [OF a, of i] by (auto simp: bolt_block_repo_def)
next
  fix r f i v b
  assume a: "bolt_ready B good r" "bolt_storable f v (Some b)"
  show "GetBlock (bolt_block_repo B) (fst (PutBlock (bolt_block_repo B) r f i v (Some b))) f i = Inr (v, b)"
    using put_block_effect [OF a, of i] encodeBlock_inverse [OF a(2)]
    by (auto simp: bolt_block_repo_def bolt_GetBlock_def bolt_ready_def sig_bytes_def)
next
  fix r f i v sg f' and i' :: u64 and x
  assume a: "bolt_ready B good r" "bolt_storable f v sg" "(f', i') \<noteq> (f, i)"
  have ne: "[blocksBucket, bytes_of_string f'] \<noteq> [blocksBucket, bytes_of_string f] \<or> put_u64 i' \<noteq> put_u64 i"
    using a(3) by (auto dest: map_injective simp: inj_def dest!: arg_cong [where f = string_of_bytes])
  let ?p = "[blocksBucket, bytes_of_string f]" and ?p' = "[blocksBucket, bytes_of_string f']"
  obtain db' where put: "bolt_PutBlock B r f i v sg = (db', None)" and ready: "bolt_ready B good db'"
    and mono: "\<And>q. has_bucket B r q \<Longrightarrow> has_bucket B db' q"
    and old: "\<And>q k. has_bucket B r q \<or> q = ?p \<and> k = put_u64 i \<Longrightarrow> bucket_get B db' q k =
      (if q = ?p \<and> k = put_u64 i then Some (encodeBlock v (sig_bytes sg)) else bucket_get B r q k)"
    and bwd: "\<And>q. has_bucket B db' q \<Longrightarrow> q = ?p \<or> has_bucket B r q"
    and empty: "\<And>k. \<not> has_bucket B r ?p \<Longrightarrow> k \<noteq> put_u64 i \<Longrightarrow> bucket_get B db' ?p k = None"
    using put_block_effect [OF a(1,2), of i] by blast
  have keep: "has_bucket B db' [blocksBucket]" "has_bucket B r [blocksBucket]"
    using ready a(1) by (simp_all add: bolt_ready_def)
  have bucket: "has_bucket B r ?p' \<Longrightarrow> has_bucket B db' ?p'" by (rule mono)
  have same: "has_bucket B r ?p' \<Longrightarrow> bucket_get B db' ?p' (put_u64 i') = bucket_get B r ?p' (put_u64 i')"
    using old [of ?p' "put_u64 i'"] ne by auto
  have new: "has_bucket B db' ?p' \<Longrightarrow> \<not> has_bucket B r ?p' \<Longrightarrow> bucket_get B db' ?p' (put_u64 i') = None"
    using bwd [of ?p'] empty [of "put_u64 i'"] ne by auto
  show "GetBlock (bolt_block_repo B) (fst (PutBlock (bolt_block_repo B) r f i v sg)) f' i' = Inr x \<longleftrightarrow>
      GetBlock (bolt_block_repo B) r f' i' = Inr x"
    using bucket same new by (auto simp: bolt_block_repo_def put bolt_GetBlock_def keep)
qed

subsection \<open>An in-memory store with bbolt's documented behaviour\<close>

type_synonym mem_db = "(bytes list \<times> (bytes \<times> bytes) list) list"

definition mem_bolt :: "mem_db bolt_api" where
  "mem_bolt = \<lparr>
     has_bucket = (\<lambda>db p. map_of db p \<noteq> None),
     create_bucket = (\<lambda>db p.
       if p = [] \<or> \<not> valid_key (last p) then Inl (ErrNew ''bucket name required'')
       else if map_of db p \<noteq> None then Inl (ErrNew ''bucket already exists'')
       else Inr (AList.update p [] db)),
     bucket_put = (\<lambda>db p k v.
       case map_of db p of None \<Rightarrow> Inl (ErrNew ''bucket not found'')
       | Some kv \<Rightarrow>
           if k = [] then Inl (ErrNew ''key required'')
           else if \<not> valid_key k then Inl (ErrNew ''key too large'')
           else if \<not> valid_value v then Inl (ErrNew ''value too large'')
           else if map_of db (p @ [k]) \<noteq> None then Inl (ErrNew ''incompatible value'')
           else Inr (AList.update p (AList.update k v kv) db)),
     bucket_get = (\<lambda>db p k. case map_of db p of None \<Rightarrow> None | Some kv \<Rightarrow> map_of kv k),
     bucket_delete = (\<lambda>db p k.
       case map_of db p of None \<Rightarrow> Inl (ErrNew ''bucket not found'')
       | Some kv \<Rightarrow> Inr (AList.update p (AList.delete k kv) db)),
     bucket_keys = (\<lambda>db p. case map_of db p of None \<Rightarrow> [] | Some kv \<Rightarrow> map fst kv),
     commit = Inr\<rparr>"

interpretation mem_store: bolt_store mem_bolt "\<lambda>_. True"
  by unfold_locales (auto simp: mem_bolt_def update_conv' split: option.splits)

text \<open>\<open>NewBoltDB\<close> on a fresh file establishes the shape the repositories rely on.\<close>

lemma new_mem_bolt: "\<exists>db. NewBoltDB mem_bolt None (Inr []) = Inr db \<and> bolt_ready mem_bolt (\<lambda>_. True) db"
  by (auto simp: NewBoltDB_def bolt_update_def create_if_missing_def mem_bolt_def bolt_ready_def
      valid_key_def swarmsBucket_def blocksBucket_def byte_of_char_def split: if_splits)

end
