(* ===== verification/Hyper_Sync.thy ===== *)
theory Hyper_Sync
  imports Hyper_Wire Hyper_Merkle Hyper_Storage Db_Interfaces "HOL-Library.Sublist"
begin

section \<open>Replication sessions (pkg/hypercore/sync.go, extension.go, crypto.go)\<close>

text \<open>
  One side of a sync session: the stream to the peer, the local storage, the optional block
  repository, and the dispatch of every incoming frame. Cryptography (\<open>crypto/ed25519\<close>,
  \<open>blake2b\<close>) and \<open>compress/zlib\<close> are the parameters of the record \<open>sync_env\<close>. The stream is
  modelled by the bytes written to it and the number of writes that still succeed.
\<close>

record sync_env =
  blake2b :: "bytes \<Rightarrow> hash"
  ed_sign :: "bytes \<Rightarrow> bytes \<Rightarrow> bytes"
  ed_verify :: "bytes \<Rightarrow> bytes \<Rightarrow> bytes \<Rightarrow> bool"
  zlib_compress :: "bytes \<Rightarrow> bytes result"
  zlib_decompress :: "bytes \<Rightarrow> bytes result"

record 'r session =
  ss_storage :: storage
  ss_repo :: "('r block_repo \<times> 'r) option"
  ss_feedKey :: string
  ss_remotePub :: bytes
  ss_localPriv :: bytes
  ss_deflate :: bool
  ss_out :: bytes
  ss_writes_left :: "nat option"
  ss_appended :: "(u64 \<times> bytes) list"

text \<open>\<open>NewSyncSession\<close>, over a fresh stream on which every write succeeds.\<close>

definition NewSyncSession ::
  "storage \<Rightarrow> ('r block_repo \<times> 'r) option \<Rightarrow> string \<Rightarrow> bytes \<Rightarrow> bytes \<Rightarrow> 'r session" where
  "NewSyncSession st repo feedKey localPriv remotePub =
     \<lparr>ss_storage = st, ss_repo = repo, ss_feedKey = feedKey, ss_remotePub = remotePub,
      ss_localPriv = localPriv, ss_deflate = False, ss_out = [], ss_writes_left = None,
      ss_appended = []\<rparr>"

subsection \<open>Extensions and signatures\<close>

definition NegotiateExtensions :: "string list \<Rightarrow> string list \<Rightarrow> string list" where
  "NegotiateExtensions local remote = [ext \<leftarrow> local. ext \<in> set remote]"

definition CompressBlock :: "sync_env \<Rightarrow> bytes \<Rightarrow> bytes result" where
  "CompressBlock E d = zlib_compress E d"

definition DecompressBlock :: "sync_env \<Rightarrow> bytes \<Rightarrow> bytes result" where
  "DecompressBlock E d = zlib_decompress E d"

definition SignRootHash :: "sync_env \<Rightarrow> bytes \<Rightarrow> hash \<Rightarrow> bytes" where
  "SignRootHash E privKey rootHash = ed_sign E privKey rootHash"

definition VerifySignature :: "sync_env \<Rightarrow> bytes \<Rightarrow> hash \<Rightarrow> bytes \<Rightarrow> bool" where
  "VerifySignature E pubKey rootHash signature = ed_verify E pubKey rootHash signature"

subsection \<open>Frames on the stream\<close>

definition conn_write :: "'r session \<Rightarrow> bytes \<Rightarrow> 'r session \<times> error option" where
  "conn_write s b =
     (case ss_writes_left s of
        None \<Rightarrow> (s\<lparr>ss_out := ss_out s @ b\<rparr>, None)
      | Some 0 \<Rightarrow> (s, Some (ErrNew ''write failed''))
      | Some (Suc n) \<Rightarrow> (s\<lparr>ss_out := ss_out s @ b, ss_writes_left := Some n\<rparr>, None))"

definition writeFrame :: "'r session \<Rightarrow> bytes \<Rightarrow> 'r session \<times> error option" where
  "writeFrame s payload =
     (case conn_write s (put_u32 (of_nat (length payload))) of
        (s1, Some e) \<Rightarrow> (s1, Some e)
      | (s1, None) \<Rightarrow> conn_write s1 payload)"

definition readFrame :: "bytes \<Rightarrow> (bytes \<times> bytes) result" where
  "readFrame stream =
     (case read_u32 stream of Inl e \<Rightarrow> Inl e
      | Inr (len, r) \<Rightarrow>
          if MaxMessageSize < unat len then Inl (ErrNew ''frame size exceeds safety limit'')
          else read_full (unat len) r)"

definition NotifyHave :: "'r session \<Rightarrow> u64 \<Rightarrow> 'r session \<times> error option" where
  "NotifyHave s len =
     (case EncodeHave \<lparr>have_start = 0, have_len = len\<rparr> of
        Inl e \<Rightarrow> (s, Some e)
      | Inr b \<Rightarrow> writeFrame s b)"

subsection \<open>Serving a block\<close>

text \<open>All blocks \<open>0 \<dots> n - 1\<close>, failing at the first unreadable one, as the Data handler does.\<close>

fun load_blocks :: "storage \<Rightarrow> nat \<Rightarrow> bytes list result" where
  "load_blocks st 0 = Inr []"
| "load_blocks st (Suc n) =
     (case load_blocks st n of Inl e \<Rightarrow> Inl e
      | Inr bs \<Rightarrow> (case storage_get st (of_nat n) of Inl e \<Rightarrow> Inl e | Inr b \<Rightarrow> Inr (bs @ [b])))"

text \<open>The sender ignores read errors (\<open>val, _ := s.storage.Get(i)\<close>): a nil block hashes as empty.\<close>

definition block_or_nil :: "storage \<Rightarrow> u64 \<Rightarrow> bytes" where
  "block_or_nil st i = (case storage_get st i of Inl _ \<Rightarrow> [] | Inr b \<Rightarrow> b)"

definition root_or_zero :: "sync_env \<Rightarrow> bytes list \<Rightarrow> hash" where
  "root_or_zero E leaves =
     (case ComputeRootHash (blake2b E) leaves of Inl _ \<Rightarrow> replicate 32 0 | Inr h \<Rightarrow> h)"

definition load_for_sending :: "sync_env \<Rightarrow> 'r session \<Rightarrow> u64 \<Rightarrow> (bytes \<times> bytes) option" where
  "load_for_sending E s index =
     (case (case ss_repo s of None \<Rightarrow> None
            | Some (R, r) \<Rightarrow> (case GetBlock R r (ss_feedKey s) index of Inl _ \<Rightarrow> None | Inr vs \<Rightarrow> Some vs)) of
        Some vs \<Rightarrow> Some vs
      | None \<Rightarrow>
          (case storage_get (ss_storage s) index of Inl _ \<Rightarrow> None
           | Inr value \<Rightarrow>
               let leaves = map (\<lambda>i. block_or_nil (ss_storage s) (of_nat i)) [0..<unat index + 1];
                   rootHash = root_or_zero E leaves
               in Some (value, SignRootHash E (ss_localPriv s) rootHash)))"

definition value_to_send :: "sync_env \<Rightarrow> 'r session \<Rightarrow> bytes \<Rightarrow> bytes" where
  "value_to_send E s value =
     (if ss_deflate s \<and> 10 < length value
      then (case CompressBlock E value of Inl _ \<Rightarrow> value | Inr c \<Rightarrow> 1 # c)
      else if ss_deflate s then 0 # value
      else value)"

definition sendBlockData :: "sync_env \<Rightarrow> 'r session \<Rightarrow> u64 \<Rightarrow> 'r session \<times> error option" where
  "sendBlockData E s index =
     (case load_for_sending E s index of
        None \<Rightarrow> (s, None)
      | Some (value, signature) \<Rightarrow>
          (case EncodeData \<lparr>data_index = index, data_value = value_to_send E s value,
                            data_signature = signature\<rparr> of
             Inl e \<Rightarrow> (s, Some e)
           | Inr b \<Rightarrow> writeFrame s b))"

subsection \<open>The read loop\<close>

definition send_request :: "nat \<Rightarrow> 'r session \<Rightarrow> 'r session \<times> error option" where
  "send_request i s =
     (case EncodeRequest \<lparr>req_index = of_nat i\<rparr> of Inl e \<Rightarrow> (s, Some e) | Inr b \<Rightarrow> writeFrame s b)"

definition handle_have :: "'r session \<Rightarrow> bytes \<Rightarrow> 'r session \<times> error option" where
  "handle_have s b =
     (case DecodeHave b of Inl e \<Rightarrow> (s, Some (Wrap ''decode have'' e))
      | Inr have \<Rightarrow>
          let localLen = storage_len (ss_storage s) in
          if localLen < have_len have
          then for_each send_request [unat localLen..<unat (have_len have)] s
          else (s, None))"

text \<open>
  The Want loop runs \<open>i\<close> from \<open>Start\<close> while \<open>i < Start + Len\<close> (a sum that wraps at 64 bits) and
  \<open>i < localLen\<close>.
\<close>

definition handle_want :: "sync_env \<Rightarrow> 'r session \<Rightarrow> bytes \<Rightarrow> 'r session \<times> error option" where
  "handle_want E s b =
     (case DecodeWant b of Inl e \<Rightarrow> (s, Some (Wrap ''decode want'' e))
      | Inr want \<Rightarrow>
          let localLen = storage_len (ss_storage s);
              stop = want_start want + want_len want
          in for_each (\<lambda>i s. sendBlockData E s (of_nat i))
               [unat (want_start want)..<min (unat stop) (unat localLen)] s)"

definition handle_request :: "sync_env \<Rightarrow> 'r session \<Rightarrow> bytes \<Rightarrow> 'r session \<times> error option" where
  "handle_request E s b =
     (case DecodeRequest b of Inl e \<Rightarrow> (s, Some (Wrap ''decode request'' e))
      | Inr req \<Rightarrow> sendBlockData E s (req_index req))"

definition received_value :: "sync_env \<Rightarrow> 'r session \<Rightarrow> bytes \<Rightarrow> bytes result" where
  "received_value E s v =
     (if ss_deflate s \<and> 0 < length v
      then (let flag = v ! 0 in
            if flag = 1 then (case DecompressBlock E (drop 1 v) of
                Inl e \<Rightarrow> Inl (Wrap ''decompress block'' e) | Inr d \<Rightarrow> Inr d)
            else if flag = 0 then Inr (drop 1 v)
            else Inr v)
      else Inr v)"

text \<open>The outcomes of the storage's two writes are arguments, as in \<open>Append\<close> itself.\<close>

definition handle_data ::
  "sync_env \<Rightarrow> write_fault \<Rightarrow> write_fault \<Rightarrow> 'r session \<Rightarrow> bytes \<Rightarrow> 'r session \<times> error option" where
  "handle_data E fd fi s b =
     (case DecodeData b of Inl e \<Rightarrow> (s, Some (Wrap ''decode data'' e)) | Inr m \<Rightarrow>
     (case received_value E s (data_value m) of Inl e \<Rightarrow> (s, Some e) | Inr value \<Rightarrow>
      (let expectedIndex = storage_len (ss_storage s) in
       if data_index m \<noteq> expectedIndex then (s, None)
       else case load_blocks (ss_storage s) (unat expectedIndex) of
         Inl e \<Rightarrow> (s, Some (Wrap ''read local block for signature verification'' e))
       | Inr blocks \<Rightarrow>
         (case ComputeRootHash (blake2b E) (blocks @ [value]) of
            Inl e \<Rightarrow> (s, Some (Wrap ''compute root hash for block'' e))
          | Inr rootHash \<Rightarrow>
            if \<not> VerifySignature E (ss_remotePub s) rootHash (data_signature m)
            then (s, Some (ErrNew ''cryptographic verification failed for block''))
            else case storage_append fd fi (ss_storage s) value of
              (st, Some e) \<Rightarrow> (s\<lparr>ss_storage := st\<rparr>, Some (Wrap ''append block'' e))
            | (st, None) \<Rightarrow>
                let repo' = (case ss_repo s of None \<Rightarrow> None
                      | Some (R, r) \<Rightarrow> Some (R, fst (PutBlock R r (ss_feedKey s) (data_index m) value
                                                (Some (data_signature m)))))
                in (s\<lparr>ss_storage := st, ss_repo := repo',
                      ss_appended := ss_appended s @ [(data_index m, value)]\<rparr>, None)))))"

text \<open>One iteration of \<open>readLoop\<close> on a frame: \<open>Some e\<close> ends the session with that error.\<close>

definition handle_frame ::
  "sync_env \<Rightarrow> write_fault \<Rightarrow> write_fault \<Rightarrow> 'r session \<Rightarrow> bytes \<Rightarrow> 'r session \<times> error option" where
  "handle_frame E fd fi s b =
     (if length b < 1 then (s, None)
      else if b ! 0 = 2 then handle_have s b
      else if b ! 0 = 3 then handle_want E s b
      else if b ! 0 = 4 then handle_request E s b
      else if b ! 0 = 5 then handle_data E fd fi s b
      else (s, None))"

lemma readFrame_shorter: "readFrame r = Inr (b, r') \<Longrightarrow> length r' < length r"
  by (auto simp: readFrame_def read_u32_Inr read_full_Inr split: sum.splits if_splits)

text \<open>
  The loop over a stream: reading stops the session, with no error at the end of the stream.
  Every frame takes at least its 4-byte length from the stream. \<open>faults\<close> gives the outcome of
  the storage writes at each position of the stream.
\<close>

function readLoop ::
  "sync_env \<Rightarrow> (nat \<Rightarrow> write_fault \<times> write_fault) \<Rightarrow> 'r session \<Rightarrow> bytes \<Rightarrow> 'r session \<times> error option" where
  "readLoop E faults s stream =
     (case readFrame stream of
        Inl e \<Rightarrow> (s, if errors_is_EOF e then None else Some (Wrap ''read loop frame'' e))
      | Inr (b, rest) \<Rightarrow>
          (case handle_frame E (fst (faults (length stream))) (snd (faults (length stream))) s b of
             (s', Some e) \<Rightarrow> (s', Some e)
           | (s', None) \<Rightarrow> readLoop E faults s' rest))"
  by pat_completeness auto

termination
  by (relation "measure (\<lambda>(E, faults, s, stream). length stream)") (auto dest: readFrame_shorter)

declare readLoop.simps [simp del]

subsection \<open>Starting a session\<close>

text \<open>
  \<open>Run\<close> up to the read loop: handshake out, handshake in, negotiation, Have and Want out. It
  returns the session, the unread rest of the stream, and the error that ends it early.
\<close>

definition start_session :: "'r session \<Rightarrow> bytes \<Rightarrow> 'r session \<times> (bytes result)" where
  "start_session s stream =
     (case EncodeHandshake \<lparr>hs_protocol = ''hypercore/v10'', hs_key = bytes_of_string (ss_feedKey s),
                            hs_extensions = [''deflate'']\<rparr> of
        Inl e \<Rightarrow> (s, Inl (Wrap ''encode handshake'' e)) | Inr hb \<Rightarrow>
     (case writeFrame s hb of (s1, Some e) \<Rightarrow> (s1, Inl (Wrap ''write handshake'' e)) | (s1, None) \<Rightarrow>
     (case readFrame stream of Inl e \<Rightarrow> (s1, Inl (Wrap ''read handshake'' e)) | Inr (rb, rest) \<Rightarrow>
     (case DecodeHandshake rb of Inl e \<Rightarrow> (s1, Inl (Wrap ''decode handshake'' e)) | Inr remote \<Rightarrow>
      if hs_protocol remote \<noteq> ''hypercore/v10''
      then (s1, Inl (ErrNew ''unsupported remote protocol''))
      else
       let shared = NegotiateExtensions [''deflate''] (hs_extensions remote);
           s2 = s1\<lparr>ss_deflate := ss_deflate s1 \<or> ''deflate'' \<in> set shared\<rparr>;
           localLen = storage_len (ss_storage s2)
       in (case EncodeHave \<lparr>have_start = 0, have_len = localLen\<rparr> of
             Inl e \<Rightarrow> (s2, Inl (Wrap ''encode have'' e)) | Inr hv \<Rightarrow>
          (case writeFrame s2 hv of (s3, Some e) \<Rightarrow> (s3, Inl (Wrap ''write have'' e)) | (s3, None) \<Rightarrow>
          (case EncodeWant \<lparr>want_start = localLen, want_len = 1000000\<rparr> of
             Inl e \<Rightarrow> (s3, Inl (Wrap ''encode want'' e)) | Inr wb \<Rightarrow>
          (case writeFrame s3 wb of (s4, Some e) \<Rightarrow> (s4, Inl (Wrap ''write want'' e))
           | (s4, None) \<Rightarrow> (s4, Inr rest)))))))))"

definition run_session ::
  "sync_env \<Rightarrow> (nat \<Rightarrow> write_fault \<times> write_fault) \<Rightarrow> 'r session \<Rightarrow> bytes \<Rightarrow> 'r session \<times> error option" where
  "run_session E faults s stream =
     (case start_session s stream of
        (s1, Inl e) \<Rightarrow> (s1, Some e)
      | (s1, Inr rest) \<Rightarrow> readLoop E faults s1 rest)"

subsection \<open>Frames carry any payload within the limit\<close>

definition frame :: "bytes \<Rightarrow> bytes" where
  "frame p = put_u32 (of_nat (length p)) @ p"

lemma length_frame [simp]: "length (frame p) = 4 + length p"
  by (simp add: frame_def)

lemma readFrame_frame [simp]:
  "length p \<le> MaxMessageSize \<Longrightarrow> readFrame (frame p @ r) = Inr (p, r)"
  by (simp add: readFrame_def frame_def unat_of_nat_le_Max)

lemma readFrame_end: "readFrame [] = Inl EOF"
  by (simp add: readFrame_def read_u32_def read_full_def)

lemma writeFrame_ok [simp]:
  "ss_writes_left s = None \<Longrightarrow> writeFrame s p = (s\<lparr>ss_out := ss_out s @ frame p\<rparr>, None)"
  by (simp add: writeFrame_def conn_write_def frame_def)

lemma readLoop_end [simp]: "readLoop E faults s [] = (s, None)"
  by (simp add: readLoop.simps [of E faults s "[]"] readFrame_end)

lemma readLoop_frame:
  assumes "length p \<le> MaxMessageSize" "handle_frame E None None s p = (s', None)"
  shows "readLoop E (\<lambda>_. (None, None)) s (frame p @ r) = readLoop E (\<lambda>_. (None, None)) s' r"
  using assms by (simp add: readLoop.simps [of E _ s "frame p @ r"])

subsection \<open>Only verified blocks reach the storage\<close>

text \<open>
  What sending leaves alone: everything but the bytes written and the remaining writes.
\<close>

definition same_log :: "'r session \<Rightarrow> 'r session \<Rightarrow> bool" where
  "same_log s t \<longleftrightarrow> ss_storage t = ss_storage s \<and> ss_remotePub t = ss_remotePub s \<and>
     ss_appended t = ss_appended s \<and> ss_repo t = ss_repo s"

lemma same_log_refl [simp, intro]: "same_log s s"
  by (simp add: same_log_def)

lemma same_log_trans: "same_log s t \<Longrightarrow> same_log t u \<Longrightarrow> same_log s u"
  by (simp add: same_log_def)

lemma conn_write_same_log: "same_log s (fst (conn_write s b))"
  by (auto simp: conn_write_def same_log_def split: option.splits nat.splits)

lemma writeFrame_same_log: "same_log s (fst (writeFrame s b))"
proof -
  obtain s1 e where w: "conn_write s (put_u32 (of_nat (length b))) = (s1, e)" by force
  with conn_write_same_log [of s] have "same_log s s1" by (metis fst_conv)
  with w conn_write_same_log [of s1 b] show ?thesis
    by (cases e) (auto simp: writeFrame_def intro: same_log_trans)
qed

lemma send_request_same_log: "same_log s (fst (send_request i s))"
  by (simp add: send_request_def writeFrame_same_log split: sum.splits)

lemma sendBlockData_same_log: "same_log s (fst (sendBlockData E s i))"
  by (auto simp: sendBlockData_def writeFrame_same_log split: sum.splits option.splits prod.splits)

lemma for_each_same_log:
  assumes "\<And>i s. same_log s (fst (body i s))"
  shows "same_log s (fst (for_each body is s))"
  by (rule for_each_preserves [where P = "same_log s"]) (auto intro: assms same_log_trans)

lemma handle_have_same_log: "same_log s (fst (handle_have s b))"
  by (simp add: handle_have_def Let_def for_each_same_log send_request_same_log split: sum.splits)

lemma handle_want_same_log: "same_log s (fst (handle_want E s b))"
  by (simp add: handle_want_def Let_def for_each_same_log sendBlockData_same_log split: sum.splits)

lemma handle_request_same_log: "same_log s (fst (handle_request E s b))"
  by (simp add: handle_request_def sendBlockData_same_log split: sum.splits)

text \<open>
  \<open>verified_chain E pub bs new\<close>: each block of \<open>new\<close>, appended in order behind \<open>bs\<close>, came with a
  signature that verifies under \<open>pub\<close> on the Merkle root of the log that ends with it.
\<close>

fun verified_chain :: "sync_env \<Rightarrow> bytes \<Rightarrow> bytes list \<Rightarrow> bytes list \<Rightarrow> bool" where
  "verified_chain E pub bs [] = True"
| "verified_chain E pub bs (b # new) =
     ((\<exists>root sig. ComputeRootHash (blake2b E) (bs @ [b]) = Inr root \<and> VerifySignature E pub root sig)
      \<and> verified_chain E pub (bs @ [b]) new)"

text \<open>The calls of \<open>OnAppendBlock\<close> that report the blocks \<open>new\<close> behind \<open>n\<close> old ones.\<close>

fun notices :: "nat \<Rightarrow> bytes list \<Rightarrow> (u64 \<times> bytes) list" where
  "notices n [] = []"
| "notices n (b # new) = (of_nat n, b) # notices (Suc n) new"

lemma load_blocks_ok:
  assumes "storage_inv st"
  shows "n \<le> length (blocks_of st) \<Longrightarrow> load_blocks st n = Inr (take n (blocks_of st))"
proof (induction n)
  case 0
  then show ?case by simp
next
  case (Suc n)
  from assms have "length (blocks_of st) < 2 ^ 64" 
    by (auto elim!: storage_invE simp: blocks_of_def)
  with Suc.prems have "unat (of_nat n :: u64) = n" by (simp add: unat_of_nat)
  with Suc assms show ?case
    by (simp add: hc_log.get_in take_Suc_conv_app_nth)
qed

lemma load_all_blocks:
  "storage_inv st \<Longrightarrow> load_blocks st (unat (storage_len st)) = Inr (blocks_of st)"
  by (simp add: load_blocks_ok hc_log.len_blocks)

text \<open>A failing append leaves the blocks of the log as they were.\<close>

lemma storage_append_fault:
  assumes "storage_inv st" "storage_append fd fi st b = (st', Some e)"
  shows "blocks_of st' = blocks_of st"
  using assms(1)
proof (rule storage_invE)
  fix d xs
  assume st: "st = \<lparr>st_dataF = Some \<lparr>f_bytes = d, f_pos = length d\<rparr>,
      st_indexF = Some \<lparr>f_bytes = concat (map index_record xs),
                        f_pos = length (concat (map index_record xs))\<rparr>,
      st_entries = xs, st_dataSize = length d\<rparr>"
    and "list_all (entry_ok d) xs"
  then have "map (entry_block (d @ b')) xs = map (entry_block d) xs" for b'
    by (auto simp: list_all_iff intro: entry_block_mono)
  then show ?thesis
    using assms(2)
    by (cases fd; cases fi)
      (auto simp: st storage_append_def write_opt_def file_write_end file_write_end_fault Let_def
        blocks_of_def)
qed

lemma storage_append_success:
  assumes "storage_inv st" "storage_append fd fi st b = (st', None)"
  shows "fd = None" "fi = None" "st_dataSize st' = st_dataSize st + length b"
    "length (st_entries st') = Suc (length (st_entries st))"
  using assms
  by (cases fd; cases fi; auto elim!: storage_invE simp: storage_append_def write_opt_def
      file_write_end file_write_end_fault Let_def)+

lemma storage_append_room:
  assumes "storage_inv st" "storage_append fd fi st b = (st', None)"
    and "st_dataSize st' \<le> max_alloc" "length (st_entries st') < 2 ^ 64"
  shows "storage_inv st' \<and> blocks_of st' = blocks_of st @ [b]"
proof -
  note ok = storage_append_success [OF assms(1,2)]
  with assms(3,4) have "storage_room st b" by (simp add: storage_room_def)
  with assms(1,2) ok(1,2) show ?thesis
    using hc_log.inv_append hc_log.blocks_append by fastforce
qed

text \<open>The sizes that the fixed-width fields of the storage can hold; sessions only grow them.\<close>

definition within_limits :: "storage \<Rightarrow> bool" where
  "within_limits st \<longleftrightarrow> st_dataSize st \<le> max_alloc \<and> length (st_entries st) < 2 ^ 64"

definition grows :: "storage \<Rightarrow> storage \<Rightarrow> bool" where
  "grows st st' \<longleftrightarrow> st_dataSize st \<le> st_dataSize st' \<and> length (st_entries st) \<le> length (st_entries st')"

lemma grows_refl [simp, intro]: "grows st st" by (simp add: grows_def)

lemma grows_trans: "grows a b \<Longrightarrow> grows b c \<Longrightarrow> grows a c" by (simp add: grows_def)

lemma within_limits_back: "grows st st' \<Longrightarrow> within_limits st' \<Longrightarrow> within_limits st"
  by (simp add: within_limits_def grows_def)

lemma same_log_storage: "same_log s t \<Longrightarrow> ss_storage t = ss_storage s"
  by (simp add: same_log_def)

lemma storage_append_grows: "grows st (fst (storage_append fd fi st b))"
  by (auto simp: storage_append_def Let_def grows_def split: prod.splits option.splits)

lemma handle_data_grows: "grows (ss_storage s) (ss_storage (fst (handle_data E fd fi s b)))"
  using storage_append_grows [of "ss_storage s" fd fi]
  by (auto simp: handle_data_def Let_def split: sum.splits prod.splits option.splits)
    (metis fst_conv)+

lemma handle_frame_grows: "grows (ss_storage s) (ss_storage (fst (handle_frame E fd fi s b)))"
  using handle_have_same_log [of s b] handle_want_same_log [of s E b]
    handle_request_same_log [of s E b]
  by (simp add: handle_frame_def handle_data_grows same_log_def)

lemma readLoop_grows: "grows (ss_storage s) (ss_storage (fst (readLoop E faults s stream)))"
proof (induction E faults s stream rule: readLoop.induct)
  case (1 E faults s stream)
  let ?f = "faults (length stream)"
  show ?case
  proof (cases "readFrame stream")
    case (Inr p)
    obtain b rest where p: "p = (b, rest)" by force
    obtain t r where h: "handle_frame E (fst ?f) (snd ?f) s b = (t, r)" by force
    with handle_frame_grows [of s E "fst ?f" "snd ?f" b]
    have "grows (ss_storage s) (ss_storage t)" by simp
    moreover have "r = None \<Longrightarrow> grows (ss_storage t) (ss_storage (fst (readLoop E faults t rest)))"
      using "1.IH" Inr p h by simp
    ultimately show ?thesis
      using Inr p h by (cases r) (auto simp: readLoop.simps [of E faults s] intro: grows_trans)
  qed (simp add: readLoop.simps [of E faults s])
qed

text \<open>
  What one Data frame can do: end the session with the log's blocks unchanged, be ignored, or
  append one verified block, store it in the repository and report it.
\<close>

lemma handle_data_cases:
  assumes "handle_data E fd fi s b = (s', e)" "storage_inv (ss_storage s)"
  obtains
    (same) "same_log s s'"
  | (failed) err where "e = Some err" "blocks_of (ss_storage s') = blocks_of (ss_storage s)"
      "ss_appended s' = ss_appended s"
  | (appended) v root sig where "e = None"
      "ComputeRootHash (blake2b E) (blocks_of (ss_storage s) @ [v]) = Inr root"
      "VerifySignature E (ss_remotePub s) root sig"
      "storage_append fd fi (ss_storage s) v = (ss_storage s', None)"
      "ss_remotePub s' = ss_remotePub s"
      "ss_appended s' = ss_appended s @ [(storage_len (ss_storage s), v)]"
proof -
  note blocks = load_all_blocks [OF assms(2)]
  consider (ignored) "same_log s s'"
    | (verified) m v root where "DecodeData b = Inr m" "received_value E s (data_value m) = Inr v"
        "data_index m = storage_len (ss_storage s)"
        "ComputeRootHash (blake2b E) (blocks_of (ss_storage s) @ [v]) = Inr root"
        "VerifySignature E (ss_remotePub s) root (data_signature m)"
    using assms(1) blocks
    by (auto simp: handle_data_def Let_def split: sum.splits if_splits)
  then show thesis
  proof cases
    case ignored
    then show thesis by (rule same)
  next
    case verified
    obtain st' a where ap: "storage_append fd fi (ss_storage s) v = (st', a)" by force
    show thesis
    proof (cases a)
      case None
      with verified ap blocks assms(1) show thesis
        by (auto simp: handle_data_def Let_def intro!: appended)
    next
      case (Some err)
      with ap storage_append_fault [OF assms(2)] have "blocks_of st' = blocks_of (ss_storage s)"
        by simp
      with Some verified ap blocks assms(1) show thesis
        by (auto simp: handle_data_def Let_def intro!: failed)
    qed
  qed
qed

text \<open>The effect of a run on the log: \<open>new\<close> is what it appended.\<close>

definition log_extended :: "sync_env \<Rightarrow> 'r session \<Rightarrow> 'r session \<Rightarrow> bytes list \<Rightarrow> bool" where
  "log_extended E s s' new \<longleftrightarrow>
     blocks_of (ss_storage s') = blocks_of (ss_storage s) @ new \<and>
     verified_chain E (ss_remotePub s) (blocks_of (ss_storage s)) new \<and>
     ss_appended s' = ss_appended s @ notices (length (blocks_of (ss_storage s))) new"

lemma log_extended_same: "same_log s s' \<Longrightarrow> log_extended E s s' []"
  by (simp add: log_extended_def same_log_def)

lemma log_extended_trans_same: "same_log s s' \<Longrightarrow> log_extended E s' t new \<Longrightarrow> log_extended E s t new"
  by (simp add: log_extended_def same_log_def)

lemma storage_len_of_nat:
  assumes "storage_inv st"
  shows "storage_len st = of_nat (length (blocks_of st))"
  using hc_log.len_blocks [OF assms] by (metis word_of_nat_unat)

text \<open>One frame, then: the session ends with the log as it was, or goes on with a longer one.\<close>

lemma handle_frame_step:
  assumes "handle_frame E fd fi s b = (t, r)" "storage_inv (ss_storage s)"
  obtains
    (same) "same_log s t"
  | (failed) err where "r = Some err" "log_extended E s t []"
  | (appended) v where "r = None" "within_limits (ss_storage t) \<Longrightarrow> storage_inv (ss_storage t)"
      "\<And>u new. within_limits (ss_storage t) \<Longrightarrow> log_extended E t u new \<Longrightarrow> log_extended E s u (v # new)"
proof -
  from assms(1) consider "same_log s t" | "handle_data E fd fi s b = (t, r)"
    using handle_have_same_log [of s b] handle_want_same_log [of s E b]
      handle_request_same_log [of s E b]
    by (auto simp: handle_frame_def split: if_splits)
  then show thesis
  proof cases
    case 1
    then show thesis by (rule that(1))
  next
    case 2
    from this assms(2) show thesis
    proof (cases rule: handle_data_cases)
      case same
      then show thesis by (rule that(1))
    next
      case (failed err)
      then show thesis by (intro that(2)) (simp_all add: log_extended_def)
    next
      case (appended v root sig)
      have ok: "storage_inv (ss_storage t) \<and> blocks_of (ss_storage t) = blocks_of (ss_storage s) @ [v]"
        if "within_limits (ss_storage t)"
        using storage_append_room [OF assms(2) appended(4)] that by (simp add: within_limits_def)
      show thesis
      proof (rule that(3) [of v])
        show "log_extended E s u (v # new)"
          if "within_limits (ss_storage t)" "log_extended E t u new" for u new
          using that ok appended storage_len_of_nat [OF assms(2)] by (auto simp: log_extended_def)
      qed (use appended ok in auto)
    qed
  qed
qed

lemma readLoop_log_extended:
  assumes "storage_inv (ss_storage s)" "readLoop E faults s stream = (s', e)"
    and "within_limits (ss_storage s')"
  shows "\<exists>new. log_extended E s s' new"
  using assms
proof (induction E faults s stream arbitrary: s' e rule: readLoop.induct)
  case (1 E faults s stream)
  let ?f = "faults (length stream)"
  show ?case
  proof (cases "readFrame stream")
    case (Inl err)
    with "1.prems"(2) show ?thesis
      by (auto simp: readLoop.simps [of E faults s] intro: log_extended_same)
  next
    case (Inr p)
    obtain b rest where p: "p = (b, rest)" by force
    obtain t r where h: "handle_frame E (fst ?f) (snd ?f) s b = (t, r)" by force
    from "1.prems"(2) Inr p h have run: "r = None \<Longrightarrow> readLoop E faults t rest = (s', e)"
      and stop: "r \<noteq> None \<Longrightarrow> s' = t"
      by (auto simp: readLoop.simps [of E faults s])
    have lim: "within_limits (ss_storage t)"
      using run stop "1.prems"(3) readLoop_grows [of t E faults rest]
      by (cases r) (auto intro: within_limits_back)
    have IH: "r = None \<Longrightarrow> storage_inv (ss_storage t) \<Longrightarrow> \<exists>new. log_extended E t s' new"
      using "1.IH" Inr p h run "1.prems"(3) by simp
    from h "1.prems"(1) show ?thesis
    proof (cases rule: handle_frame_step)
      case same
      show ?thesis
      proof (cases r)
        case None
        with IH same "1.prems"(1) show ?thesis
          by (auto simp: same_log_storage intro: log_extended_trans_same)
      qed (use stop same in \<open>auto intro: log_extended_same\<close>)
    next
      case failed
      with stop show ?thesis by auto
    next
      case (appended v)
      with lim IH show ?thesis by blast
    qed
  qed
qed

lemma start_session_same_log: "same_log s (fst (start_session s stream))"
proof -
  have w: "same_log a c" if "writeFrame a p = (c, e)" for a c :: "'a session" and p e
    using writeFrame_same_log [of a p] that by simp
  have d: "same_log a c \<Longrightarrow> same_log a (c\<lparr>ss_deflate := x\<rparr>)" for a c :: "'a session" and x
    by (simp add: same_log_def)
  show ?thesis
    by (auto simp: start_session_def Let_def EncodeHave_def EncodeWant_def EncodeHandshake_def
        dest!: w intro: d same_log_trans split: sum.splits prod.splits option.splits)
qed


lemma run_session_log_extended:
  assumes "storage_inv (ss_storage s)" "run_session E faults s stream = (s', e)"
    and "within_limits (ss_storage s')"
  shows "\<exists>new. log_extended E s s' new"
proof -
  obtain t r where st: "start_session s stream = (t, r)" by force
  with start_session_same_log [of s stream] have same: "same_log s t" by simp
  show ?thesis
  proof (cases r)
    case (Inl err)
    with st assms(2) have "s' = t" by (simp add: run_session_def)
    with same show ?thesis by (auto intro: log_extended_same)
  next
    case (Inr rest)
    with st assms(2) have "readLoop E faults t rest = (s', e)" by (simp add: run_session_def)
    with same assms(1,3) readLoop_log_extended [of t E faults rest s' e] show ?thesis
      by (auto simp: same_log_storage intro: log_extended_trans_same)
  qed
qed

lemma verified_chain_authentic:
  assumes len: "\<And>x. length (blake2b E x) = 32"
    and signed: "\<And>root sig. VerifySignature E pub root sig \<Longrightarrow>
      \<exists>p. prefix p feed \<and> p \<noteq> [] \<and> ComputeRootHash (blake2b E) p = Inr root"
  shows "verified_chain E pub bs new \<Longrightarrow> prefix bs feed \<Longrightarrow>
    (\<And>p q. prefix p (bs @ new) \<Longrightarrow> prefix q feed \<Longrightarrow>
      inj_on (blake2b E) (set (hash_calls (blake2b E) p) \<union> set (hash_calls (blake2b E) q))) \<Longrightarrow>
    prefix (bs @ new) feed"
proof (induction new arbitrary: bs)
  case Nil
  then show ?case by simp
next
  case (Cons b new)
  from Cons.prems(1) obtain root sig where "ComputeRootHash (blake2b E) (bs @ [b]) = Inr root"
    and "VerifySignature E pub root sig" by auto
  moreover from this signed obtain p where p: "prefix p feed" "p \<noteq> []"
    "ComputeRootHash (blake2b E) p = Inr root" by blast
  moreover have "inj_on (blake2b E)
      (set (hash_calls (blake2b E) (bs @ [b])) \<union> set (hash_calls (blake2b E) p))"
    by (rule Cons.prems(3)) (simp_all add: p)
  ultimately have "bs @ [b] = p" using len by (intro root_inj) auto
  with p(1) have "prefix (bs @ [b]) feed" by simp
  with Cons.IH [of "bs @ [b]"] Cons.prems show ?case by simp
qed

end
