(* ===== verification/Hyper_Replicate.thy ===== *)
theory Hyper_Replicate
  imports Hyper_Sync
begin

section \<open>Two sync sessions over one connection\<close>

text \<open>
  The end-to-end behaviour of \<open>pkg/hypercore/sync.go\<close>: what a server writes for each block it is
  asked for, what a client makes of it, and that a client holding a prefix of the server's feed
  ends with the whole feed. A connection without failures: no write fails, no storage call fails.
\<close>

abbreviation reliable :: "nat \<Rightarrow> write_fault \<times> write_fault" where
  "reliable \<equiv> \<lambda>_. (None, None)"

subsection \<open>What is relied on of the libraries\<close>

definition zlib_ok :: "sync_env \<Rightarrow> bool" where
  "zlib_ok E \<longleftrightarrow> (\<forall>x. \<exists>y. zlib_compress E x = Inr y \<and> zlib_decompress E y = Inr x)"

text \<open>
  The signature that the server sends with block \<open>i\<close>: the one that its repository stores for the block, or
  one that it makes itself if it has no repository or the repository does not have the block.
\<close>

definition offered :: "sync_env \<Rightarrow> 'r session \<Rightarrow> nat \<Rightarrow> bytes" where
  "offered E s i = (case load_for_sending E s (of_nat i) of None \<Rightarrow> [] | Some (_, sg) \<Rightarrow> sg)"

text \<open>The server sends the blocks of its log, and their signatures verify with the key \<open>pub\<close>.\<close>

definition offers :: "sync_env \<Rightarrow> 'r session \<Rightarrow> bool" where
  "offers E s \<longleftrightarrow> (\<forall>i < length (blocks_of (ss_storage s)).
     \<exists>sg. load_for_sending E s (of_nat i) = Some (blocks_of (ss_storage s) ! i, sg))"

definition key_pair :: "sync_env \<Rightarrow> 'r session \<Rightarrow> bytes \<Rightarrow> bool" where
  "key_pair E s pub \<longleftrightarrow> (\<forall>i < length (blocks_of (ss_storage s)).
     VerifySignature E pub (root_or_zero E (take (Suc i) (blocks_of (ss_storage s)))) (offered E s i))"

subsection \<open>Serving\<close>

text \<open>The Data message a session sends for its block \<open>i\<close>.\<close>

definition served :: "sync_env \<Rightarrow> 'r session \<Rightarrow> nat \<Rightarrow> bytes" where
  "served E s i =
     [5] @ put_u64 (of_nat i) @ write_bytes (value_to_send E s (blocks_of (ss_storage s) ! i))
     @ write_bytes (offered E s i)"

lemma load_for_sending_wire [simp]:
  "load_for_sending E (s\<lparr>ss_out := x\<rparr>) = load_for_sending E s"
  "load_for_sending E (s\<lparr>ss_deflate := b\<rparr>) = load_for_sending E s"
  by (simp_all add: fun_eq_iff load_for_sending_def cong: option.case_cong sum.case_cong)

lemma offers_wire [simp]:
  "offers E (s\<lparr>ss_out := x\<rparr>) = offers E s" "offers E (s\<lparr>ss_deflate := b\<rparr>) = offers E s"
  "offered E (s\<lparr>ss_out := x\<rparr>) = offered E s" "offered E (s\<lparr>ss_deflate := b\<rparr>) = offered E s"
  by (simp_all add: fun_eq_iff offers_def offered_def)

lemma value_to_send_out [simp]: "value_to_send E (s\<lparr>ss_out := x\<rparr>) v = value_to_send E s v"
  by (simp add: value_to_send_def cong: if_cong)

lemma served_out [simp]: "served E (s\<lparr>ss_out := x\<rparr>) = served E s"
  by (simp add: fun_eq_iff served_def)

lemma nth_blocks_lt: "storage_inv st \<Longrightarrow> n \<le> length (blocks_of st) \<Longrightarrow> n < 2 ^ 64"
  by (auto elim!: storage_invE simp: blocks_of_def)

lemma unat_of_nat_index:
  "storage_inv st \<Longrightarrow> n \<le> length (blocks_of st) \<Longrightarrow> unat (of_nat n :: u64) = n"
  using nth_blocks_lt [of st n] by (simp add: unat_of_nat)

lemma block_or_nil_in:
  "storage_inv st \<Longrightarrow> i < length (blocks_of st) \<Longrightarrow> block_or_nil st (of_nat i) = blocks_of st ! i"
  by (simp add: block_or_nil_def hc_log.get_in unat_of_nat_index)

lemma leaves_prefix:
  assumes "storage_inv st" "n \<le> length (blocks_of st)"
  shows "map (\<lambda>i. block_or_nil st (of_nat i)) [0..<n] = take n (blocks_of st)"
  using assms by (intro nth_equalityI) (simp_all add: block_or_nil_in)

lemma sendBlockData_served:
  assumes "offers E s" "ss_writes_left s = None" "i < length (blocks_of (ss_storage s))"
  shows "sendBlockData E s (of_nat i) = (s\<lparr>ss_out := ss_out s @ frame (served E s i)\<rparr>, None)"
  using assms by (auto simp: sendBlockData_def offers_def offered_def EncodeData_def served_def)

text \<open>A session that signs itself: no repository, or one that has none of the blocks.\<close>

lemma offers_own_signature:
  assumes "storage_inv (ss_storage s)" "i < length (blocks_of (ss_storage s))"
    and "case ss_repo s of None \<Rightarrow> True | Some (R, r) \<Rightarrow> isl (GetBlock R r (ss_feedKey s) (of_nat i))"
  shows "load_for_sending E s (of_nat i) = Some (blocks_of (ss_storage s) ! i,
    SignRootHash E (ss_localPriv s) (root_or_zero E (take (Suc i) (blocks_of (ss_storage s)))))"
  using assms leaves_prefix [OF assms(1), of "Suc i"]
  by (auto simp: load_for_sending_def hc_log.get_in unat_of_nat_index Let_def split: option.splits sum.splits)

lemma offers_without_repo:
  assumes "storage_inv (ss_storage s)" "ss_repo s = None"
  shows "offers E s"
    and "i < length (blocks_of (ss_storage s)) \<Longrightarrow> offered E s i =
      SignRootHash E (ss_localPriv s) (root_or_zero E (take (Suc i) (blocks_of (ss_storage s))))"
  using offers_own_signature [OF assms(1)] assms(2) by (auto simp: offers_def offered_def)

text \<open>A session whose repository has all blocks sends the stored signatures.\<close>

lemma offers_stored_signature:
  assumes "ss_repo s = Some (R, r)" "GetBlock R r (ss_feedKey s) (of_nat i) = Inr (v, sg)"
  shows "load_for_sending E s (of_nat i) = Some (v, sg)"
  using assms by (simp add: load_for_sending_def)

text \<open>A loop each of whose iterations writes something.\<close>

lemma for_each_out:
  assumes "\<And>i x. i \<in> set is \<Longrightarrow> body i (s\<lparr>ss_out := x\<rparr>) = (s\<lparr>ss_out := x @ g i\<rparr>, None)"
  shows "for_each body is s = (s\<lparr>ss_out := ss_out s @ concat (map g is)\<rparr>, None)"
proof -
  have "for_each body is (s\<lparr>ss_out := x\<rparr>) = (s\<lparr>ss_out := x @ concat (map g is)\<rparr>, None)" for x
    using assms by (induction "is" arbitrary: x) simp_all
  from this [of "ss_out s"] show ?thesis by simp
qed

definition request_payload :: "nat \<Rightarrow> bytes" where
  "request_payload i = 4 # put_u64 (of_nat i)"

lemma request_loop:
  "ss_writes_left s = None \<Longrightarrow> for_each send_request is s =
     (s\<lparr>ss_out := ss_out s @ concat (map (frame \<circ> request_payload) is)\<rparr>, None)"
  by (rule for_each_out) (simp add: send_request_def EncodeRequest_def request_payload_def)

lemma serve_loop:
  assumes "offers E s" "ss_writes_left s = None"
    and "\<forall>i \<in> set is. i < length (blocks_of (ss_storage s))"
  shows "for_each (\<lambda>i s. sendBlockData E s (of_nat i)) is s =
     (s\<lparr>ss_out := ss_out s @ concat (map (frame \<circ> served E s) is)\<rparr>, None)"
  using assms by (intro for_each_out) (simp add: sendBlockData_served)

text \<open>A stream of requests for blocks that exist is answered in order.\<close>

lemma serve_requests:
  assumes "offers E s" "ss_writes_left s = None"
    and "\<forall>i \<in> set is. i < length (blocks_of (ss_storage s))"
  shows "readLoop E reliable s (concat (map (frame \<circ> request_payload) is) @ r) =
     readLoop E reliable (s\<lparr>ss_out := ss_out s @ concat (map (frame \<circ> served E s) is)\<rparr>) r"
proof -
  have "readLoop E reliable (s\<lparr>ss_out := x\<rparr>) (concat (map (frame \<circ> request_payload) is) @ r) =
     readLoop E reliable (s\<lparr>ss_out := x @ concat (map (frame \<circ> served E s) is)\<rparr>) r" for x
    using assms(3)
  proof (induction "is" arbitrary: x)
    case Nil
    then show ?case by simp
  next
    case (Cons i "is")
    have "handle_frame E None None (s\<lparr>ss_out := x\<rparr>) (request_payload i) =
        (s\<lparr>ss_out := x @ frame (served E s i)\<rparr>, None)"
      using assms Cons.prems
      by (simp add: handle_frame_def request_payload_def handle_request_def DecodeRequest_def
          sendBlockData_served)
    moreover have "length (request_payload i) \<le> MaxMessageSize"
      by (simp add: request_payload_def MaxMessageSize_def)
    ultimately show ?case using Cons by (simp add: readLoop_frame)
  qed
  from this [of "ss_out s"] show ?thesis by simp
qed

subsection \<open>Receiving\<close>

lemma received_sent:
  assumes "zlib_ok E" "ss_deflate c = ss_deflate s"
  shows "received_value E c (value_to_send E s v) = Inr v"
proof -
  from assms(1) obtain y where "zlib_compress E v = Inr y" "zlib_decompress E y = Inr v"
    by (auto simp: zlib_ok_def)
  with assms(2) show ?thesis
    by (simp add: received_value_def value_to_send_def CompressBlock_def DecompressBlock_def)
qed

lemma decode_served:
  assumes "length (served E s i) \<le> MaxMessageSize"
  shows "DecodeData (served E s i) = Inr \<lparr>data_index = of_nat i,
     data_value = value_to_send E s (blocks_of (ss_storage s) ! i),
     data_signature = offered E s i\<rparr>"
proof -
  have "fits (value_to_send E s (blocks_of (ss_storage s) ! i))"
    "fits (offered E s i)"
    using assms by (simp_all add: served_def fits_def write_bytes_def)
  then show ?thesis
    by (simp add: DecodeData_def served_def)
qed

text \<open>What receiving leaves alone.\<close>

definition same_wire :: "'r session \<Rightarrow> 'r session \<Rightarrow> bool" where
  "same_wire c c' \<longleftrightarrow> ss_out c' = ss_out c \<and> ss_writes_left c' = ss_writes_left c \<and>
     ss_deflate c' = ss_deflate c \<and> ss_remotePub c' = ss_remotePub c"

lemma same_wire_refl [simp]: "same_wire c c" by (simp add: same_wire_def)

lemma same_wire_trans: "same_wire a b \<Longrightarrow> same_wire b c \<Longrightarrow> same_wire a c"
  by (simp add: same_wire_def)

text \<open>The client \<open>c\<close> can take blocks from the server \<open>s\<close>; it holds the first \<open>k\<close> of them.\<close>

definition following :: "sync_env \<Rightarrow> 'r session \<Rightarrow> 's session \<Rightarrow> nat \<Rightarrow> bool" where
  "following E s c k \<longleftrightarrow>
     zlib_ok E \<and> key_pair E s (ss_remotePub c) \<and> ss_deflate c = ss_deflate s \<and>
     storage_inv (ss_storage s) \<and> storage_inv (ss_storage c) \<and>
     k \<le> length (blocks_of (ss_storage s)) \<and>
     blocks_of (ss_storage c) = take k (blocks_of (ss_storage s)) \<and>
     storage_room_all (ss_storage c) (drop k (blocks_of (ss_storage s))) \<and>
     (\<forall>i < length (blocks_of (ss_storage s)). length (served E s i) \<le> MaxMessageSize)"

lemma storage_room_all_ConsD:
  assumes "storage_inv st" "storage_room_all st (b # bs)"
  shows "storage_room st b" "storage_room_all (fst (storage_append None None st b)) bs"
  using assms by (simp_all add: storage_room_def storage_room_all_def append_sizes)

lemma handle_served_frame:
  assumes "length (served E s i) \<le> MaxMessageSize"
  shows "handle_frame E None None c (served E s i) = handle_data E None None c (served E s i)"
  by (simp add: handle_frame_def served_def Let_def)

lemma take_next:
  assumes "following E s c k" "k < length (blocks_of (ss_storage s))"
  obtains c' where "handle_frame E None None c (served E s k) = (c', None)" "following E s c' (Suc k)"
    "same_wire c c'" "ss_appended c' = ss_appended c @ [(of_nat k, blocks_of (ss_storage s) ! k)]"
proof -
  let ?feed = "blocks_of (ss_storage s)" and ?st = "ss_storage c"
  from assms(1) have f: "zlib_ok E" "key_pair E s (ss_remotePub c)"
      "ss_deflate c = ss_deflate s" "storage_inv ?st" "blocks_of ?st = take k ?feed"
      "length (served E s k) \<le> MaxMessageSize" and inv: "storage_inv (ss_storage s)"
    using assms(2) by (simp_all add: following_def)
  from assms have "storage_room_all ?st (?feed ! k # drop (Suc k) ?feed)"
    by (simp add: following_def Cons_nth_drop_Suc)
  note room = storage_room_all_ConsD [OF f(4) this]
  obtain st' where st': "storage_append None None ?st (?feed ! k) = (st', None)"
    and post: "storage_inv st'" "blocks_of st' = take (Suc k) ?feed"
    using hc_log.append_ok [OF f(4) room(1)] hc_log.inv_append [OF f(4) room(1)]
      hc_log.blocks_append [OF f(4) room(1)] f(5) assms(2)
    by (cases "storage_append None None ?st (?feed ! k)") (auto simp: take_Suc_conv_app_nth)
  have len: "storage_len ?st = of_nat k"
    using storage_len_of_nat [OF f(4)] assms(2) f(5) by simp
  obtain root where root: "ComputeRootHash (blake2b E) (take k ?feed @ [?feed ! k]) = Inr root"
    using root_exists by blast
  then have sig: "root_or_zero E (take (Suc k) ?feed) = root"
    using assms(2) by (simp add: root_or_zero_def take_Suc_conv_app_nth)
  with f(2) assms(2) have key_pair_at:
    "VerifySignature E (ss_remotePub c) root (offered E s k)"
    by (auto simp: key_pair_def)
  define c' where "c' = fst (handle_data E None None c (served E s k))"
  have hd: "handle_data E None None c (served E s k) = (c', None)"
    and c': "ss_storage c' = st'" "same_wire c c'"
      "ss_appended c' = ss_appended c @ [(of_nat k, ?feed ! k)]"
    unfolding c'_def handle_data_def decode_served [OF f(6)] Let_def
    using received_sent [OF f(1,3)] load_all_blocks [OF f(4)] f(2,5) len root sig st'
      key_pair_at
    by (simp_all add: same_wire_def)
  moreover have "following E s c' (Suc k)"
    using assms post room(2) c' st' by (auto simp: following_def same_wire_def)
  ultimately show thesis
    using that [of c'] by (simp add: handle_served_frame [OF f(6)])
qed

lemma skip_known:
  assumes "following E s c k" "i < k"
  shows "handle_frame E None None c (served E s i) = (c, None)"
proof -
  from assms have f: "zlib_ok E" "ss_deflate c = ss_deflate s" "storage_inv (ss_storage c)"
      "length (served E s i) \<le> MaxMessageSize" "unat (storage_len (ss_storage c)) = k"
      "k \<le> length (blocks_of (ss_storage s))"  "storage_inv (ss_storage s)"
    by (auto simp: following_def hc_log.len_blocks)
  have "unat (of_nat i :: u64) = i" using assms(2) f(6) unat_of_nat_index [OF f(7), of i] by simp
  then have "of_nat i \<noteq> storage_len (ss_storage c)" using f(5) assms(2) by auto
  then show ?thesis
    using received_sent [OF f(1,2)]
    by (simp add: handle_served_frame [OF f(4)] handle_data_def decode_served [OF f(4)] Let_def)
qed

lemma following_frame: "following E s c k \<Longrightarrow> i < length (blocks_of (ss_storage s)) \<Longrightarrow>
    length (served E s i) \<le> MaxMessageSize"
  by (simp add: following_def)

text \<open>A run of data frames: blocks already there are skipped, the next ones are appended.\<close>

lemma take_run:
  assumes "following E s c k" "k \<le> n" "n \<le> length (blocks_of (ss_storage s))"
  shows "\<exists>c'. readLoop E reliable c (concat (map (frame \<circ> served E s) [k..<n]) @ r) =
      readLoop E reliable c' r \<and> following E s c' n \<and> same_wire c c' \<and>
      ss_appended c' = ss_appended c @ notices k (take (n - k) (drop k (blocks_of (ss_storage s))))"
  using assms
proof (induction "n - k" arbitrary: k c)
  case 0
  then show ?case by (auto intro!: exI [of _ c])
next
  case (Suc d)
  let ?feed = "blocks_of (ss_storage s)"
  from Suc.hyps(2) have k: "k < n" and d: "d = n - Suc k" by simp_all
  with Suc.prems have kf: "k < length ?feed" by simp
  from take_next [OF Suc.prems(1) kf] obtain c1 where c1:
    "handle_frame E None None c (served E s k) = (c1, None)" "following E s c1 (Suc k)"
    "same_wire c c1" "ss_appended c1 = ss_appended c @ [(of_nat k, ?feed ! k)]" .
  from Suc.hyps(1) [of "Suc k" c1] d Suc.prems k c1(2) obtain c' where c':
    "readLoop E reliable c1 (concat (map (frame \<circ> served E s) [Suc k..<n]) @ r) = readLoop E reliable c' r"
    "following E s c' n" "same_wire c1 c'"
    "ss_appended c' = ss_appended c1 @ notices (Suc k) (take (n - Suc k) (drop (Suc k) ?feed))"
    by auto
  have "take (n - k) (drop k ?feed) = ?feed ! k # take (n - Suc k) (drop (Suc k) ?feed)"
    using k kf by (simp add: take_Cons' flip: Cons_nth_drop_Suc)
  then show ?case
    using c1 c' k following_frame [OF Suc.prems(1) kf]
    by (auto simp: upt_conv_Cons readLoop_frame intro!: exI [of _ c'] intro: same_wire_trans)
qed

lemma skip_run:
  assumes "following E s c k" "\<forall>i \<in> set is. i < k"
  shows "readLoop E reliable c (concat (map (frame \<circ> served E s) is) @ r) = readLoop E reliable c r"
  using assms(2)
proof (induction "is")
  case (Cons i "is")
  then have "i < k" "k \<le> length (blocks_of (ss_storage s))"
    using assms(1) by (auto simp: following_def)
  then show ?case
    using Cons skip_known [OF assms(1), of i] following_frame [OF assms(1), of i]
    by (simp add: readLoop_frame)
qed simp


subsection \<open>The handshake\<close>

definition hello :: "string \<Rightarrow> bytes" where
  "hello key = [0] @ write_string ''hypercore/v10'' @ write_bytes (bytes_of_string key)
     @ put_u32 1 @ write_string ''deflate''"

lemma decode_hello:
  assumes "length key + 37 \<le> MaxMessageSize"
  shows "DecodeHandshake (hello key) = Inr \<lparr>hs_protocol = ''hypercore/v10'',
     hs_key = bytes_of_string key, hs_extensions = [''deflate'']\<rparr>" "length (hello key) \<le> MaxMessageSize"
proof -
  have "fits ''hypercore/v10''" "fits ''deflate''" by (simp_all add: fits_def MaxMessageSize_def)
  moreover from assms have "fits (bytes_of_string key)" by (simp add: fits_def)
  moreover note read_write_strings [of "[''deflate'']" "[]"]
  ultimately show "DecodeHandshake (hello key) = Inr \<lparr>hs_protocol = ''hypercore/v10'',
      hs_key = bytes_of_string key, hs_extensions = [''deflate'']\<rparr>"
    by (simp add: DecodeHandshake_def hello_def)
  from assms show "length (hello key) \<le> MaxMessageSize"
    by (simp add: hello_def write_string_def write_bytes_def)
qed

definition have_payload :: "u64 \<Rightarrow> bytes" where
  "have_payload n = 2 # put_u64 0 @ put_u64 n"

definition want_payload :: "u64 \<Rightarrow> bytes" where
  "want_payload n = 3 # put_u64 n @ put_u64 1000000"

lemma payload_sizes [simp]:
  "length (have_payload n) \<le> MaxMessageSize" "length (want_payload n) \<le> MaxMessageSize"
  by (simp_all add: have_payload_def want_payload_def MaxMessageSize_def)

lemma run_session_hello:
  assumes "length key + 37 \<le> MaxMessageSize" "ss_writes_left s = None"
  shows "run_session E faults s (frame (hello key) @ r) =
    (let len = storage_len (ss_storage s);
         out = ss_out s @ frame (hello (ss_feedKey s)) @ frame (have_payload len) @ frame (want_payload len)
     in readLoop E faults (s\<lparr>ss_deflate := True, ss_out := out\<rparr>) r)"
  using assms decode_hello [OF assms(1)]
  by (simp add: run_session_def start_session_def EncodeHandshake_def EncodeHave_def EncodeWant_def
      NegotiateExtensions_def Let_def hello_def have_payload_def want_payload_def)

lemma handle_have_payload:
  assumes "ss_writes_left s = None"
  shows "handle_frame E fd fi s (have_payload n) =
    (s\<lparr>ss_out := ss_out s @ concat (map (frame \<circ> request_payload)
        [unat (storage_len (ss_storage s))..<unat n])\<rparr>, None)"
  using assms
  by (auto simp: handle_frame_def have_payload_def handle_have_def DecodeHave_def Let_def
      request_loop word_less_nat_alt)

lemma handle_want_payload:
  assumes "storage_inv (ss_storage s)" "offers E s" "ss_writes_left s = None"
    and "unat k + 1000000 < 2 ^ 64"
  shows "handle_frame E fd fi s (want_payload k) =
    (s\<lparr>ss_out := ss_out s @ concat (map (frame \<circ> served E s)
        [unat k..<min (unat k + 1000000) (length (blocks_of (ss_storage s)))])\<rparr>, None)"
proof -
  have "unat (k + 1000000) = unat k + 1000000"
    using assms(4) by (simp add: unat_word_ariths)
  then show ?thesis
    using assms serve_loop [OF assms(2,3)]
    by (simp add: handle_frame_def want_payload_def handle_want_def DecodeWant_def Let_def
        hc_log.len_blocks)
qed


lemma want_nothing:
  assumes "storage_inv (ss_storage s)" "length (blocks_of (ss_storage s)) \<le> unat k"
  shows "handle_frame E fd fi s (want_payload k) = (s, None)"
  using assms
  by (simp add: handle_frame_def want_payload_def handle_want_def DecodeWant_def Let_def
      hc_log.len_blocks)

subsection \<open>Convergence\<close>

text \<open>
  Two fresh sessions over one feed: the server has the feed, the client a prefix of it and the
  server's public key.
\<close>

definition connected :: "sync_env \<Rightarrow> 'r session \<Rightarrow> 's session \<Rightarrow> bool" where
  "connected E sv cl \<longleftrightarrow>
     ss_out sv = [] \<and> ss_out cl = [] \<and> ss_writes_left sv = None \<and> ss_writes_left cl = None \<and>
     offers E sv \<and>
     length (ss_feedKey sv) + 37 \<le> MaxMessageSize \<and> length (ss_feedKey cl) + 37 \<le> MaxMessageSize \<and>
     length (blocks_of (ss_storage sv)) + 1000000 < 2 ^ 64 \<and>
     blocks_of (ss_storage cl) =
       take (length (blocks_of (ss_storage cl))) (blocks_of (ss_storage sv)) \<and>
     following E (sv\<lparr>ss_deflate := True\<rparr>) (cl\<lparr>ss_deflate := True\<rparr>) (length (blocks_of (ss_storage cl)))"

lemma following_out [simp]:
  "following E (s\<lparr>ss_out := x\<rparr>) c k = following E s c k"
  "following E s (c\<lparr>ss_out := x\<rparr>) k = following E s c k"
  by (simp_all add: following_def key_pair_def)

lemma notices_append:
  "notices n (a @ b) = notices n a @ notices (n + length a) b"
  by (induction a arbitrary: n) simp_all

lemma drop_take_split: "k \<le> m \<Longrightarrow> take (m - k) (drop k xs) @ drop m xs = drop k xs"
  using append_take_drop_id [of "m - k" "drop k xs"] by simp

lemma server_run:
  assumes "connected E sv cl"
  defines "k \<equiv> length (blocks_of (ss_storage cl))" and "n \<equiv> length (blocks_of (ss_storage sv))"
    and "D \<equiv> sv\<lparr>ss_deflate := True\<rparr>"
  shows "\<exists>sv'. run_session E reliable sv (frame (hello (ss_feedKey cl)) @ frame (have_payload (of_nat k))
        @ frame (want_payload (of_nat k)) @ concat (map (frame \<circ> request_payload) [k..<n])) = (sv', None)
    \<and> ss_storage sv' = ss_storage sv
    \<and> ss_out sv' = frame (hello (ss_feedKey sv)) @ frame (have_payload (of_nat n))
        @ frame (want_payload (of_nat n))
        @ concat (map (frame \<circ> served E D) [k..<min (k + 1000000) n])
        @ concat (map (frame \<circ> served E D) [k..<n])"
proof -
  from assms(1) have c: "storage_inv (ss_storage sv)" "offers E sv" "ss_writes_left sv = None"
      "ss_out sv = []" "length (ss_feedKey cl) + 37 \<le> MaxMessageSize" "n + 1000000 < 2 ^ 64" "k \<le> n"
    by (simp_all add: connected_def following_def n_def k_def)
  then have u: "unat (of_nat k :: u64) = k" "unat (of_nat n :: u64) = n"
    by (simp_all add: unat_of_nat)
  have len: "storage_len (ss_storage sv) = of_nat n"
    using storage_len_of_nat [OF c(1)] by (simp add: n_def)
  note want = handle_want_payload [where s = "sv\<lparr>ss_deflate := True, ss_out := x\<rparr>" and k = "of_nat k" and E = E for x]
  note requests = serve_requests [where s = "sv\<lparr>ss_deflate := True, ss_out := x\<rparr>" and E = E and r = "[]" and ?is = "[k..<n]" for x]
  show ?thesis
    using c u len requests
    by (simp add: run_session_hello Let_def readLoop_frame handle_have_payload want n_def D_def)
qed

lemma client_run:
  assumes "connected E sv cl"
  defines "k \<equiv> length (blocks_of (ss_storage cl))" and "n \<equiv> length (blocks_of (ss_storage sv))"
    and "D \<equiv> sv\<lparr>ss_deflate := True\<rparr>"
  shows "\<exists>cl'. run_session E reliable cl (frame (hello (ss_feedKey sv)) @ frame (have_payload (of_nat n))
        @ frame (want_payload (of_nat n))
        @ concat (map (frame \<circ> served E D) [k..<min (k + 1000000) n])
        @ concat (map (frame \<circ> served E D) [k..<n])) = (cl', None)
    \<and> storage_inv (ss_storage cl') \<and> blocks_of (ss_storage cl') = blocks_of (ss_storage sv)
    \<and> ss_appended cl' = ss_appended cl @ notices k (drop k (blocks_of (ss_storage sv)))
    \<and> ss_out cl' = frame (hello (ss_feedKey cl)) @ frame (have_payload (of_nat k))
        @ frame (want_payload (of_nat k)) @ concat (map (frame \<circ> request_payload) [k..<n])"
proof -
  let ?F = "blocks_of (ss_storage sv)" and ?data = "\<lambda>is. concat (map (frame \<circ> served E D) is)"
  define m where "m = min (k + 1000000) n"
  from assms(1) have c: "storage_inv (ss_storage cl)" "ss_writes_left cl = None" "ss_out cl = []"
      "length (ss_feedKey sv) + 37 \<le> MaxMessageSize" "n + 1000000 < 2 ^ 64" "k \<le> n"
      "following E D (cl\<lparr>ss_deflate := True\<rparr>) k"
    by (simp_all add: connected_def following_def n_def k_def D_def)
  then have m: "k \<le> m" "m \<le> n" "n = length (blocks_of (ss_storage D))" "blocks_of (ss_storage D) = ?F"
    by (simp_all add: m_def n_def D_def)
  from c have u: "unat (of_nat n :: u64) = n" "unat (of_nat k :: u64) = k"
    by (simp_all add: unat_of_nat)
  have len: "storage_len (ss_storage cl) = of_nat k"
    using storage_len_of_nat [OF c(1)] by (simp add: k_def)
  define out where "out = frame (hello (ss_feedKey cl)) @ frame (have_payload (of_nat k))
        @ frame (want_payload (of_nat k)) @ concat (map (frame \<circ> request_payload) [k..<n])"
  define c0 where "c0 = cl\<lparr>ss_deflate := True, ss_out := out\<rparr>"
  have start: "run_session E reliable cl (frame (hello (ss_feedKey sv)) @ frame (have_payload (of_nat n))
      @ frame (want_payload (of_nat n)) @ r) = readLoop E reliable c0 r" for r
    using c u len want_nothing [of c0 "of_nat n" E None None]
    by (simp add: run_session_hello Let_def readLoop_frame handle_have_payload c0_def out_def k_def)
  have "following E D c0 k" using c(7) by (simp add: c0_def)
  from take_run [OF this m(1)] m obtain c1 where c1:
    "readLoop E reliable c0 (?data [k..<m] @ ?data [k..<n]) = readLoop E reliable c1 (?data [k..<n])"
    "following E D c1 m" "same_wire c0 c1"
    "ss_appended c1 = ss_appended c0 @ notices k (take (m - k) (drop k ?F))"
    by metis
  have split: "[k..<n] = [k..<m] @ [m..<n]" using m upt_add_eq_append [OF m(1), of "n - m"] by simp
  have skip: "readLoop E reliable c1 (?data [k..<n]) = readLoop E reliable c1 (?data [m..<n] @ [])"
    using skip_run [OF c1(2), of "[k..<m]" "?data [m..<n]"] by (simp add: split)
  from take_run [OF c1(2) m(2), of "[]"] m obtain c2 where c2:
    "readLoop E reliable c1 (?data [m..<n] @ []) = (c2, None)"
    "following E D c2 n" "same_wire c1 c2"
    "ss_appended c2 = ss_appended c1 @ notices m (take (n - m) (drop m ?F))"
    by auto
  have "storage_inv (ss_storage c2)" "blocks_of (ss_storage c2) = ?F"
    using c2(2) m by (simp_all add: following_def)
  moreover have "ss_appended c2 = ss_appended cl @ notices k (drop k ?F)"
    using notices_append [of k "take (m - k) (drop k ?F)" "drop m ?F"] m c1(4) c2(4)
    by (simp add: c0_def drop_take_split [OF m(1)])
  moreover have "ss_out c2 = out" using c1(3) c2(3) by (simp add: same_wire_def c0_def)
  ultimately show ?thesis
    using start [of "?data [k..<m] @ ?data [k..<n]"] c1(1) skip c2(1)
    by (simp add: out_def m_def)
qed


subsection \<open>A concrete pair of sessions\<close>

text \<open>
  Library parameters for concrete runs: the digest of \<open>Hyper_Merkle\<close>, a codec that stores its input,
  and signatures that hold up to 64 bytes of the signed root, verified by \<open>ok\<close> on the root.
\<close>

definition toy_env :: "(hash \<Rightarrow> bool) \<Rightarrow> sync_env" where
  "toy_env ok = \<lparr>blake2b = toy_hash, ed_sign = (\<lambda>_ m. take 64 m),
     ed_verify = (\<lambda>_ m sig. sig = take 64 m \<and> ok m), zlib_compress = Inr, zlib_decompress = Inr\<rparr>"

definition one_block :: storage where
  "one_block = storage_append_all empty_storage [[1]]"

definition toy_server :: "unit session" where
  "toy_server = NewSyncSession one_block None ''feed'' [] []"

definition toy_client :: "unit session" where
  "toy_client = NewSyncSession empty_storage None ''feed'' [] []"

lemma empty_room: "storage_room_all empty_storage [[1]]"
  by (simp add: storage_room_all_def empty_storage_def max_alloc_def)

lemma blocks_empty: "blocks_of empty_storage = []"
  by (simp add: blocks_of_def empty_storage_def)

lemma one_block: "storage_inv one_block" "blocks_of one_block = [[1]]"
  using append_all_inv [OF empty_storage_inv empty_room] by (simp_all add: one_block_def blocks_empty)

lemma toy_offers: "offers (toy_env ok) toy_server"
  "offered (toy_env ok) (toy_server\<lparr>ss_deflate := True\<rparr>) 0 = SignRootHash (toy_env ok) [] (root_or_zero (toy_env ok) [[1]])"
proof -
  have s: "storage_inv (ss_storage toy_server)" "ss_repo toy_server = None" "blocks_of (ss_storage toy_server) = [[1]]"
    "ss_localPriv toy_server = []"
    using one_block by (simp_all add: toy_server_def NewSyncSession_def)
  show "offers (toy_env ok) toy_server" by (rule offers_without_repo [OF s(1,2)])
  show "offered (toy_env ok) (toy_server\<lparr>ss_deflate := True\<rparr>) 0 = SignRootHash (toy_env ok) [] (root_or_zero (toy_env ok) [[1]])"
    using offers_without_repo(2) [OF s(1,2), of 0 "toy_env ok"] s(3,4) by simp
qed

lemma toy_connected:
  assumes "\<And>m. ComputeRootHash toy_hash [[1]] = Inr m \<Longrightarrow> ok m"
  shows "connected (toy_env ok) toy_server toy_client"
proof -
  obtain root where "ComputeRootHash toy_hash [[1]] = Inr root" using root_exists by blast
  with assms have "ok (root_or_zero (toy_env ok) [[1]])"
    by (simp add: root_or_zero_def toy_env_def)
  then show ?thesis
    using one_block empty_storage_inv empty_room toy_offers [of ok]
    by (simp add: connected_def following_def toy_server_def toy_client_def NewSyncSession_def
        MaxMessageSize_def blocks_empty zlib_ok_def key_pair_def toy_env_def served_def
        value_to_send_def write_bytes_def SignRootHash_def VerifySignature_def Let_def)
qed


text \<open>The same exchange, as a run of the client that starts empty and ends with the feed.\<close>

lemma toy_run:
  assumes "\<And>m. ComputeRootHash toy_hash [[1]] = Inr m \<Longrightarrow> ok m"
  obtains stream s' where "run_session (toy_env ok) reliable toy_client stream = (s', None)"
    "storage_inv (ss_storage s')" "blocks_of (ss_storage s') = [[1]]"
proof -
  have "connected (toy_env ok) toy_server toy_client" using assms by (rule toy_connected)
  moreover have "blocks_of (ss_storage toy_server) = [[1]]"
    by (simp add: toy_server_def NewSyncSession_def one_block)
  ultimately show thesis using client_run [of "toy_env ok" toy_server toy_client] that by metis
qed

lemma storage_inv_within_limits: "storage_inv st \<Longrightarrow> within_limits st"
  by (erule storage_invE) (simp add: within_limits_def)

subsection \<open>Only verified blocks, and only the author's\<close>

text \<open>
  C9. Whatever bytes the peer sends, and whichever storage writes fail, a session only appends to
  the log: its old blocks stay, each new block was accepted on a signature of the peer's key over
  the Merkle root of the whole log up to it, in order, and \<open>OnAppendBlock\<close> was called exactly
  once for each of them with its index. (The hypothesis on the limits says that the log still
  fits the 64-bit sizes of its index at the end of the session.)
\<close>

theorem session_appends_only_verified_blocks:
  assumes "storage_inv (ss_storage s)" "run_session E faults s stream = (s', e)"
    and "within_limits (ss_storage s')"
  shows "\<exists>new. blocks_of (ss_storage s') = blocks_of (ss_storage s) @ new \<and>
     verified_chain E (ss_remotePub s) (blocks_of (ss_storage s)) new \<and>
     ss_appended s' = ss_appended s @ notices (length (blocks_of (ss_storage s))) new"
  using run_session_log_extended [OF assms] by (simp add: log_extended_def)

theorem session_appends_only_verified_blocks_witness:
  "\<exists>stream s' new. run_session (toy_env (\<lambda>_. True)) reliable toy_client stream = (s', None) \<and>
     blocks_of (ss_storage s') = [[1]] \<and> verified_chain (toy_env (\<lambda>_. True)) [] [] [[1]] \<and>
     ss_appended s' = [(0, [1])]"
proof -
  obtain stream s' where run: "run_session (toy_env (\<lambda>_. True)) reliable toy_client stream = (s', None)"
    "storage_inv (ss_storage s')" "blocks_of (ss_storage s') = [[1]]" by (rule toy_run [OF TrueI])
  have "storage_inv (ss_storage toy_client)"
    by (simp add: toy_client_def NewSyncSession_def empty_storage_inv)
  from session_appends_only_verified_blocks [OF this run(1) storage_inv_within_limits [OF run(2)]]
    run(1,3) show ?thesis
    by (auto simp: toy_client_def NewSyncSession_def blocks_empty)
qed

text \<open>
  C2. Authenticity of a replica: if the peer's key only ever signed roots of prefixes of the
  author's feed (unforgeability), and the hash function does not collide on the strings hashed
  for the prefixes of the feed and of the replica, then whatever a network attacker puts on the
  stream, a replica that held a prefix of the feed still holds a prefix of the feed afterwards.
\<close>

theorem replica_is_prefix_of_feed:
  assumes "storage_inv (ss_storage s)" "run_session E faults s stream = (s', e)"
    and "within_limits (ss_storage s')"
    and "prefix (blocks_of (ss_storage s)) feed"
    and "\<And>x. length (blake2b E x) = 32"
    and "\<And>root sig. VerifySignature E (ss_remotePub s) root sig \<Longrightarrow>
      \<exists>p. prefix p feed \<and> p \<noteq> [] \<and> ComputeRootHash (blake2b E) p = Inr root"
    and "\<And>p q. prefix p (blocks_of (ss_storage s')) \<Longrightarrow> prefix q feed \<Longrightarrow>
      inj_on (blake2b E) (set (hash_calls (blake2b E) p) \<union> set (hash_calls (blake2b E) q))"
  shows "prefix (blocks_of (ss_storage s')) feed"
proof -
  from run_session_log_extended [OF assms(1-3)] obtain new where
    new: "blocks_of (ss_storage s') = blocks_of (ss_storage s) @ new"
      "verified_chain E (ss_remotePub s) (blocks_of (ss_storage s)) new"
    by (auto simp: log_extended_def)
  show ?thesis
    unfolding new(1)
    by (rule verified_chain_authentic [OF assms(5,6) new(2) assms(4)])
      (use assms(7) new(1) in \<open>auto\<close>)
qed

text \<open>The feed \<open>[[1]]\<close>, whose only signed root is its own.\<close>

definition only_signed :: "hash \<Rightarrow> bool" where
  "only_signed m \<longleftrightarrow> ComputeRootHash toy_hash [[1]] = Inr m"

lemma only_signed_root:
  "VerifySignature (toy_env only_signed) pub root sig \<Longrightarrow>
     \<exists>p. prefix p [[1]] \<and> p \<noteq> [] \<and> ComputeRootHash (blake2b (toy_env only_signed)) p = Inr root"
  by (intro exI [of _ "[[1]]"]) (simp add: toy_env_def VerifySignature_def only_signed_def)

lemma toy_no_collision:
  assumes "prefix p [[1]]" "prefix q [[1]]"
  shows "inj_on (blake2b (toy_env ok)) (set (hash_calls (blake2b (toy_env ok)) p) \<union> set (hash_calls (blake2b (toy_env ok)) q))"
proof -
  from assms have "p = [] \<or> p = [[1]]" "q = [] \<or> q = [[1]]" by (auto simp: prefix_Cons)
  then have "set (hash_calls (blake2b (toy_env ok)) p) \<union> set (hash_calls (blake2b (toy_env ok)) q) \<subseteq> {[0, 1]}"
    by (elim disjE) (simp_all add: hash_calls_def loop_calls.simps)
  then show ?thesis by (rule inj_on_subset [rotated]) simp
qed

theorem replica_is_prefix_of_feed_witness:
  "\<exists>stream s'. run_session (toy_env only_signed) reliable toy_client stream = (s', None) \<and>
     blocks_of (ss_storage s') = [[1]] \<and> prefix (blocks_of (ss_storage s')) [[1]]"
proof -
  obtain stream s' where run: "run_session (toy_env only_signed) reliable toy_client stream = (s', None)"
    "storage_inv (ss_storage s')" "blocks_of (ss_storage s') = [[1]]"
    by (rule toy_run [of only_signed]) (simp_all add: only_signed_def)
  have "prefix (blocks_of (ss_storage s')) [[1]]"
  proof (rule replica_is_prefix_of_feed [OF _ run(1) storage_inv_within_limits [OF run(2)]])
    show "storage_inv (ss_storage toy_client)" "prefix (blocks_of (ss_storage toy_client)) [[1]]"
      by (simp_all add: toy_client_def NewSyncSession_def empty_storage_inv blocks_empty)
    show "length (blake2b (toy_env only_signed) x) = 32" for x
      by (simp add: toy_env_def toy_hash_def)
    show "\<exists>p. prefix p [[1]] \<and> p \<noteq> [] \<and> ComputeRootHash (blake2b (toy_env only_signed)) p = Inr root"
      if "VerifySignature (toy_env only_signed) (ss_remotePub toy_client) root sig" for root sig
      using that by (rule only_signed_root)
    show "inj_on (blake2b (toy_env only_signed))
        (set (hash_calls (blake2b (toy_env only_signed)) p) \<union>
         set (hash_calls (blake2b (toy_env only_signed)) q))"
      if "prefix p (blocks_of (ss_storage s'))" "prefix q [[1]]" for p q
      using that by (intro toy_no_collision) (simp_all add: run(3))
  qed
  with run(1,3) show ?thesis by (intro exI conjI)
qed

subsection \<open>Repository blocks whose signature does not verify\<close>

text \<open>
  A repository entry is sent with the signature stored beside it, whoever made it: an entry
  whose stored signature does not verify under the key the client expects (blocks appended over
  IPC without a signature, replies the gateway signs with its own key in another feed) ends the
  session of every client that asks for it with the verification error, and its log does not
  grow. The server's own fallback, which would sign the block, is not tried.
\<close>

lemma unverifiable_repo_block_ends_session:
  fixes sv :: "'r session" and cl :: "'c session"
  assumes "ss_repo sv = Some (R, r)" "GetBlock R r (ss_feedKey sv) i = Inr (v, sg)"
    and "ss_writes_left sv = None" "zlib_ok E" "ss_deflate cl = ss_deflate sv"
    and "fits (value_to_send E sv v)" "fits sg"
    and "storage_inv (ss_storage cl)" "storage_len (ss_storage cl) = i"
    and "ComputeRootHash (blake2b E) (blocks_of (ss_storage cl) @ [v]) = Inr root"
    and "\<not> VerifySignature E (ss_remotePub cl) root sg"
  shows "\<exists>p. sendBlockData E sv i = (sv\<lparr>ss_out := ss_out sv @ frame p\<rparr>, None) \<and>
    handle_frame E fd fi cl p = (cl, Some (ErrNew ''cryptographic verification failed for block''))"
proof -
  let ?p = "[5] @ put_u64 i @ write_bytes (value_to_send E sv v) @ write_bytes sg"
  have "DecodeData ?p = Inr \<lparr>data_index = i, data_value = value_to_send E sv v, data_signature = sg\<rparr>"
    using assms(6,7) by (simp add: DecodeData_def)
  then have "handle_frame E fd fi cl ?p =
      (cl, Some (ErrNew ''cryptographic verification failed for block''))"
    using assms(8-11) received_sent [OF assms(4,5)] load_all_blocks [OF assms(8)]
    by (simp add: handle_frame_def handle_data_def Let_def)
  moreover have "sendBlockData E sv i = (sv\<lparr>ss_out := ss_out sv @ frame ?p\<rparr>, None)"
    using assms(1-3) by (simp add: sendBlockData_def load_for_sending_def EncodeData_def)
  ultimately show ?thesis by blast
qed

definition unsigned_repo :: "unit block_repo" where
  "unsigned_repo = \<lparr>PutBlock = (\<lambda>r _ _ _ _. (r, None)), GetBlock = (\<lambda>_ _ _. Inr ([7], []))\<rparr>"

end
