(* ===== verification/Go_Net.thy ===== *)
theory Go_Net
  imports Keet_Prelude "HOL-Library.Multiset"
begin

section \<open>What the gateway uses of Go's net, strconv, strings, sort and encoding/hex\<close>

text \<open>
  Host and port strings (\<open>net.SplitHostPort\<close>, \<open>net.JoinHostPort\<close>), decimal numbers
  (\<open>strconv.Itoa\<close>), hexadecimal keys (\<open>encoding/hex\<close>), splitting and trimming of strings, and
  \<open>sort.Slice\<close>. Addresses of packet sources are UDP addresses or opaque strings.
\<close>

subsection \<open>Searching lists\<close>

fun first_index :: "('a \<Rightarrow> bool) \<Rightarrow> 'a list \<Rightarrow> nat option" where
  "first_index P [] = None"
| "first_index P (x # xs) = (if P x then Some 0 else map_option Suc (first_index P xs))"

lemma first_index_None: "first_index P xs = None \<longleftrightarrow> (\<forall>x \<in> set xs. \<not> P x)"
  by (induction xs) auto

lemma first_index_Some:
  "first_index P xs = Some i \<longleftrightarrow> i < length xs \<and> P (xs ! i) \<and> (\<forall>j < i. \<not> P (xs ! j))"
proof (induction xs arbitrary: i)
  case Nil
  then show ?case by simp
next
  case (Cons x xs)
  show ?case
  proof (cases i)
    case 0
    then show ?thesis by (auto simp: Cons.IH)
  next
    case (Suc k)
    then show ?thesis by (auto simp: Cons.IH All_less_Suc2)
  qed
qed

text \<open>The first match splits the list.\<close>

lemma first_index_split:
  assumes "first_index P xs = Some i"
  shows "xs = take i xs @ xs ! i # drop (Suc i) xs" "P (xs ! i)" "\<forall>x \<in> set (take i xs). \<not> P x"
  using assms by (auto simp: first_index_Some id_take_nth_drop in_set_conv_nth)

definition last_index :: "('a \<Rightarrow> bool) \<Rightarrow> 'a list \<Rightarrow> nat option" where
  "last_index P xs = map_option (\<lambda>i. length xs - 1 - i) (first_index P (rev xs))"

lemma last_index_append:
  assumes "P x" "\<forall>y \<in> set ys. \<not> P y"
  shows "last_index P (xs @ x # ys) = Some (length xs)"
proof -
  have "first_index P (rev ys @ x # rev xs) = Some (length ys)"
    using assms by (auto simp: first_index_Some nth_append) (metis nth_mem set_rev length_rev)
  then show ?thesis by (simp add: last_index_def)
qed

subsection \<open>sort.Slice\<close>

text \<open>
  \<open>sort.Slice\<close> permutes the slice so that it is ordered by \<open>less\<close>. It is not stable; where the
  keys are distinct the result does not depend on the algorithm (\<open>sort_slice_unique\<close>).
\<close>

fun insert_less :: "('a \<Rightarrow> 'a \<Rightarrow> bool) \<Rightarrow> 'a \<Rightarrow> 'a list \<Rightarrow> 'a list" where
  "insert_less lt x [] = [x]"
| "insert_less lt x (y # ys) = (if lt y x then y # insert_less lt x ys else x # y # ys)"

definition sort_slice :: "('a \<Rightarrow> 'a \<Rightarrow> bool) \<Rightarrow> 'a list \<Rightarrow> 'a list" where
  "sort_slice lt xs = foldr (insert_less lt) xs []"

lemma insert_less_key: "insert_less (\<lambda>x y. k x < (k y :: 'k::linorder)) x ys = insort_key k x ys"
  by (induction ys) auto

lemma sort_slice_key: "sort_slice (\<lambda>x y. k x < (k y :: 'k::linorder)) xs = sort_key k xs"
  by (simp add: sort_slice_def sort_key_def insert_less_key [abs_def])

lemma set_insert_less: "set (insert_less lt x ys) = insert x (set ys)"
  by (induction ys) auto

lemma sort_slice_cong:
  assumes "\<And>x y. x \<in> set xs \<Longrightarrow> y \<in> set xs \<Longrightarrow> lt x y \<longleftrightarrow> lt' x y"
  shows "sort_slice lt xs = sort_slice lt' xs"
proof -
  have ins: "insert_less lt x ys = insert_less lt' x ys" if "x \<in> set xs" "set ys \<subseteq> set xs" for x ys
    using that by (induction ys) (auto simp: assms)
  have el: "set (foldr (insert_less lt') zs []) = set zs" for zs
    by (induction zs) (simp_all add: set_insert_less)
  have "set zs \<subseteq> set xs \<Longrightarrow> foldr (insert_less lt) zs [] = foldr (insert_less lt') zs []" for zs
    by (induction zs) (simp_all add: ins el)
  then show ?thesis by (simp add: sort_slice_def)
qed

lemma mset_sort_slice [simp]: "mset (sort_slice lt xs) = mset xs"
proof -
  have "mset (insert_less lt x ys) = add_mset x (mset ys)" for x ys
    by (induction ys) auto
  then show ?thesis by (induction xs) (simp_all add: sort_slice_def)
qed

lemma set_sort_slice [simp]: "set (sort_slice lt xs) = set xs"
  by (rule mset_eq_setD) simp

lemma sort_slice_unique:
  assumes "inj_on k (set xs)" "sorted (map k ys)" "mset ys = mset xs"
  shows "ys = sort_slice (\<lambda>x y. k x < (k y :: 'k::linorder)) xs"
  unfolding sort_slice_key
  using assms by (intro sym [OF sort_key_inj_key_eq]) simp_all

subsection \<open>Decimal and hexadecimal strings\<close>

definition digit_char :: "nat \<Rightarrow> char" where
  "digit_char d = char_of (48 + d)"

fun itoa :: "nat \<Rightarrow> string" where
  "itoa n = (if n < 10 then [digit_char n] else itoa (n div 10) @ [digit_char (n mod 10)])"

declare itoa.simps [simp del]

definition is_digit :: "char \<Rightarrow> bool" where
  "is_digit c \<longleftrightarrow> 48 \<le> (of_char c :: nat) \<and> (of_char c :: nat) \<le> 57"

lemma digit_char: "d < 10 \<Longrightarrow> is_digit (digit_char d)"
  by (simp add: is_digit_def digit_char_def)

lemma itoa_digits: "list_all is_digit (itoa n)"
  by (induction n rule: itoa.induct) (subst itoa.simps, auto simp: digit_char)

definition hex_digit :: "char \<Rightarrow> byte option" where
  "hex_digit c = (let n = (of_char c :: nat) in
     if 48 \<le> n \<and> n \<le> 57 then Some (of_nat (n - 48))
     else if 97 \<le> n \<and> n \<le> 102 then Some (of_nat (n - 87))
     else if 65 \<le> n \<and> n \<le> 70 then Some (of_nat (n - 55))
     else None)"

fun hex_DecodeString :: "string \<Rightarrow> bytes result" where
  "hex_DecodeString [] = Inr []"
| "hex_DecodeString [c] = Inl (ErrNew ''hex: odd length or invalid byte'')"
| "hex_DecodeString (c # d # s) =
     (case (hex_digit c, hex_digit d) of
        (Some h, Some l) \<Rightarrow>
          (case hex_DecodeString s of Inl e \<Rightarrow> Inl e | Inr bs \<Rightarrow> Inr ((push_bit 4 h OR l) # bs))
      | _ \<Rightarrow> Inl (ErrNew ''hex: odd length or invalid byte''))"

definition hex_char :: "byte \<Rightarrow> char" where
  "hex_char n = char_of (if unat n < 10 then 48 + unat n else 87 + unat n)"

definition hex_EncodeToString :: "bytes \<Rightarrow> string" where
  "hex_EncodeToString bs = concat (map (\<lambda>b. [hex_char (drop_bit 4 b), hex_char (b AND 15)]) bs)"

lemma hex_digit_char: "unat n < 16 \<Longrightarrow> hex_digit (hex_char n) = Some n"
  by (auto simp: hex_digit_def hex_char_def Let_def)

lemma nibble_less: "unat (drop_bit 4 (b :: byte)) < 16" "unat (b AND 15) < 16"
proof -
  show "unat (drop_bit 4 b) < 16"
    using unat_byte_less [of b] unat_drop_bit_eq [of 4 b]
    by (simp only: drop_bit_eq_div [of 4 "unat b"]) simp
  have "unat (b AND 15) = take_bit 4 (unat b)" unfolding and_15 by (rule unsigned_take_bit_eq)
  then show "unat (b AND 15) < 16" by (simp add: take_bit_eq_mod)
qed

lemma hex_roundtrip: "hex_DecodeString (hex_EncodeToString bs) = Inr bs"
proof (induction bs)
  case Nil
  then show ?case by (simp add: hex_EncodeToString_def)
next
  case (Cons b bs)
  have "push_bit 4 (drop_bit 4 b) OR b AND 15 = b"
    unfolding and_15 by (rule bit_word_eqI) (auto simp: bit_simps)
  with Cons show ?case
    by (simp add: hex_EncodeToString_def hex_digit_char nibble_less)
qed

lemma length_hex [simp]: "length (hex_EncodeToString bs) = 2 * length bs"
  by (induction bs) (simp_all add: hex_EncodeToString_def)

subsection \<open>Splitting and trimming\<close>

text \<open>\<open>strings.Split(s, sep)\<close> for a one-character separator: always at least one part.\<close>

fun split_on :: "char \<Rightarrow> string \<Rightarrow> string list" where
  "split_on sep [] = [[]]"
| "split_on sep (c # s) =
     (if c = sep then [] # split_on sep s
      else (case split_on sep s of [] \<Rightarrow> [[c]] | p # ps \<Rightarrow> (c # p) # ps))"

definition is_space :: "char \<Rightarrow> bool" where
  "is_space c \<longleftrightarrow> (of_char c :: nat) \<in> {9, 10, 11, 12, 13, 32}"

definition trim_space :: "string \<Rightarrow> string" where
  "trim_space s = rev (dropWhile is_space (rev (dropWhile is_space s)))"

subsection \<open>Addresses\<close>

definition JoinHostPort :: "string \<Rightarrow> string \<Rightarrow> string" where
  "JoinHostPort host port =
     (if CHR '':'' \<in> set host then ''['' @ host @ '']:'' @ port else host @ '':'' @ port)"

definition SplitHostPort :: "string \<Rightarrow> (string \<times> string) result" where
  "SplitHostPort hp =
     (case last_index ((=) CHR '':'') hp of
        None \<Rightarrow> Inl (ErrNew ''missing port in address'')
      | Some i \<Rightarrow>
          if hp ! 0 = CHR ''['' then
            (case first_index ((=) CHR '']'') hp of
               None \<Rightarrow> Inl (ErrNew ''missing ']' in address'')
             | Some end \<Rightarrow>
                 if end + 1 = length hp then Inl (ErrNew ''missing port in address'')
                 else if end + 1 \<noteq> i then
                   Inl (ErrNew (if hp ! (end + 1) = CHR '':'' then ''too many colons in address''
                                else ''missing port in address''))
                 else if CHR ''['' \<in> set (drop 1 hp) then Inl (ErrNew ''unexpected '[' in address'')
                 else if CHR '']'' \<in> set (drop (end + 1) hp) then Inl (ErrNew ''unexpected ']' in address'')
                 else Inr (gslice 1 end hp, drop (i + 1) hp))
          else if CHR '':'' \<in> set (take i hp) then Inl (ErrNew ''too many colons in address'')
          else if CHR ''['' \<in> set hp then Inl (ErrNew ''unexpected '[' in address'')
          else if CHR '']'' \<in> set hp then Inl (ErrNew ''unexpected ']' in address'')
          else Inr (take i hp, drop (i + 1) hp))"

text \<open>Hosts and ports that have no delimiter of their own.\<close>

definition plain :: "char set \<Rightarrow> string \<Rightarrow> bool" where
  "plain D s \<longleftrightarrow> set s \<inter> D = {}"

lemma split_join_host_port:
  assumes "plain {CHR ''['', CHR '']''} host" "plain {CHR '':'', CHR ''['', CHR '']''} port"
  shows "SplitHostPort (JoinHostPort host port) = Inr (host, port)"
proof (cases "CHR '':'' \<in> set host")
  case True
  have p: "CHR '':'' \<notin> set port" "CHR ''['' \<notin> set port" "CHR '']'' \<notin> set port"
    "CHR ''['' \<notin> set host" "CHR '']'' \<notin> set host"
    using assms by (auto simp: plain_def)
  let ?hp = "(''['' @ host @ '']'') @ CHR '':'' # port"
  have "last_index ((=) CHR '':'') ?hp = Some (length host + 2)"
    using last_index_append [of "(=) CHR '':''" "CHR '':''" port "''['' @ host @ '']''"] p by auto
  moreover have "first_index ((=) CHR '']'') ?hp = Some (length host + 1)"
    using p by (auto simp: first_index_Some nth_append nth_Cons' split: if_splits)
  ultimately show ?thesis
    using True p by (simp add: SplitHostPort_def JoinHostPort_def gslice_def)
next
  case False
  have p: "CHR '':'' \<notin> set port" "CHR ''['' \<notin> set port" "CHR '']'' \<notin> set port"
    "CHR ''['' \<notin> set host" "CHR '']'' \<notin> set host"
    using assms by (auto simp: plain_def)
  have "last_index ((=) CHR '':'') (host @ CHR '':'' # port) = Some (length host)"
    using last_index_append [of "(=) CHR '':''" "CHR '':''" port host] p by auto
  moreover have "(host @ CHR '':'' # port) ! 0 \<noteq> CHR ''[''"
    using p by (cases host) auto
  ultimately show ?thesis
    using False p by (simp add: SplitHostPort_def JoinHostPort_def)
qed

lemma itoa_plain: "plain {CHR '':'', CHR ''['', CHR '']''} (itoa n)"
  using itoa_digits [of n] by (auto simp: plain_def list_all_iff is_digit_def)

datatype net_addr =
    UDPAddr string nat
  | OtherAddr string

text \<open>\<open>src.String()\<close>; a UDP address holds the text of its IP.\<close>

fun addr_String :: "net_addr \<Rightarrow> string" where
  "addr_String (UDPAddr ip port) = JoinHostPort ip (itoa port)"
| "addr_String (OtherAddr s) = s"

end
