(* ===== verification/Dht_Routing.thy ===== *)
theory Dht_Routing
  imports Go_Net
begin

section \<open>Kademlia routing table (pkg/dht/routing.go)\<close>

text \<open>
  256 buckets of contacts, indexed by the length of the bit prefix a contact's ID shares with the
  local ID. An ID is a \<open>[32]byte\<close>: a byte list of length 32. The mutex makes each operation atomic.
\<close>

type_synonym node_id = bytes

record contact =
  c_ID :: node_id
  c_Addr :: string

record routing_table =
  rt_localID :: node_id
  rt_buckets :: "contact list list"

definition zero_id :: node_id where "zero_id = replicate 32 0"

definition NewRoutingTable :: "node_id \<Rightarrow> routing_table" where
  "NewRoutingTable localID = \<lparr>rt_localID = localID, rt_buckets = replicate 256 []\<rparr>"

subsection \<open>Distances\<close>

text \<open>The loop over the bits \<open>b - 1, \<dots>, 0\<close> of a byte, up to the first one that is set.\<close>

fun cpl_bits :: "nat \<Rightarrow> byte \<Rightarrow> nat" where
  "cpl_bits 0 x = 0"
| "cpl_bits (Suc b) x = (if bit x b then 0 else Suc (cpl_bits b x))"

fun cpl_bytes :: "bytes \<Rightarrow> bytes \<Rightarrow> nat" where
  "cpl_bytes (x # xs) (y # ys) = (if x XOR y = 0 then 8 + cpl_bytes xs ys else cpl_bits 8 (x XOR y))"
| "cpl_bytes _ _ = 0"

definition commonPrefixLength :: "node_id \<Rightarrow> node_id \<Rightarrow> nat" where
  "commonPrefixLength id1 id2 = (let cpl = cpl_bytes id1 id2 in if 255 < cpl then 255 else cpl)"

definition xorDistance :: "node_id \<Rightarrow> node_id \<Rightarrow> node_id" where
  "xorDistance id1 id2 = map2 (XOR) id1 id2"

fun compareDistance :: "node_id \<Rightarrow> node_id \<Rightarrow> int" where
  "compareDistance (x # xs) (y # ys) =
     (if x < y then -1 else if y < x then 1 else compareDistance xs ys)"
| "compareDistance _ _ = 0"

subsection \<open>Adding and finding contacts\<close>

text \<open>
  The new content of the contact's bucket: a known contact moves to the end with its new address,
  if there is one; a new contact goes to the end, and a full bucket loses its first contact.
\<close>

definition refresh_bucket :: "contact \<Rightarrow> contact list \<Rightarrow> contact list" where
  "refresh_bucket c bucket =
     (case first_index (\<lambda>e. c_ID e = c_ID c) bucket of
        Some i \<Rightarrow>
          let updated = (if c_Addr c \<noteq> [] then (bucket ! i)\<lparr>c_Addr := c_Addr c\<rparr> else bucket ! i)
          in take i bucket @ drop (Suc i) bucket @ [updated]
      | None \<Rightarrow> (if 20 \<le> length bucket then drop 1 bucket else bucket) @ [c])"

definition AddContact :: "contact \<Rightarrow> routing_table \<Rightarrow> routing_table" where
  "AddContact c rt =
     (if c_ID c = rt_localID rt then rt
      else
        let idx = commonPrefixLength (rt_localID rt) (c_ID c) in
        rt\<lparr>rt_buckets := (rt_buckets rt)[idx := refresh_bucket c (rt_buckets rt ! idx)]\<rparr>)"

definition closer :: "node_id \<Rightarrow> contact \<Rightarrow> contact \<Rightarrow> bool" where
  "closer target a b \<longleftrightarrow>
     compareDistance (xorDistance (c_ID a) target) (xorDistance (c_ID b) target) < 0"

definition all_contacts :: "routing_table \<Rightarrow> contact list" where
  "all_contacts rt = concat (rt_buckets rt)"

definition FindClosestPeers :: "routing_table \<Rightarrow> node_id \<Rightarrow> nat \<Rightarrow> contact list" where
  "FindClosestPeers rt target n =
     (let allContacts = all_contacts rt in
      if allContacts = [] then []
      else
        let results = sort_slice (closer target) allContacts in
        if n < length results then take n results else results)"

subsection \<open>The XOR metric\<close>

text \<open>The number that a byte string denotes, most significant byte first.\<close>

definition id_num :: "bytes \<Rightarrow> nat" where
  "id_num bs = foldl (\<lambda>n b. n * 256 + unat b) 0 bs"

lemma id_num_foldl: "foldl (\<lambda>n b. n * 256 + unat b) a bs = a * 256 ^ length bs + id_num bs"
proof (induction bs arbitrary: a)
  case Nil
  then show ?case by (simp add: id_num_def)
next
  case (Cons b bs)
  have "id_num (b # bs) = unat b * 256 ^ length bs + id_num bs"
    using Cons.IH [of "unat b"] by (simp add: id_num_def)
  with Cons.IH [of "a * 256 + unat b"] show ?case by (simp add: algebra_simps)
qed

lemma id_num_simps [simp]:
  "id_num [] = 0" "id_num (b # bs) = unat b * 256 ^ length bs + id_num bs"
  using id_num_foldl [of "unat b" bs] by (simp_all add: id_num_def)

lemma id_num_less: "id_num bs < 256 ^ length bs"
proof (induction bs)
  case Nil
  then show ?case by simp
next
  case (Cons b bs)
  have "unat b * 256 ^ length bs + id_num bs < (unat b + 1) * 256 ^ length bs"
    using Cons by simp
  also have "\<dots> \<le> 256 * 256 ^ length bs"
    using unat_byte_less [of b] by (intro mult_right_mono) simp_all
  finally show ?case by simp
qed

lemma two_digits_less:
  fixes x y m r s :: nat
  assumes "r < m" "s < m"
  shows "x * m + r < y * m + s \<longleftrightarrow> x < y \<or> x = y \<and> r < s"
proof (cases x y rule: linorder_cases)
  case less
  then have "(x + 1) * m \<le> y * m" by (intro mult_right_mono) simp_all
  with assms less show ?thesis by simp
next
  case greater
  then have "(y + 1) * m \<le> x * m" by (intro mult_right_mono) simp_all
  with assms greater show ?thesis by simp
qed simp

text \<open>\<open>compareDistance\<close> compares the distances as 256-bit numbers.\<close>

lemma compareDistance_num:
  "length xs = length ys \<Longrightarrow>
     (compareDistance xs ys < 0 \<longleftrightarrow> id_num xs < id_num ys) \<and>
     (compareDistance xs ys > 0 \<longleftrightarrow> id_num ys < id_num xs)"
proof (induction xs ys rule: list_induct2)
  case Nil
  then show ?case by simp
next
  case (Cons x xs y ys)
  have s: "id_num (x # xs) < id_num (y # ys) \<longleftrightarrow> x < y \<or> x = y \<and> id_num xs < id_num ys"
    "id_num (y # ys) < id_num (x # xs) \<longleftrightarrow> y < x \<or> x = y \<and> id_num ys < id_num xs"
    using id_num_less [of xs] id_num_less [of ys] Cons.hyps
    by (auto simp: two_digits_less word_less_nat_alt word_unat_eq_iff)
  with Cons.IH show ?case by auto
qed

lemma id_num_inject: "length xs = length ys \<Longrightarrow> id_num xs = id_num ys \<longleftrightarrow> xs = ys"
proof (induction xs ys rule: list_induct2)
  case (Cons x xs y ys)
  have "\<not> id_num (x # xs) < id_num (y # ys) \<and> \<not> id_num (y # ys) < id_num (x # xs) \<longrightarrow> x # xs = y # ys"
    using id_num_less [of xs] id_num_less [of ys] Cons
    by (auto simp: two_digits_less word_less_nat_alt) (metis linorder_neq_iff unsigned_word_eqI)+
  then show ?case by (metis less_irrefl)
qed simp

lemma length_xorDistance [simp]: "length (xorDistance a b) = min (length a) (length b)"
  by (simp add: xorDistance_def)

lemma xor_cancel: "x XOR y = x' XOR y \<longleftrightarrow> x = x'" for x x' y :: byte
  by (metis xor.assoc xor_self_eq xor.right_neutral)

lemma xorDistance_inject:
  "length a = length t \<Longrightarrow> length b = length t \<Longrightarrow> xorDistance a t = xorDistance b t \<longleftrightarrow> a = b"
proof (induction a t arbitrary: b rule: list_induct2)
  case (Cons x a y t)
  then show ?case by (cases b) (auto simp: xorDistance_def xor_cancel)
qed simp

definition dist_num :: "node_id \<Rightarrow> contact \<Rightarrow> nat" where
  "dist_num target c = id_num (xorDistance (c_ID c) target)"

lemma closer_num:
  "length (c_ID a) = length target \<Longrightarrow> length (c_ID b) = length target \<Longrightarrow>
     closer target a b \<longleftrightarrow> dist_num target a < dist_num target b"
  using compareDistance_num [of "xorDistance (c_ID a) target" "xorDistance (c_ID b) target"]
  by (simp add: closer_def dist_num_def)

lemma dist_num_inject:
  "length (c_ID a) = length target \<Longrightarrow> length (c_ID b) = length target \<Longrightarrow>
     dist_num target a = dist_num target b \<longleftrightarrow> c_ID a = c_ID b"
  by (simp add: dist_num_def id_num_inject xorDistance_inject)

text \<open>Bits counted from the top bound the value, so deeper buckets hold closer contacts.\<close>

lemma cpl_bits_le: "cpl_bits n x \<le> n"
  by (induction n) auto

lemma cpl_bits_zero: "n - cpl_bits n x \<le> k \<Longrightarrow> k < n \<Longrightarrow> \<not> bit x k"
  by (induction n) (auto split: if_splits simp: less_Suc_eq)

lemma cpl_bits_one: "cpl_bits n x < n \<Longrightarrow> bit x (n - cpl_bits n x - 1)"
  by (induction n) (auto split: if_splits)

lemma cpl_bits_less:
  assumes "cpl_bits 8 y < cpl_bits 8 (x :: byte)"
  shows "x < y"
proof -
  let ?k = "8 - cpl_bits 8 x"
  have "k < ?k" if "bit x k" "k < 8" for k
    using cpl_bits_zero [of 8 x k] that by (meson not_less)
  then have "take_bit ?k x = x"
    by (intro bit_word_eqI) (auto simp: bit_take_bit_iff)
  then have "unat x < 2 ^ ?k" by (metis take_bit_nat_less_exp unsigned_take_bit_eq)
  moreover have "bit y (8 - cpl_bits 8 y - 1)"
    using assms cpl_bits_le [of 8 x] by (intro cpl_bits_one) simp
  then have "2 ^ (8 - cpl_bits 8 y - 1) \<le> unat y"
    by (rule bit_le_unat)
  moreover have "(2::nat) ^ ?k \<le> 2 ^ (8 - cpl_bits 8 y - 1)"
    using assms by (intro power_increasing) simp_all
  ultimately have "unat x < unat y" by linarith
  then show ?thesis by (simp add: word_less_nat_alt)
qed

lemma cpl_bits_lt8:
  assumes "x \<noteq> 0"
  shows "cpl_bits 8 (x :: byte) < 8"
proof (rule ccontr)
  assume "\<not> cpl_bits 8 x < 8"
  then have "\<not> bit x k" if "k < 8" for k using cpl_bits_zero [of 8 x k] that by simp
  then have "x = 0" by (intro bit_word_eqI) simp
  with assms show False by simp
qed

lemma cpl_bytes_less:
  assumes "length a = length l" "length b = length l" "cpl_bytes l b < cpl_bytes l a"
  shows "id_num (xorDistance a l) < id_num (xorDistance b l)"
  using assms
proof (induction l arbitrary: a b)
  case Nil
  then show ?case by simp
next
  case (Cons x l)
  then obtain y a' z b' where ab: "a = y # a'" "b = z # b'" "length a' = length l" "length b' = length l"
    by (auto simp: length_Suc_conv)
  have lt: "id_num (xorDistance a' l) < 256 ^ length l" "id_num (xorDistance b' l) < 256 ^ length l"
    using id_num_less [of "xorDistance a' l"] id_num_less [of "xorDistance b' l"] ab by simp_all
  have num: "id_num (xorDistance a (x # l)) < id_num (xorDistance b (x # l)) \<longleftrightarrow>
      y XOR x < z XOR x \<or> y = z \<and> id_num (xorDistance a' l) < id_num (xorDistance b' l)"
    using ab two_digits_less [OF lt]
    by (auto simp: xorDistance_def word_less_nat_alt xor_cancel simp flip: word_unat_eq_iff)
  show ?case
  proof (cases "x XOR z = 0")
    case True
    then have "x XOR y = 0"
      using Cons.prems(3) ab cpl_bits_le [of 8 "x XOR y"] by (auto split: if_splits)
    with True Cons ab num show ?thesis by (simp add: xor_cancel) (metis xor_self_eq xor.commute xor_cancel)
  next
    case False
    show ?thesis
    proof (cases "x XOR y = 0")
      case True
      with False have "y XOR x < z XOR x" by (simp add: xor.commute word_neq_0_conv)
      with num show ?thesis by simp
    next
      case False
      with \<open>x XOR z \<noteq> 0\<close> Cons.prems(3) ab have "x XOR y < x XOR z" by (simp add: cpl_bits_less)
      with num show ?thesis by (simp add: xor.commute)
    qed
  qed
qed

lemma cpl_bytes_eq: "length a = length b \<Longrightarrow> a \<noteq> b \<Longrightarrow> cpl_bytes a b < 8 * length b"
proof (induction a b rule: list_induct2)
  case (Cons x a y b)
  have "x XOR y = 0 \<longleftrightarrow> x = y" by (metis xor_cancel xor_self_eq)
  with Cons cpl_bits_lt8 [of "x XOR y"] show ?case by auto
qed simp

subsection \<open>The table's invariant\<close>

definition contact_ok :: "node_id \<Rightarrow> contact \<Rightarrow> bool" where
  "contact_ok l c \<longleftrightarrow> length (c_ID c) = 32 \<and> c_ID c \<noteq> l"

definition bucket_inv :: "node_id \<Rightarrow> nat \<Rightarrow> contact list \<Rightarrow> bool" where
  "bucket_inv l i b \<longleftrightarrow> length b \<le> 20 \<and> distinct (map c_ID b) \<and>
     (\<forall>c \<in> set b. contact_ok l c \<and> commonPrefixLength l (c_ID c) = i)"

definition rt_inv :: "routing_table \<Rightarrow> bool" where
  "rt_inv rt \<longleftrightarrow> length (rt_localID rt) = 32 \<and> length (rt_buckets rt) = 256 \<and>
     (\<forall>i < 256. bucket_inv (rt_localID rt) i (rt_buckets rt ! i))"

lemma cpl_index: "commonPrefixLength a b < 256"
  by (simp add: commonPrefixLength_def Let_def)

text \<open>Removing the refreshed contact, wherever it stands, and putting it at the end.\<close>

definition without :: "node_id \<Rightarrow> contact list \<Rightarrow> contact list" where
  "without x b = filter (\<lambda>e. c_ID e \<noteq> x) b"

definition refreshed :: "contact \<Rightarrow> contact list \<Rightarrow> contact" where
  "refreshed c b =
     (case find (\<lambda>e. c_ID e = c_ID c) b of
        Some e \<Rightarrow> (if c_Addr c \<noteq> [] then e\<lparr>c_Addr := c_Addr c\<rparr> else e)
      | None \<Rightarrow> c)"

lemma find_first_index: "find P xs = map_option ((!) xs) (first_index P xs)"
  by (induction xs) (auto simp: option.map_comp comp_def intro: option.map_cong)

lemma without_id: "\<forall>e \<in> set b. c_ID e \<noteq> x \<Longrightarrow> without x b = b"
  by (simp add: without_def)

lemma refresh_bucket_eq:
  assumes "distinct (map c_ID b)"
  shows "refresh_bucket c b =
    (if c_ID c \<in> c_ID ` set b then without (c_ID c) b
     else if 20 \<le> length b then drop 1 b else b) @ [refreshed c b]"
proof (cases "first_index (\<lambda>e. c_ID e = c_ID c) b")
  case None
  then have "c_ID c \<notin> c_ID ` set b" by (auto simp: first_index_None)
  with None show ?thesis
    by (simp add: refresh_bucket_def refreshed_def find_first_index)
next
  case (Some i)
  from first_index_split [OF Some] have b: "b = take i b @ b ! i # drop (Suc i) b"
    "c_ID (b ! i) = c_ID c" "\<forall>e \<in> set (take i b). c_ID e \<noteq> c_ID c" by auto
  from assms b(1) have "distinct (map c_ID (take i b @ b ! i # drop (Suc i) b))" by simp
  with b(2) have "\<forall>e \<in> set (drop (Suc i) b). c_ID e \<noteq> c_ID c" by (auto simp: image_iff)
  with b(2,3) have "without (c_ID c) (take i b @ b ! i # drop (Suc i) b) = take i b @ drop (Suc i) b"
    by (simp add: without_def)
  then have "without (c_ID c) b = take i b @ drop (Suc i) b" by (simp only: b(1) [symmetric])
  moreover have "c_ID c \<in> c_ID ` set b"
    using b(2) Some by (metis first_index_Some image_eqI nth_mem)
  ultimately show ?thesis
    using Some by (simp add: refresh_bucket_def refreshed_def find_first_index Let_def)
qed

lemma refreshed_id [simp]: "c_ID (refreshed c b) = c_ID c"
  by (auto simp: refreshed_def find_Some_iff split: option.splits)

lemma bucket_inv_snoc:
  "bucket_inv l i b \<Longrightarrow> length b < 20 \<Longrightarrow> contact_ok l r \<Longrightarrow> commonPrefixLength l (c_ID r) = i \<Longrightarrow>
     c_ID r \<notin> c_ID ` set b \<Longrightarrow> bucket_inv l i (b @ [r])"
  by (simp add: bucket_inv_def)

lemma bucket_inv_drop: "bucket_inv l i b \<Longrightarrow> bucket_inv l i (drop n b)"
  using distinct_drop [of "map c_ID b" n]
  by (auto simp: bucket_inv_def drop_map dest: in_set_dropD)

lemma bucket_inv_without: "bucket_inv l i b \<Longrightarrow> bucket_inv l i (without x b)"
  by (auto simp: bucket_inv_def without_def distinct_map_filter intro: le_trans [OF length_filter_le])

lemma refresh_bucket_inv:
  assumes "bucket_inv l i b" "contact_ok l c" "commonPrefixLength l (c_ID c) = i"
  shows "bucket_inv l i (refresh_bucket c b)"
proof -
  have d: "distinct (map c_ID b)" and len: "length b \<le> 20" using assms(1) by (simp_all add: bucket_inv_def)
  have r: "contact_ok l (refreshed c b)" "commonPrefixLength l (c_ID (refreshed c b)) = i"
    using assms(2,3) by (simp_all add: contact_ok_def)
  show ?thesis
  proof (cases "c_ID c \<in> c_ID ` set b")
    case True
    then have "length (without (c_ID c) b) < length b"
      by (auto simp: without_def intro: length_filter_less)
    moreover have "c_ID c \<notin> c_ID ` set (without (c_ID c) b)" by (auto simp: without_def)
    ultimately have "bucket_inv l i (without (c_ID c) b @ [refreshed c b])"
      using r len bucket_inv_without [OF assms(1)] by (intro bucket_inv_snoc) simp_all
    with True show ?thesis by (simp only: refresh_bucket_eq [OF d] if_True)
  next
    case False
    define b' where "b' = (if 20 \<le> length b then drop 1 b else b)"
    have "c_ID c \<notin> c_ID ` set b'" using False by (auto simp: b'_def dest: in_set_dropD)
    moreover have "bucket_inv l i b'" "length b' < 20"
      using bucket_inv_drop [OF assms(1), of 1] assms(1) len by (simp_all add: b'_def)
    ultimately have "bucket_inv l i (b' @ [refreshed c b])"
      using r by (intro bucket_inv_snoc) simp_all
    with False show ?thesis by (simp only: refresh_bucket_eq [OF d] if_False b'_def)
  qed
qed

lemma rt_localID_new [simp]: "rt_localID (NewRoutingTable l) = l"
  by (simp add: NewRoutingTable_def)

lemma new_rt_inv: "length l = 32 \<Longrightarrow> rt_inv (NewRoutingTable l)"
  by (simp add: rt_inv_def NewRoutingTable_def bucket_inv_def)

lemma AddContact_inv [keet_inv]:
  assumes "rt_inv rt" "length (c_ID c) = 32"
  shows "rt_inv (AddContact c rt)"
  using assms refresh_bucket_inv [of "rt_localID rt" _ _ c] cpl_index [of "rt_localID rt" "c_ID c"]
  by (auto simp: AddContact_def rt_inv_def Let_def contact_ok_def nth_list_update)

lemma AddContact_local [simp]: "rt_localID (AddContact c rt) = rt_localID rt"
  by (simp add: AddContact_def Let_def)

lemma fold_AddContact_inv:
  "rt_inv rt \<Longrightarrow> list_all (\<lambda>c. length (c_ID c) = 32) cs \<Longrightarrow> rt_inv (fold AddContact cs rt)"
  by (induction cs arbitrary: rt) (simp_all add: AddContact_inv)

lemma in_all_contacts:
  assumes "rt_inv rt"
  shows "c \<in> set (all_contacts rt) \<longleftrightarrow> (\<exists>i < 256. c \<in> set (rt_buckets rt ! i))"
  using assms by (simp add: all_contacts_def rt_inv_def) (metis in_set_conv_nth)

lemma all_contacts_ok:
  assumes "rt_inv rt" "c \<in> set (all_contacts rt)"
  shows "contact_ok (rt_localID rt) c"
  using assms by (auto simp: in_all_contacts rt_inv_def bucket_inv_def)

lemma distinct_concat_buckets:
  assumes "\<And>i. i < length bs \<Longrightarrow> distinct (map f (bs ! i))"
    and "\<And>i x. i < length bs \<Longrightarrow> x \<in> set (bs ! i) \<Longrightarrow> g (f x) = i + k"
  shows "distinct (map f (concat bs))"
  using assms
proof (induction bs arbitrary: k)
  case Nil
  then show ?case by simp
next
  case (Cons b bs)
  have IH: "distinct (map f (concat bs))"
    using Cons.prems(1) [of "Suc _"] Cons.prems(2) [of "Suc _"] by (intro Cons.IH [of "Suc k"]) auto
  have "g (f x) = k" if "x \<in> set b" for x
    using that Cons.prems(2) [of 0 x] by simp
  moreover have "g (f x) > k" if "x \<in> set (concat bs)" for x
  proof -
    from that obtain i where "i < length bs" "x \<in> set (bs ! i)" by (auto simp: in_set_conv_nth [of _ bs])
    then show ?thesis using Cons.prems(2) [of "Suc i" x] by simp
  qed
  ultimately have "f ` set b \<inter> f ` set (concat bs) = {}" by fastforce
  with IH Cons.prems(1) [of 0] show ?case by (simp add: image_UN)
qed

lemma all_contacts_distinct: "rt_inv rt \<Longrightarrow> distinct (map c_ID (all_contacts rt))"
  unfolding all_contacts_def
  by (rule distinct_concat_buckets [where g = "commonPrefixLength (rt_localID rt)" and k = 0])
    (auto simp: rt_inv_def bucket_inv_def)

lemma all_contacts_length: "rt_inv rt \<Longrightarrow> length (all_contacts rt) \<le> 256 * 20"
proof -
  assume inv: "rt_inv rt"
  have "list_all (\<lambda>b. length b \<le> 20) bs \<Longrightarrow> length (concat bs) \<le> length bs * 20" for bs :: "contact list list"
    by (induction bs) auto
  from this [of "rt_buckets rt"] inv show ?thesis
    by (simp add: all_contacts_def rt_inv_def bucket_inv_def list_all_length)
qed

subsection \<open>Properties\<close>

text \<open>
  C19. Whatever contacts are added, in any order, to a new table: every bucket holds at most 20
  contacts with distinct IDs that belong in it, the table never holds the local ID, no ID occurs
  twice, and there are at most 5120 contacts.
\<close>

theorem routing_table_invariant:
  assumes "length l = 32" "list_all (\<lambda>c. length (c_ID c) = 32) cs"
  defines "rt \<equiv> fold AddContact cs (NewRoutingTable l)"
  shows "(\<forall>i < 256. length (rt_buckets rt ! i) \<le> 20 \<and>
      (\<forall>c \<in> set (rt_buckets rt ! i). commonPrefixLength l (c_ID c) = i \<and> c_ID c \<noteq> l)) \<and>
    distinct (map c_ID (all_contacts rt)) \<and> length (all_contacts rt) \<le> 5120"
proof -
  have inv: "rt_inv rt" unfolding rt_def by (rule fold_AddContact_inv) (use assms in \<open>simp_all add: new_rt_inv\<close>)
  have "rt_localID (fold AddContact cs t) = rt_localID t" for t
    by (induction cs arbitrary: t) simp_all
  then have "rt_localID rt = l" by (simp add: rt_def NewRoutingTable_def)
  with inv all_contacts_distinct [OF inv] all_contacts_length [OF inv] show ?thesis
    by (simp add: rt_inv_def bucket_inv_def contact_ok_def)
qed

theorem routing_table_invariant_witness:
  "distinct (map c_ID (all_contacts (fold AddContact
     [\<lparr>c_ID = 1 # replicate 31 0, c_Addr = ''a''\<rparr>, \<lparr>c_ID = zero_id, c_Addr = ''b''\<rparr>]
     (NewRoutingTable zero_id))))"
  using routing_table_invariant [of zero_id
      "[\<lparr>c_ID = 1 # replicate 31 0, c_Addr = ''a''\<rparr>, \<lparr>c_ID = zero_id, c_Addr = ''b''\<rparr>]"]
  by (simp add: zero_id_def)

text \<open>
  Adding a contact with a foreign ID changes its own bucket only, and there: the contact ends
  up last (most recently seen), with its new address unless that is empty; every other contact
  keeps its place in the order, except that a new contact pushes the first (least recently
  seen) one out of a full bucket.
\<close>

lemma add_contact_is_lru:
  assumes "rt_inv rt" "length (c_ID c) = 32" "c_ID c \<noteq> rt_localID rt"
  defines "i \<equiv> commonPrefixLength (rt_localID rt) (c_ID c)"
  defines "b \<equiv> rt_buckets rt ! i" and "rt' \<equiv> AddContact c rt"
  shows "(\<forall>j. j \<noteq> i \<longrightarrow> rt_buckets rt' ! j = rt_buckets rt ! j) \<and>
    rt_buckets rt' ! i =
      (if c_ID c \<in> c_ID ` set b then filter (\<lambda>e. c_ID e \<noteq> c_ID c) b
       else if length b = 20 then tl b else b) @ [refreshed c b] \<and>
    (c_Addr c \<noteq> [] \<longrightarrow> refreshed c b = c)"
proof -
  have i: "i < 256" unfolding i_def by (rule cpl_index)
  then have b: "bucket_inv (rt_localID rt) i b" "i < length (rt_buckets rt)"
    using assms(1) by (simp_all add: rt_inv_def b_def)
  have "rt_buckets rt' = (rt_buckets rt)[i := refresh_bucket c b]"
    using assms(3) by (simp add: rt'_def AddContact_def Let_def i_def b_def)
  moreover have "c_Addr c \<noteq> [] \<longrightarrow> refreshed c b = c"
    by (auto simp: refreshed_def find_Some_iff split: option.splits)
  moreover have "refresh_bucket c b = (if c_ID c \<in> c_ID ` set b then filter (\<lambda>e. c_ID e \<noteq> c_ID c) b
       else if length b = 20 then tl b else b) @ [refreshed c b]"
    using b(1) by (auto simp: bucket_inv_def refresh_bucket_eq without_def drop_Suc)
  ultimately show ?thesis using b(2) by simp
qed

lemma cpl_unclamped:
  "length l = 32 \<Longrightarrow> length a = 32 \<Longrightarrow> a \<noteq> l \<Longrightarrow> commonPrefixLength l a = cpl_bytes l a"
  using cpl_bytes_eq [of l a] by (auto simp: commonPrefixLength_def Let_def)

lemma FindClosestPeers_sort_key:
  assumes "rt_inv rt" "length target = 32"
  shows "FindClosestPeers rt target n = take n (sort_key (dist_num target) (all_contacts rt))"
proof -
  have "sort_slice (closer target) (all_contacts rt) =
      sort_slice (\<lambda>a b. dist_num target a < dist_num target b) (all_contacts rt)"
    using all_contacts_ok [OF assms(1)] assms(2)
    by (intro sort_slice_cong) (simp add: closer_num contact_ok_def)
  then show ?thesis by (simp add: FindClosestPeers_def Let_def sort_slice_key)
qed

lemma dist_num_inj:
  assumes "rt_inv rt" "length target = 32"
  shows "inj_on (dist_num target) (set (all_contacts rt))"
proof (rule inj_onI)
  fix a b
  assume ab: "a \<in> set (all_contacts rt)" "b \<in> set (all_contacts rt)" "dist_num target a = dist_num target b"
  with all_contacts_ok [OF assms(1)] assms(2) have "c_ID a = c_ID b"
    by (simp add: contact_ok_def dist_num_inject)
  with ab all_contacts_distinct [OF assms(1)] show "a = b"
    by (auto simp: distinct_map dest: inj_onD)
qed

lemma strict_sorted_sort_key:
  assumes "distinct xs" "inj_on f (set xs)"
  shows "sorted_wrt (\<lambda>a b. f a < (f b :: 'k::linorder)) (sort_key f xs)"
proof -
  have "sorted (map f (sort_key f xs))" "distinct (map f (sort_key f xs))"
    using assms by (simp_all add: distinct_map)
  then have "sorted_wrt (<) (map f (sort_key f xs))" by (simp add: strict_sorted_iff)
  then show ?thesis by (simp add: sorted_wrt_map)
qed

text \<open>
  A contact in a deeper bucket is strictly closer to the local node, in the XOR metric, than
  every contact in a shallower one: the bucket index is a faithful coarse distance.
\<close>

lemma deeper_bucket_is_closer:
  assumes "rt_inv rt" "i < j" "j < 256" "a \<in> set (rt_buckets rt ! j)" "b \<in> set (rt_buckets rt ! i)"
  shows "closer (rt_localID rt) a b"
proof -
  let ?l = "rt_localID rt"
  from assms(1-3) have "bucket_inv ?l i (rt_buckets rt ! i)" "bucket_inv ?l j (rt_buckets rt ! j)"
    by (simp_all add: rt_inv_def)
  with assms(1,4,5) have ok: "length ?l = 32" "contact_ok ?l a" "contact_ok ?l b"
    "commonPrefixLength ?l (c_ID a) = j" "commonPrefixLength ?l (c_ID b) = i"
    by (auto simp: rt_inv_def bucket_inv_def)
  with assms(2) have "cpl_bytes ?l (c_ID b) < cpl_bytes ?l (c_ID a)"
    by (simp add: cpl_unclamped contact_ok_def)
  with ok cpl_bytes_less [of "c_ID a" ?l "c_ID b"] show ?thesis
    by (simp add: closer_num contact_ok_def dist_num_def)
qed

text \<open>
  C20. \<open>FindClosestPeers\<close> returns the \<open>n\<close> contacts of the table that are closest to the target in the
  XOR metric (all of them when there are fewer), in strictly increasing distance and none twice.
  Since no two distances are equal, the answer does not depend on the sorting algorithm.
\<close>

theorem find_closest_peers:
  fixes n :: nat
  assumes "rt_inv rt" "length target = 32"
  defines "r \<equiv> FindClosestPeers rt target n"
  shows "length r = min n (length (all_contacts rt)) \<and> set r \<subseteq> set (all_contacts rt) \<and>
    sorted_wrt (closer target) r \<and>
    (\<forall>a \<in> set r. \<forall>b \<in> set (all_contacts rt) - set r. closer target a b) \<and>
    (\<forall>ys. mset ys = mset (all_contacts rt) \<and> sorted_wrt (\<lambda>a b. \<not> closer target b a) ys
       \<longrightarrow> r = take n ys)"
proof -
  let ?f = "dist_num target" and ?xs = "all_contacts rt"
  let ?s = "sort_key ?f ?xs"
  have r: "r = take n ?s" unfolding r_def by (rule FindClosestPeers_sort_key [OF assms(1,2)])
  have cl: "closer target a b \<longleftrightarrow> ?f a < ?f b" if "a \<in> set ?xs" "b \<in> set ?xs" for a b
    using all_contacts_ok [OF assms(1)] assms(2) that by (simp add: closer_num contact_ok_def)
  have "distinct ?xs" using all_contacts_distinct [OF assms(1)] by (simp add: distinct_map)
  then have strict: "sorted_wrt (\<lambda>a b. ?f a < ?f b) (take n ?s @ drop n ?s)"
    using strict_sorted_sort_key dist_num_inj [OF assms(1,2)] by simp
  have sub: "set r \<subseteq> set ?xs" "set (drop n ?s) \<subseteq> set ?xs" "set ?xs = set r \<union> set (drop n ?s)"
    using set_take_subset [of n ?s] set_drop_subset [of n ?s]
      set_append [of "take n ?s" "drop n ?s"] by (auto simp: r simp del: set_append)
  have "sorted_wrt (closer target) r"
    using strict sub(1) unfolding sorted_wrt_append r [symmetric]
    by (auto intro: sorted_wrt_mono_rel [rotated] simp: cl subset_iff)
  moreover have "\<forall>a \<in> set r. \<forall>b \<in> set ?xs - set r. closer target a b"
    using strict sub unfolding sorted_wrt_append r [symmetric] by (auto simp: cl subset_iff)
  moreover have "r = take n ys"
    if "mset ys = mset ?xs" "sorted_wrt (\<lambda>a b. \<not> closer target b a) ys" for ys
  proof -
    from that(1) have "set ys = set ?xs" by (rule mset_eq_setD)
    with that(2) cl have "sorted_wrt (\<lambda>a b. ?f a \<le> ?f b) ys"
      by (auto intro: sorted_wrt_mono_rel [rotated] simp: not_less)
    with that(1) sort_slice_unique [OF dist_num_inj [OF assms(1,2)], of ys] show ?thesis
      by (simp add: r sort_slice_key sorted_map)
  qed
  ultimately show ?thesis using sub(1) by (auto simp: r min.commute)
qed

theorem find_closest_peers_witness:
  "length (FindClosestPeers (AddContact \<lparr>c_ID = 1 # replicate 31 0, c_Addr = ''a''\<rparr> (NewRoutingTable zero_id))
     zero_id 20) = 1"
proof -
  let ?c = "\<lparr>c_ID = 1 # replicate 31 0, c_Addr = ''a''\<rparr>"
  let ?rt = "AddContact ?c (NewRoutingTable zero_id)"
  have inv: "rt_inv ?rt" by (rule AddContact_inv) (simp_all add: new_rt_inv zero_id_def)
  have "commonPrefixLength zero_id (c_ID ?c) = 7" "c_ID ?c \<noteq> zero_id" by code_simp+
  then have "length (all_contacts ?rt) = 1"
    by (simp add: AddContact_def NewRoutingTable_def all_contacts_def refresh_bucket_def length_concat numeral_eq_Suc)
  then show ?thesis using find_closest_peers [OF inv, of zero_id 20] by (simp add: zero_id_def)
qed

end
