(* ===== verification/Dht_Rpc.thy ===== *)
theory Dht_Rpc
  imports Dht_Routing
begin

section \<open>Kademlia RPC messages (pkg/dht/rpc.go)\<close>

text \<open>
  The binary format of the seven message types: a 37-byte header (transaction, type, sender) and a
  payload that depends on the type. The decoder reads fixed-size fields with \<open>bytes.Reader.Read\<close>,
  which accepts a short read, and integers with \<open>binary.Read\<close>, which does not.
\<close>

type_synonym msg_type = byte

definition MsgPing :: msg_type where "MsgPing = 1"
definition MsgPong :: msg_type where "MsgPong = 2"
definition MsgFindNode :: msg_type where "MsgFindNode = 3"
definition MsgFindNodeResp :: msg_type where "MsgFindNodeResp = 4"
definition MsgAnnounce :: msg_type where "MsgAnnounce = 5"
definition MsgLookup :: msg_type where "MsgLookup = 6"
definition MsgLookupResp :: msg_type where "MsgLookupResp = 7"

lemmas msg_types = MsgPing_def MsgPong_def MsgFindNode_def MsgFindNodeResp_def MsgAnnounce_def
  MsgLookup_def MsgLookupResp_def

record dht_message =
  m_TxID :: bytes
  m_Type :: msg_type
  m_SenderID :: node_id
  m_Target :: node_id
  m_Contacts :: "contact list"
  m_Topic :: node_id
  m_Port :: u16
  m_Peers :: "string list"

text \<open>\<open>&Message\<lbrace>\<rbrace>\<close>: every field zero.\<close>

definition zero_message :: dht_message where
  "zero_message = \<lparr>m_TxID = replicate 4 0, m_Type = 0, m_SenderID = zero_id, m_Target = zero_id,
     m_Contacts = [], m_Topic = zero_id, m_Port = 0, m_Peers = []\<rparr>"

subsection \<open>Encoding\<close>

definition encode_contact :: "contact \<Rightarrow> bytes" where
  "encode_contact c =
     c_ID c @ put_u16 (of_nat (length (c_Addr c))) @ bytes_of_string (c_Addr c)"

definition encode_peer :: "string \<Rightarrow> bytes" where
  "encode_peer p = put_u16 (of_nat (length p)) @ bytes_of_string p"

definition encode_payload :: "dht_message \<Rightarrow> bytes result" where
  "encode_payload m =
     (let t = m_Type m in
      if t = MsgPing \<or> t = MsgPong then Inr []
      else if t = MsgFindNode then Inr (m_Target m)
      else if t = MsgFindNodeResp then
        Inr (put_u16 (of_nat (length (m_Contacts m))) @ concat (map encode_contact (m_Contacts m)))
      else if t = MsgAnnounce then Inr (m_Topic m @ put_u16 (m_Port m))
      else if t = MsgLookup then Inr (m_Topic m)
      else if t = MsgLookupResp then
        Inr (put_u16 (of_nat (length (m_Peers m))) @ concat (map encode_peer (m_Peers m)))
      else Inl (ErrNew ''unknown message type''))"

definition EncodeMessage :: "dht_message option \<Rightarrow> bytes result" where
  "EncodeMessage mo =
     (case mo of None \<Rightarrow> Inl (ErrNew ''cannot encode nil message'')
      | Some m \<Rightarrow> (case encode_payload m of Inl e \<Rightarrow> Inl e
          | Inr p \<Rightarrow> Inr (m_TxID m @ [m_Type m] @ m_SenderID m @ p)))"

subsection \<open>Decoding\<close>

text \<open>
  \<open>reader.Read(buf)\<close> with \<open>len(buf) = n\<close>: \<open>io.EOF\<close> when nothing is left, even for an empty
  buffer; otherwise what there is, and the rest of the zeroed buffer stays zero.
\<close>

definition reader_read :: "nat \<Rightarrow> bytes \<Rightarrow> (bytes \<times> bytes) result" where
  "reader_read n r =
     (if r = [] then Inl EOF else Inr (take n r @ replicate (n - length r) 0, drop n r))"

fun read_contacts :: "nat \<Rightarrow> bytes \<Rightarrow> (contact list \<times> bytes) result" where
  "read_contacts 0 r = Inr ([], r)"
| "read_contacts (Suc n) r =
     (case reader_read 32 r of Inl e \<Rightarrow> Inl e | Inr (i, r1) \<Rightarrow>
     (case read_u16 r1 of Inl e \<Rightarrow> Inl e | Inr (len, r2) \<Rightarrow>
     (case reader_read (unat len) r2 of Inl e \<Rightarrow> Inl e | Inr (a, r3) \<Rightarrow>
     (case read_contacts n r3 of Inl e \<Rightarrow> Inl e | Inr (cs, r4) \<Rightarrow>
        Inr (\<lparr>c_ID = i, c_Addr = string_of_bytes a\<rparr> # cs, r4)))))"

fun read_peers :: "nat \<Rightarrow> bytes \<Rightarrow> (string list \<times> bytes) result" where
  "read_peers 0 r = Inr ([], r)"
| "read_peers (Suc n) r =
     (case read_u16 r of Inl e \<Rightarrow> Inl e | Inr (len, r1) \<Rightarrow>
     (case reader_read (unat len) r1 of Inl e \<Rightarrow> Inl e | Inr (p, r2) \<Rightarrow>
     (case read_peers n r2 of Inl e \<Rightarrow> Inl e | Inr (ps, r3) \<Rightarrow> Inr (string_of_bytes p # ps, r3))))"

definition decode_payload :: "dht_message \<Rightarrow> bytes \<Rightarrow> dht_message result" where
  "decode_payload m r =
     (let t = m_Type m in
      if t = MsgPing \<or> t = MsgPong then Inr m
      else if t = MsgFindNode then
        (case reader_read 32 r of Inl e \<Rightarrow> Inl e | Inr (x, _) \<Rightarrow> Inr (m\<lparr>m_Target := x\<rparr>))
      else if t = MsgFindNodeResp then
        (case read_u16 r of Inl e \<Rightarrow> Inl e | Inr (n, r1) \<Rightarrow>
        (case read_contacts (unat n) r1 of Inl e \<Rightarrow> Inl e | Inr (cs, _) \<Rightarrow> Inr (m\<lparr>m_Contacts := cs\<rparr>)))
      else if t = MsgAnnounce then
        (case reader_read 32 r of Inl e \<Rightarrow> Inl e | Inr (x, r1) \<Rightarrow>
        (case read_u16 r1 of Inl e \<Rightarrow> Inl e | Inr (p, _) \<Rightarrow> Inr (m\<lparr>m_Topic := x, m_Port := p\<rparr>)))
      else if t = MsgLookup then
        (case reader_read 32 r of Inl e \<Rightarrow> Inl e | Inr (x, _) \<Rightarrow> Inr (m\<lparr>m_Topic := x\<rparr>))
      else if t = MsgLookupResp then
        (case read_u16 r of Inl e \<Rightarrow> Inl e | Inr (n, r1) \<Rightarrow>
        (case read_peers (unat n) r1 of Inl e \<Rightarrow> Inl e | Inr (ps, _) \<Rightarrow> Inr (m\<lparr>m_Peers := ps\<rparr>)))
      else Inl (ErrNew ''unknown message type''))"

definition DecodeMessage :: "bytes \<Rightarrow> dht_message result" where
  "DecodeMessage data =
     (if length data < 37 then Inl (ErrNew ''packet too short to contain header'')
      else case reader_read 4 data of Inl e \<Rightarrow> Inl e | Inr (tx, r1) \<Rightarrow>
     (case r1 of [] \<Rightarrow> Inl EOF | t # r2 \<Rightarrow>
     (case reader_read 32 r2 of Inl e \<Rightarrow> Inl e | Inr (sender, r3) \<Rightarrow>
        decode_payload (zero_message\<lparr>m_TxID := tx, m_Type := t, m_SenderID := sender\<rparr>) r3)))"

subsection \<open>Round trips\<close>

lemma reader_read_exact:
  "length b = n \<Longrightarrow> reader_read n (b @ r) = (if b @ r = [] then Inl EOF else Inr (b, r))"
  by (simp add: reader_read_def)

lemma decode_header:
  assumes "length tx = 4" "length sender = 32"
  shows "DecodeMessage (tx @ t # sender @ p) =
    decode_payload (zero_message\<lparr>m_TxID := tx, m_Type := t, m_SenderID := sender\<rparr>) p"
proof -
  have "tx \<noteq> []" "sender \<noteq> []" using assms by auto
  with assms show ?thesis by (simp add: DecodeMessage_def reader_read_exact)
qed

definition fits16 :: "'a list \<Rightarrow> bool" where
  "fits16 xs \<longleftrightarrow> length xs < 2 ^ 16"

lemma unat_of_nat_16 [simp]: "fits16 xs \<Longrightarrow> unat (of_nat (length xs) :: u16) = length xs"
  by (simp add: fits16_def unat_of_nat)

definition wf_contact :: "contact \<Rightarrow> bool" where
  "wf_contact c \<longleftrightarrow> length (c_ID c) = 32 \<and> fits16 (c_Addr c)"

lemma put_u16_ne [simp]: "put_u16 w \<noteq> []"
  by (simp add: put_u16_def be_enc_numeral)

lemma read_contacts_step:
  assumes "wf_contact c"
  shows "read_contacts (Suc n) (encode_contact c @ r) =
    (if c_Addr c = [] \<and> r = [] then Inl EOF
     else case read_contacts n r of Inl e \<Rightarrow> Inl e | Inr (cs, r') \<Rightarrow> Inr (c # cs, r'))"
proof -
  from assms have "length (c_ID c) = 32" "fits16 (c_Addr c)" "c_ID c \<noteq> []" by (auto simp: wf_contact_def)
  then show ?thesis by (auto simp: encode_contact_def reader_read_exact split: sum.splits)
qed

lemma read_encode_contacts:
  "list_all wf_contact cs \<Longrightarrow> read_contacts (length cs) (concat (map encode_contact cs) @ r) =
     (if cs \<noteq> [] \<and> c_Addr (last cs) = [] \<and> r = [] then Inl EOF else Inr (cs, r))"
proof (induction cs)
  case (Cons c cs)
  have "cs \<noteq> [] \<Longrightarrow> concat (map encode_contact cs) \<noteq> []"
    by (cases cs) (simp_all add: encode_contact_def)
  with Cons read_contacts_step [of c "length cs" "concat (map encode_contact cs) @ r"] show ?case
    by (cases "cs = []") (auto simp del: read_contacts.simps(2))
qed simp

lemma read_peers_step:
  assumes "fits16 p"
  shows "read_peers (Suc n) (encode_peer p @ r) =
    (if p = [] \<and> r = [] then Inl EOF
     else case read_peers n r of Inl e \<Rightarrow> Inl e | Inr (ps, r') \<Rightarrow> Inr (p # ps, r'))"
  using assms by (auto simp: encode_peer_def reader_read_exact split: sum.splits)

lemma read_encode_peers:
  "list_all fits16 ps \<Longrightarrow> read_peers (length ps) (concat (map encode_peer ps) @ r) =
     (if ps \<noteq> [] \<and> last ps = [] \<and> r = [] then Inl EOF else Inr (ps, r))"
proof (induction ps)
  case (Cons p ps)
  have "ps \<noteq> [] \<Longrightarrow> concat (map encode_peer ps) \<noteq> []"
    by (cases ps) (simp_all add: encode_peer_def)
  with Cons read_peers_step [of p "length ps" "concat (map encode_peer ps) @ r"] show ?case
    by (cases "ps = []") (auto simp del: read_peers.simps(2))
qed simp

lemmas read_encode_end =
  read_encode_contacts [where r = "[]", unfolded append_Nil2]
  read_encode_peers [where r = "[]", unfolded append_Nil2]

text \<open>
  Messages as the program builds them: arrays of their size, lists and strings that fit their
  16-bit counts, and payload fields that the type does not use zero.
\<close>

definition payload_of :: "dht_message \<Rightarrow> dht_message" where
  "payload_of m = (let t = m_Type m in
     \<lparr>m_TxID = m_TxID m, m_Type = t, m_SenderID = m_SenderID m,
      m_Target = (if t = MsgFindNode then m_Target m else zero_id),
      m_Contacts = (if t = MsgFindNodeResp then m_Contacts m else []),
      m_Topic = (if t = MsgAnnounce \<or> t = MsgLookup then m_Topic m else zero_id),
      m_Port = (if t = MsgAnnounce then m_Port m else 0),
      m_Peers = (if t = MsgLookupResp then m_Peers m else [])\<rparr>)"

definition wf_message :: "dht_message \<Rightarrow> bool" where
  "wf_message m \<longleftrightarrow> length (m_TxID m) = 4 \<and> length (m_SenderID m) = 32 \<and>
     m_Type m \<in> {MsgPing, MsgPong, MsgFindNode, MsgFindNodeResp, MsgAnnounce, MsgLookup, MsgLookupResp} \<and>
     length (m_Target m) = 32 \<and> length (m_Topic m) = 32 \<and>
     fits16 (m_Contacts m) \<and> list_all wf_contact (m_Contacts m) \<and>
     fits16 (m_Peers m) \<and> list_all fits16 (m_Peers m)"

text \<open>The message ends with an empty string.\<close>

definition ends_empty :: "dht_message \<Rightarrow> bool" where
  "ends_empty m \<longleftrightarrow>
     m_Type m = MsgFindNodeResp \<and> m_Contacts m \<noteq> [] \<and> c_Addr (last (m_Contacts m)) = [] \<or>
     m_Type m = MsgLookupResp \<and> m_Peers m \<noteq> [] \<and> last (m_Peers m) = []"

lemma decode_payload_encode:
  assumes "wf_message m" "encode_payload m = Inr p"
  shows "decode_payload (zero_message\<lparr>m_TxID := m_TxID m, m_Type := m_Type m, m_SenderID := m_SenderID m\<rparr>)
      (p @ rest) = (if ends_empty m \<and> rest = [] then Inl EOF else Inr (payload_of m))"
proof -
  have ne: "length x = 32 \<Longrightarrow> x \<noteq> []" for x :: bytes by auto
  from assms(1) consider "m_Type m = MsgPing" | "m_Type m = MsgPong" | "m_Type m = MsgFindNode"
    | "m_Type m = MsgFindNodeResp" | "m_Type m = MsgAnnounce" | "m_Type m = MsgLookup"
    | "m_Type m = MsgLookupResp" by (auto simp: wf_message_def)
  then show ?thesis
    using assms
    by cases (auto simp: wf_message_def encode_payload_def decode_payload_def payload_of_def Let_def
        msg_types ends_empty_def zero_message_def reader_read_exact ne read_encode_contacts
        read_encode_peers read_encode_end)
qed

lemma EncodeMessage_wf:
  "wf_message m \<Longrightarrow> \<exists>p. encode_payload m = Inr p \<and>
     EncodeMessage (Some m) = Inr (m_TxID m @ [m_Type m] @ m_SenderID m @ p)"
  by (auto simp: wf_message_def encode_payload_def EncodeMessage_def Let_def)

lemma decode_encode_message:
  assumes "wf_message m"
  obtains b where "EncodeMessage (Some m) = Inr b"
    "\<And>rest. DecodeMessage (b @ rest) =
       (if ends_empty m \<and> rest = [] then Inl EOF else Inr (payload_of m))"
proof -
  from EncodeMessage_wf [OF assms] obtain p where p: "encode_payload m = Inr p"
    "EncodeMessage (Some m) = Inr (m_TxID m @ [m_Type m] @ m_SenderID m @ p)" by blast
  from assms have "length (m_TxID m) = 4" "length (m_SenderID m) = 32" by (simp_all add: wf_message_def)
  with that [OF p(2)] decode_payload_encode [OF assms p(1)] show thesis
    by (simp add: decode_header)
qed

text \<open>
  C28. Every message whose lists and strings fit their 16-bit counts can be encoded, and the decoder
  recovers all of its header and the payload of its type, whatever bytes follow it in the
  datagram, with one exception: a response that ends with an empty address or peer and nothing
  behind it is rejected with \<open>io.EOF\<close>.
\<close>

theorem dht_message_roundtrip:
  assumes "wf_message m"
  shows "\<exists>b. EncodeMessage (Some m) = Inr b \<and>
    (\<forall>rest. DecodeMessage (b @ rest) =
       (if ends_empty m \<and> rest = [] then Inl EOF else Inr (payload_of m)))"
  using decode_encode_message [OF assms] by metis

theorem dht_message_roundtrip_witness:
  "\<exists>b. EncodeMessage (Some (zero_message\<lparr>m_Type := 7, m_Peers := [''1.2.3.4:5'', ''a'']\<rparr>)) = Inr b \<and>
    DecodeMessage b = Inr (zero_message\<lparr>m_Type := 7, m_Peers := [''1.2.3.4:5'', ''a'']\<rparr>)"
proof -
  let ?m = "zero_message\<lparr>m_Type := 7, m_Peers := [''1.2.3.4:5'', ''a'']\<rparr>"
  have "wf_message ?m" by (simp add: wf_message_def zero_message_def zero_id_def fits16_def msg_types)
  then obtain b where b: "EncodeMessage (Some ?m) = Inr b"
    "\<forall>rest. DecodeMessage (b @ rest) = (if ends_empty ?m \<and> rest = [] then Inl EOF else Inr (payload_of ?m))"
    using dht_message_roundtrip by blast
  have "\<not> ends_empty ?m" "payload_of ?m = ?m"
    by (simp_all add: ends_empty_def payload_of_def zero_message_def msg_types)
  with b(1) b(2) [rule_format, of "[]"] show ?thesis by simp
qed

text \<open>
  The decoder accepts a FindNode request whose target is cut short anywhere after its first
  byte, and completes the target with zero bytes: the node answers for an ID that nobody asked
  for. (\<open>bytes.Reader.Read\<close> reports a short read only through its count, which is ignored.)
\<close>

lemma short_target_is_padded:
  assumes "length tx = 4" "length sender = 32" "t \<noteq> []" "length t \<le> 32"
  shows "DecodeMessage (tx @ MsgFindNode # sender @ t) =
    Inr (zero_message\<lparr>m_TxID := tx, m_Type := MsgFindNode, m_SenderID := sender,
      m_Target := t @ replicate (32 - length t) 0\<rparr>)"
  using assms by (simp add: decode_header decode_payload_def msg_types reader_read_def)

end
