(* ===== verification/Dht_Registry.thy ===== *)
theory Dht_Registry
  imports Dht_Routing
begin

section \<open>Swarm registry and topic keys (pkg/dht/registry.go, topic.go)\<close>

text \<open>
  The registry maps a topic key to the addresses of its peers, in the order of registration. The
  DHT node (announces, lookups, leaves) and the gateway use it through the contract of the locale
  \<open>swarm_store\<close> below: per topic, a set of addresses. The callback \<open>OnRegisterPeer\<close> is modelled by
  the list of its calls, made only when one is installed.
\<close>

subsection \<open>The contract\<close>

locale swarm_store =
  fixes inv :: "'s \<Rightarrow> bool"
    and peers :: "'s \<Rightarrow> node_id \<Rightarrow> string list"
    and register :: "'s \<Rightarrow> node_id \<Rightarrow> string \<Rightarrow> 's"
    and unregister :: "'s \<Rightarrow> node_id \<Rightarrow> string \<Rightarrow> 's"
    and clear :: "'s \<Rightarrow> node_id \<Rightarrow> 's"
  assumes inv_register: "inv s \<Longrightarrow> inv (register s t a)"
    and inv_unregister: "inv s \<Longrightarrow> inv (unregister s t a)"
    and inv_clear: "inv s \<Longrightarrow> inv (clear s t)"
    and distinct_peers: "inv s \<Longrightarrow> distinct (peers s t)"
    and peers_register: "inv s \<Longrightarrow> set (peers (register s t a) u) =
      (if u = t then insert a (set (peers s t)) else set (peers s u))"
    and peers_unregister: "inv s \<Longrightarrow> set (peers (unregister s t a) u) =
      (if u = t then set (peers s t) - {a} else set (peers s u))"
    and peers_clear: "inv s \<Longrightarrow> set (peers (clear s t) u) = (if u = t then {} else set (peers s u))"
begin

lemma register_unregister:
  "inv s \<Longrightarrow> a \<notin> set (peers s t) \<Longrightarrow>
     set (peers (unregister (register s t a) t a) u) = set (peers s u)"
  by (simp add: peers_register peers_unregister inv_register)

text \<open>Registering a list of addresses, as the lookups of the node do.\<close>

lemma register_all:
  "inv s \<Longrightarrow> inv (fold (\<lambda>a s. register s t a) as s) \<and>
     set (peers (fold (\<lambda>a s. register s t a) as s) u) =
       (if u = t then set (peers s t) \<union> set as else set (peers s u))"
  by (induction "as" arbitrary: s) (auto simp: peers_register inv_register)

text \<open>Unregistering a list of addresses, as a Leave announcement does.\<close>

lemma unregister_all:
  "inv s \<Longrightarrow> inv (fold (\<lambda>a s. unregister s t a) as s) \<and>
     set (peers (fold (\<lambda>a s. unregister s t a) as s) u) =
       (if u = t then set (peers s t) - set as else set (peers s u))"
  by (induction "as" arbitrary: s) (auto simp: peers_unregister inv_unregister)

end

subsection \<open>The registry\<close>

record swarm_registry =
  sr_swarms :: "node_id \<Rightarrow> string list option"
  sr_OnRegisterPeer :: bool
  sr_calls :: "(node_id \<times> string) list"
  sr_P2PPort :: u16

definition NewSwarmRegistry :: swarm_registry where
  "NewSwarmRegistry = \<lparr>sr_swarms = (\<lambda>_. None), sr_OnRegisterPeer = False, sr_calls = [], sr_P2PPort = 0\<rparr>"

definition GetPeers :: "swarm_registry \<Rightarrow> node_id \<Rightarrow> string list" where
  "GetPeers r topic = (case sr_swarms r topic of None \<Rightarrow> [] | Some peers \<Rightarrow> peers)"

definition RegisterPeer :: "swarm_registry \<Rightarrow> node_id \<Rightarrow> string \<Rightarrow> swarm_registry" where
  "RegisterPeer r topic peerAddr =
     (let peers = (case sr_swarms r topic of None \<Rightarrow> [] | Some ps \<Rightarrow> ps);
          exists = peerAddr \<in> set peers;
          r1 = (if \<not> exists then r\<lparr>sr_swarms := (sr_swarms r)(topic \<mapsto> peers @ [peerAddr])\<rparr> else r)
      in if \<not> exists \<and> sr_OnRegisterPeer r1 then r1\<lparr>sr_calls := sr_calls r1 @ [(topic, peerAddr)]\<rparr>
         else r1)"

definition UnregisterPeer :: "swarm_registry \<Rightarrow> node_id \<Rightarrow> string \<Rightarrow> swarm_registry" where
  "UnregisterPeer r topic peerAddr =
     (case sr_swarms r topic of None \<Rightarrow> r
      | Some peers \<Rightarrow>
          (case first_index (\<lambda>p. p = peerAddr) peers of None \<Rightarrow> r
           | Some i \<Rightarrow> r\<lparr>sr_swarms := (sr_swarms r)(topic \<mapsto> take i peers @ drop (i + 1) peers)\<rparr>))"

definition ClearSwarm :: "swarm_registry \<Rightarrow> node_id \<Rightarrow> swarm_registry" where
  "ClearSwarm r topic = r\<lparr>sr_swarms := (sr_swarms r)(topic := None)\<rparr>"

definition registry_inv :: "swarm_registry \<Rightarrow> bool" where
  "registry_inv r \<longleftrightarrow> (\<forall>t. distinct (GetPeers r t))"

lemma GetPeers_new [simp]: "GetPeers NewSwarmRegistry t = []"
  by (simp add: GetPeers_def NewSwarmRegistry_def)

lemma GetPeers_register:
  "GetPeers (RegisterPeer r t a) u =
     (if u = t \<and> a \<notin> set (GetPeers r t) then GetPeers r t @ [a] else GetPeers r u)"
  by (auto simp: GetPeers_def RegisterPeer_def Let_def split: option.splits)

lemma GetPeers_unregister:
  assumes "registry_inv r"
  shows "GetPeers (UnregisterPeer r t a) u =
     (if u = t then remove1 a (GetPeers r t) else GetPeers r u)"
proof -
  have rm: "first_index (\<lambda>p. p = a) ps = Some i \<Longrightarrow> take i ps @ drop (Suc i) ps = remove1 a ps" for ps i
    by (induction ps arbitrary: i) (auto split: if_splits)
  have no: "first_index (\<lambda>p. p = a) ps = None \<Longrightarrow> remove1 a ps = ps" for ps
    by (auto simp: first_index_None remove1_idem)
  show ?thesis
    by (auto simp: GetPeers_def UnregisterPeer_def rm no split: option.splits)
qed

lemma GetPeers_clear: "GetPeers (ClearSwarm r t) u = (if u = t then [] else GetPeers r u)"
  by (simp add: GetPeers_def ClearSwarm_def)

interpretation registry: swarm_store registry_inv GetPeers RegisterPeer UnregisterPeer ClearSwarm
  by unfold_locales
    (auto simp: registry_inv_def GetPeers_register GetPeers_unregister GetPeers_clear)

subsection \<open>Histories\<close>

datatype registry_op =
    OpRegister node_id string
  | OpUnregister node_id string
  | OpClear node_id

fun apply_op :: "registry_op \<Rightarrow> swarm_registry \<Rightarrow> swarm_registry" where
  "apply_op (OpRegister t a) r = RegisterPeer r t a"
| "apply_op (OpUnregister t a) r = UnregisterPeer r t a"
| "apply_op (OpClear t) r = ClearSwarm r t"

text \<open>What the operations mean for a topic's set of peers.\<close>

fun spec_op :: "registry_op \<Rightarrow> (node_id \<Rightarrow> string set) \<Rightarrow> node_id \<Rightarrow> string set" where
  "spec_op (OpRegister t a) S = S(t := insert a (S t))"
| "spec_op (OpUnregister t a) S = S(t := S t - {a})"
| "spec_op (OpClear t) S = S(t := {})"

lemma apply_op_refines:
  "registry_inv r \<Longrightarrow> registry_inv (apply_op x r) \<and>
     (\<lambda>t. set (GetPeers (apply_op x r) t)) = spec_op x (\<lambda>t. set (GetPeers r t))"
  by (cases x) (auto simp: fun_eq_iff registry.peers_register registry.peers_unregister
      registry.peers_clear registry.inv_register registry.inv_unregister registry.inv_clear)

lemma apply_ops_refine:
  "registry_inv r \<Longrightarrow> registry_inv (fold apply_op xs r) \<and>
     (\<lambda>t. set (GetPeers (fold apply_op xs r) t)) = fold spec_op xs (\<lambda>t. set (GetPeers r t))"
  by (induction xs arbitrary: r) (simp_all add: apply_op_refines)

text \<open>
  C27. The registry refines a map from topics to sets of addresses: after any sequence of
  registrations, removals and clears, \<open>GetPeers\<close> lists exactly the abstract set of the topic,
  without duplicates.
\<close>

theorem registry_refines_sets:
  "distinct (GetPeers (fold apply_op xs NewSwarmRegistry) t) \<and>
   set (GetPeers (fold apply_op xs NewSwarmRegistry) t) = fold spec_op xs (\<lambda>_. {}) t"
proof -
  have "registry_inv NewSwarmRegistry" "GetPeers NewSwarmRegistry u = []" for u
    by (simp_all add: registry_inv_def GetPeers_def NewSwarmRegistry_def)
  with apply_ops_refine [of NewSwarmRegistry xs] show ?thesis
    by (auto simp: registry_inv_def dest: fun_cong [where x = t])
qed

text \<open>The callback runs once for each address that was not registered yet, and only then.\<close>

lemma register_calls:
  "sr_calls (RegisterPeer r t a) =
     sr_calls r @ (if sr_OnRegisterPeer r \<and> a \<notin> set (GetPeers r t) then [(t, a)] else [])"
  by (auto simp: RegisterPeer_def GetPeers_def Let_def split: option.splits)

subsection \<open>Topic keys\<close>

definition ResolveTopicKey :: "(bytes \<Rightarrow> bytes) \<Rightarrow> string \<Rightarrow> node_id result" where
  "ResolveTopicKey sum256 topic =
     (if topic = [] then Inl (ErrNew ''empty topic is invalid'')
      else
        case (if length topic = 64 then
                (case hex_DecodeString topic of Inl _ \<Rightarrow> None
                 | Inr decoded \<Rightarrow> (if length decoded = 32 then Some decoded else None))
              else None) of
          Some key \<Rightarrow> Inr key
        | None \<Rightarrow> Inr (sum256 (bytes_of_string topic)))"

text \<open>
  Every non-empty topic resolves to a 32-byte key, and the hexadecimal text of a key, which is how
  keys are stored and printed, resolves to that key, whatever the hash function.
\<close>

lemma topic_key_of_hex:
  assumes "\<And>x. length (sum256 x) = 32"
  shows "(topic \<noteq> [] \<longrightarrow> (\<exists>k. ResolveTopicKey sum256 topic = Inr k \<and> length k = 32)) \<and>
    (length key = 32 \<longrightarrow> ResolveTopicKey sum256 (hex_EncodeToString key) = Inr key)"
proof -
  have "hex_EncodeToString key \<noteq> []" if "length key = 32"
    using that length_hex [of key] by (metis length_0_conv mult_is_0 numeral_eq_one_iff
        zero_neq_numeral)
  then show ?thesis
    using assms by (auto simp: ResolveTopicKey_def hex_roundtrip split: sum.splits)
qed

end
