(* ===== verification/Dht_Dispatch.thy ===== *)
theory Dht_Dispatch
  imports Dht_Rpc
begin

section \<open>Request dispatcher (pkg/dht/dispatcher.go)\<close>

text \<open>
  Outstanding requests wait on a channel of capacity one. \<open>pending\<close> maps a transaction ID to the
  request that stored itself last under it; the requests themselves (a \<open>*pendingRequest\<close> held by
  their goroutine) are numbered. The read loop, the cleanup loop and the callers of \<open>SendRequest\<close>
  run concurrently: their atomic actions are the steps of a transition system.
\<close>

record pending_request =
  pr_tx :: bytes
  pr_responseChan :: "dht_message option"
  pr_expiry :: nat

record dispatcher =
  d_pending :: "bytes \<Rightarrow> nat option"
  d_requests :: "pending_request list"

definition NewDispatcher :: dispatcher where
  "NewDispatcher = \<lparr>d_pending = (\<lambda>_. None), d_requests = []\<rparr>"

definition isResponse :: "msg_type \<Rightarrow> bool" where
  "isResponse t \<longleftrightarrow> t = MsgPong \<or> t = MsgFindNodeResp \<or> t = MsgLookupResp"

subsection \<open>The read loop\<close>

definition deliver :: "dht_message \<Rightarrow> dispatcher \<Rightarrow> dispatcher" where
  "deliver m d =
     (case d_pending d (m_TxID m) of None \<Rightarrow> d
      | Some h \<Rightarrow>
          let pr = d_requests d ! h in
          (case pr_responseChan pr of
             None \<Rightarrow> d\<lparr>d_requests := (d_requests d)[h := pr\<lparr>pr_responseChan := Some m\<rparr>]\<rparr>
           | Some _ \<Rightarrow> d))"

text \<open>One datagram: the new state, and the message and source handed to the request handler.\<close>

definition on_datagram ::
  "bytes \<Rightarrow> net_addr \<Rightarrow> dispatcher \<Rightarrow> dispatcher \<times> (dht_message \<times> net_addr) option" where
  "on_datagram data src d =
     (case DecodeMessage data of Inl _ \<Rightarrow> (d, None)
      | Inr m \<Rightarrow> if isResponse (m_Type m) then (deliver m d, None) else (d, Some (m, src)))"

text \<open>The goroutine of a request: what goes back to its source, if anything.\<close>

definition reply_datagram :: "dht_message \<Rightarrow> dht_message option result \<Rightarrow> bytes option" where
  "reply_datagram msg handled =
     (case handled of Inl _ \<Rightarrow> None
      | Inr None \<Rightarrow> None
      | Inr (Some resp) \<Rightarrow>
          (case EncodeMessage (Some (resp\<lparr>m_TxID := m_TxID msg\<rparr>)) of Inl _ \<Rightarrow> None | Inr b \<Rightarrow> Some b))"

subsection \<open>SendRequest\<close>

definition forget :: "bytes \<Rightarrow> dispatcher \<Rightarrow> dispatcher" where
  "forget tx d = d\<lparr>d_pending := (d_pending d)(tx := None)\<rparr>"

text \<open>
  Up to the wait: store the request, encode, write. An error removes the entry again (the
  deferred \<open>Delete\<close>). Times are in seconds.
\<close>

definition send_start ::
  "nat \<Rightarrow> error option \<Rightarrow> dht_message \<Rightarrow> dispatcher \<Rightarrow> dispatcher \<times> (nat \<times> bytes) result" where
  "send_start now write_err req d =
     (let h = length (d_requests d);
          pr = \<lparr>pr_tx = m_TxID req, pr_responseChan = None, pr_expiry = now + 5\<rparr>;
          d1 = d\<lparr>d_pending := (d_pending d)(m_TxID req \<mapsto> h), d_requests := d_requests d @ [pr]\<rparr>
      in case EncodeMessage (Some req) of Inl e \<Rightarrow> (forget (m_TxID req) d1, Inl e)
         | Inr data \<Rightarrow>
             (case write_err of Some e \<Rightarrow> (forget (m_TxID req) d1, Inl e)
              | None \<Rightarrow> (d1, Inr (h, data))))"

text \<open>How the wait ends; the response case is enabled when the channel holds one.\<close>

datatype wake = CtxDone error | DispatcherClosed | ResponseReady | RequestTimeout

fun send_result :: "wake \<Rightarrow> pending_request \<Rightarrow> dht_message result option" where
  "send_result (CtxDone e) pr = Some (Inl e)"
| "send_result DispatcherClosed pr = Some (Inl (ErrNew ''dispatcher closed''))"
| "send_result RequestTimeout pr = Some (Inl (ErrNew ''request timeout''))"
| "send_result ResponseReady pr = map_option Inr (pr_responseChan pr)"

definition send_finish :: "wake \<Rightarrow> nat \<Rightarrow> dispatcher \<Rightarrow> dispatcher \<times> dht_message result option" where
  "send_finish w h d =
     (let pr = d_requests d ! h in (forget (pr_tx pr) d, send_result w pr))"

text \<open>The cleanup loop's pass over the map.\<close>

definition cleanup :: "nat \<Rightarrow> dispatcher \<Rightarrow> dispatcher" where
  "cleanup now d = d\<lparr>d_pending := (\<lambda>tx. case d_pending d tx of None \<Rightarrow> None
     | Some h \<Rightarrow> if pr_expiry (d_requests d ! h) < now then None else Some h)\<rparr>"

subsection \<open>The transition system\<close>

text \<open>\<open>disp_run ds d\<close>: the state \<open>d\<close> is reachable, and \<open>ds\<close> are the datagrams received so far.\<close>

inductive disp_run :: "bytes list \<Rightarrow> dispatcher \<Rightarrow> bool" where
  start: "disp_run [] NewDispatcher"
| datagram: "disp_run ds d \<Longrightarrow> disp_run (ds @ [data]) (fst (on_datagram data src d))"
| send: "disp_run ds d \<Longrightarrow> disp_run ds (fst (send_start now werr req d))"
| finish: "disp_run ds d \<Longrightarrow> h < length (d_requests d) \<Longrightarrow> send_result w (d_requests d ! h) \<noteq> None \<Longrightarrow>
    disp_run ds (fst (send_finish w h d))"
| clean: "disp_run ds d \<Longrightarrow> disp_run ds (cleanup now d)"

definition disp_inv :: "bytes list \<Rightarrow> dispatcher \<Rightarrow> bool" where
  "disp_inv ds d \<longleftrightarrow>
     (\<forall>tx h. d_pending d tx = Some h \<longrightarrow> h < length (d_requests d) \<and> pr_tx (d_requests d ! h) = tx) \<and>
     (\<forall>pr \<in> set (d_requests d). \<forall>m. pr_responseChan pr = Some m \<longrightarrow>
        m_TxID m = pr_tx pr \<and> isResponse (m_Type m) \<and> (\<exists>data \<in> set ds. DecodeMessage data = Inr m))"

lemma disp_inv_mono: "disp_inv ds d \<Longrightarrow> set ds \<subseteq> set ds' \<Longrightarrow> disp_inv ds' d"
  unfolding disp_inv_def by blast

lemma disp_inv_forget: "disp_inv ds d \<Longrightarrow> disp_inv ds (forget tx d)"
  by (simp add: disp_inv_def forget_def)

lemma disp_inv_cleanup: "disp_inv ds d \<Longrightarrow> disp_inv ds (cleanup now d)"
  by (auto simp: disp_inv_def cleanup_def split: option.splits if_splits)

lemma disp_inv_deliver:
  assumes "disp_inv ds d" "isResponse (m_Type m)" "DecodeMessage data = Inr m" "data \<in> set ds"
  shows "disp_inv ds (deliver m d)"
proof (cases "d_pending d (m_TxID m)")
  case None
  with assms(1) show ?thesis by (simp add: deliver_def)
next
  case (Some h)
  let ?pr = "d_requests d ! h"
  from assms(1) Some have h: "h < length (d_requests d)" "pr_tx ?pr = m_TxID m"
    by (auto simp: disp_inv_def)
  show ?thesis
  proof (cases "pr_responseChan ?pr")
    case None
    have "pr \<in> set ((d_requests d)[h := ?pr\<lparr>pr_responseChan := Some m\<rparr>]) \<Longrightarrow>
        pr \<in> set (d_requests d) \<or> pr = ?pr\<lparr>pr_responseChan := Some m\<rparr>" for pr
      using set_update_subset_insert by fastforce
    with None Some assms h show ?thesis
      by (fastforce simp: disp_inv_def deliver_def Let_def nth_list_update)
  qed (use Some assms(1) in \<open>simp add: deliver_def\<close>)
qed

lemma disp_inv_send: "disp_inv ds d \<Longrightarrow> disp_inv ds (fst (send_start now werr req d))"
proof -
  assume inv: "disp_inv ds d"
  let ?pr = "\<lparr>pr_tx = m_TxID req, pr_responseChan = None, pr_expiry = now + 5\<rparr>"
  have "disp_inv ds (d\<lparr>d_pending := (d_pending d)(m_TxID req \<mapsto> length (d_requests d)),
      d_requests := d_requests d @ [?pr]\<rparr>)"
    unfolding disp_inv_def
  proof (intro conjI allI impI)
    fix tx h
    assume "d_pending (d\<lparr>d_pending := (d_pending d)(m_TxID req \<mapsto> length (d_requests d)),
      d_requests := d_requests d @ [?pr]\<rparr>) tx = Some h"
    then have "tx = m_TxID req \<and> h = length (d_requests d) \<or> d_pending d tx = Some h"
      by (auto split: if_splits)
    with inv show "h < length (d_requests (d\<lparr>d_pending := (d_pending d)(m_TxID req \<mapsto> length (d_requests d)),
      d_requests := d_requests d @ [?pr]\<rparr>))" "pr_tx (d_requests (d\<lparr>d_pending := (d_pending d)(m_TxID req \<mapsto>
      length (d_requests d)), d_requests := d_requests d @ [?pr]\<rparr>) ! h) = tx"
      by (auto simp: disp_inv_def nth_append less_Suc_eq)
  qed (use inv in \<open>auto simp: disp_inv_def\<close>)
  then show ?thesis
    by (auto simp: send_start_def Let_def disp_inv_forget split: sum.splits option.splits)
qed

lemma disp_run_inv: "disp_run ds d \<Longrightarrow> disp_inv ds d"
proof (induction rule: disp_run.induct)
  case start
  show ?case by (simp add: disp_inv_def NewDispatcher_def)
next
  case (datagram ds d data src)
  from datagram.IH have "disp_inv (ds @ [data]) d" by (rule disp_inv_mono) auto
  then show ?case by (auto simp: on_datagram_def intro: disp_inv_deliver split: sum.splits)
qed (simp_all add: disp_inv_send disp_inv_cleanup disp_inv_forget send_finish_def Let_def)

text \<open>
  C26. In every reachable state of the dispatcher, however its loops and callers interleave, the
  response a waiting request returns is a response message with the transaction ID of that
  request, decoded from a datagram that was received.
\<close>

theorem response_matches_transaction:
  assumes "disp_run ds d" "h < length (d_requests d)"
    and "snd (send_finish ResponseReady h d) = Some (Inr m)"
  shows "m_TxID m = pr_tx (d_requests d ! h) \<and> isResponse (m_Type m) \<and>
    (\<exists>data \<in> set ds. DecodeMessage data = Inr m)"
proof -
  from assms(3) have "pr_responseChan (d_requests d ! h) = Some m" by (simp add: send_finish_def Let_def)
  with disp_run_inv [OF assms(1)] assms(2) show ?thesis
    unfolding disp_inv_def by (metis nth_mem)
qed

text \<open>
  The source of a response, its sender and whether it answers the kind of request that was
  sent are not checked: any datagram from any address that decodes to any of the three response
  types and repeats the transaction ID of a request that has no response yet is returned to that
  request, and a later genuine response is dropped.
\<close>

lemma any_source_answers_request:
  fixes src src' :: net_addr
  assumes "disp_run ds d" "d_pending d tx = Some h" "pr_responseChan (d_requests d ! h) = None"
    and "DecodeMessage forged = Inr m" "isResponse (m_Type m)" "m_TxID m = tx"
    and "DecodeMessage genuine = Inr m'" "isResponse (m_Type m')" "m_TxID m' = tx"
  defines "d1 \<equiv> fst (on_datagram forged src d)"
  shows "snd (send_finish ResponseReady h d1) = Some (Inr m) \<and>
    fst (on_datagram genuine src' d1) = d1"
proof -
  from disp_run_inv [OF assms(1)] assms(2) have "h < length (d_requests d)"
    by (simp add: disp_inv_def)
  then show ?thesis
    using assms by (simp add: on_datagram_def deliver_def Let_def send_finish_def)
qed

text \<open>A FindNode request, and a Pong that takes its place.\<close>

definition one_request :: dispatcher where
  "one_request = fst (send_start 0 None (zero_message\<lparr>m_Type := MsgFindNode\<rparr>) NewDispatcher)"

definition pong_datagram :: bytes where
  "pong_datagram = replicate 4 0 @ MsgPong # zero_id"

lemma one_request_run: "disp_run [] one_request"
  unfolding one_request_def by (rule disp_run.send, rule disp_run.start)

lemma one_request_eq: "one_request = \<lparr>d_pending = [replicate 4 0 \<mapsto> 0],
    d_requests = [\<lparr>pr_tx = replicate 4 0, pr_responseChan = None, pr_expiry = 5\<rparr>]\<rparr>"
  by (simp add: one_request_def send_start_def NewDispatcher_def EncodeMessage_def encode_payload_def
      zero_message_def msg_types)

lemma decode_pong: "DecodeMessage pong_datagram = Inr (zero_message\<lparr>m_Type := MsgPong\<rparr>)"
  using decode_header [of "replicate 4 0" zero_id MsgPong "[]"]
  by (simp add: pong_datagram_def zero_id_def decode_payload_def zero_message_def)

theorem response_matches_transaction_witness:
  "m_TxID (zero_message\<lparr>m_Type := MsgPong\<rparr>) = replicate 4 0 \<and>
   snd (send_finish ResponseReady 0 (fst (on_datagram pong_datagram (OtherAddr ''x'') one_request))) =
     Some (Inr (zero_message\<lparr>m_Type := MsgPong\<rparr>))"
proof -
  let ?d = "fst (on_datagram pong_datagram (OtherAddr ''x'') one_request)"
  have r: "snd (send_finish ResponseReady 0 ?d) = Some (Inr (zero_message\<lparr>m_Type := MsgPong\<rparr>))"
    "0 < length (d_requests ?d)" "pr_tx (d_requests ?d ! 0) = replicate 4 0"
    by (simp_all add: on_datagram_def decode_pong isResponse_def deliver_def one_request_eq
        zero_message_def send_finish_def)
  from response_matches_transaction [OF disp_run.datagram [OF one_request_run] r(2,1)] r
  show ?thesis by simp
qed

end
