(* ===== verification/Dht_Node.thy ===== *)
theory Dht_Node
  imports Dht_Dispatch Dht_Registry Db_Interfaces
begin

section \<open>The DHT node (pkg/dht/dht.go)\<close>

text \<open>
  The node answers requests from its routing table and its local registry, and runs iterative
  lookups, announces and leaves. The remote nodes, the transport below \<open>SendRequest\<close>, the
  resolver and the random source are the record \<open>network\<close> over a state \<open>'w\<close>; \<open>nw_order\<close> is the
  order in which the goroutines of one round deliver their results.
\<close>

record 'w network =
  nw_rpc :: "'w \<Rightarrow> net_addr \<Rightarrow> dht_message \<Rightarrow> dht_message result \<times> 'w"
  nw_tx :: "'w \<Rightarrow> bytes \<times> 'w"
  nw_resolve :: "string \<Rightarrow> net_addr result"
  nw_order :: "'w \<Rightarrow> nat list \<Rightarrow> nat list"

record dht_node =
  n_localID :: node_id
  n_udp :: bool
  n_addr :: string
  n_routing :: routing_table
  n_registry :: swarm_registry
  n_bootstrap :: "string list"
  n_announces :: "(node_id \<times> u16) list"
  n_interval :: nat

subsection \<open>Construction\<close>

record dht_config =
  cfg_BootstrapNodes :: "string list"
  cfg_LocalID :: node_id
  cfg_Port :: int
  cfg_Transport :: "string option"
  cfg_AnnounceInterval :: int

definition bootstrap_nodes :: "string \<Rightarrow> dht_config option \<Rightarrow> string list" where
  "bootstrap_nodes env cfg =
     (if env \<noteq> [] then filter (\<lambda>p. p \<noteq> []) (map trim_space (split_on CHR '','' env))
      else case cfg of
        Some c \<Rightarrow> (if cfg_BootstrapNodes c \<noteq> [] then cfg_BootstrapNodes c
                   else [''dht1.holepunch.to:49737'', ''dht2.holepunch.to:49737'', ''dht3.holepunch.to:49737''])
      | None \<Rightarrow> [''dht1.holepunch.to:49737'', ''dht2.holepunch.to:49737'', ''dht3.holepunch.to:49737''])"

text \<open>
  \<open>env\<close> is \<open>DHT_BOOTSTRAP_NODES\<close>, \<open>random_id\<close> the value of \<open>generateLocalID\<close> and \<open>listen\<close> the
  outcome of binding the UDP port. Intervals are in nanoseconds.
\<close>

definition NewDHTNode ::
  "string \<Rightarrow> node_id \<Rightarrow> (int \<Rightarrow> string result) \<Rightarrow> dht_config option \<Rightarrow> dht_node result" where
  "NewDHTNode env random_id listen cfg =
     (let boots = bootstrap_nodes env cfg;
          localID = (case cfg of Some c \<Rightarrow> (if cfg_LocalID c \<noteq> zero_id then cfg_LocalID c else random_id)
                     | None \<Rightarrow> random_id);
          node = (\<lambda>udp addr. \<lparr>n_localID = localID, n_udp = udp, n_addr = addr,
            n_routing = NewRoutingTable localID, n_registry = NewSwarmRegistry, n_bootstrap = boots,
            n_announces = [],
            n_interval = (case cfg of Some c \<Rightarrow> (if 0 < cfg_AnnounceInterval c
                then nat (cfg_AnnounceInterval c) else 600 * 10 ^ 9) | None \<Rightarrow> 600 * 10 ^ 9)\<rparr>)
      in case (case cfg of None \<Rightarrow> None | Some c \<Rightarrow> cfg_Transport c) of
           Some addr \<Rightarrow> Inr (node False addr)
         | None \<Rightarrow>
             (case listen (case cfg of None \<Rightarrow> 0 | Some c \<Rightarrow> cfg_Port c) of
                Inl e \<Rightarrow> Inl e | Inr addr \<Rightarrow> Inr (node True addr)))"

definition SetP2PPort :: "u16 \<Rightarrow> dht_node \<Rightarrow> dht_node" where
  "SetP2PPort port n = n\<lparr>n_registry := (n_registry n)\<lparr>sr_P2PPort := port\<rparr>\<rparr>"

definition resolveAddr :: "'w network \<Rightarrow> dht_node \<Rightarrow> string \<Rightarrow> net_addr result" where
  "resolveAddr N n addr = (if n_udp n then nw_resolve N addr else Inr (OtherAddr addr))"

subsection \<open>Answering requests\<close>

definition host_of :: "string \<Rightarrow> string" where
  "host_of a = (case SplitHostPort a of Inl _ \<Rightarrow> a | Inr (h, _) \<Rightarrow> h)"

definition announced_addr :: "net_addr \<Rightarrow> u16 \<Rightarrow> string" where
  "announced_addr src port =
     (case src of
        UDPAddr ip _ \<Rightarrow> JoinHostPort ip (itoa (unat port))
      | OtherAddr s \<Rightarrow>
          (case SplitHostPort s of
             Inr (host, _) \<Rightarrow> JoinHostPort host (itoa (unat port))
           | Inl _ \<Rightarrow> s))"

definition handle_announce :: "dht_message \<Rightarrow> net_addr \<Rightarrow> swarm_registry \<Rightarrow> swarm_registry" where
  "handle_announce req src r =
     (if m_Port req = 0 then
        let host = host_of (addr_String src) in
        fold (\<lambda>p r. if host_of p = host then UnregisterPeer r (m_Topic req) p else r)
          (GetPeers r (m_Topic req)) r
      else RegisterPeer r (m_Topic req) (announced_addr src (m_Port req)))"

definition handleRequest :: "dht_message \<Rightarrow> net_addr \<Rightarrow> dht_node \<Rightarrow> dht_node \<times> dht_message option result" where
  "handleRequest req src n0 =
     (let n = n0\<lparr>n_routing := AddContact \<lparr>c_ID = m_SenderID req, c_Addr = addr_String src\<rparr> (n_routing n0)\<rparr>;
          resp = zero_message\<lparr>m_SenderID := n_localID n\<rparr>
      in if m_Type req = MsgPing then (n, Inr (Some (resp\<lparr>m_Type := MsgPong\<rparr>)))
         else if m_Type req = MsgFindNode then
           (n, Inr (Some (resp\<lparr>m_Type := MsgFindNodeResp,
                  m_Contacts := FindClosestPeers (n_routing n) (m_Target req) 20\<rparr>)))
         else if m_Type req = MsgAnnounce then
           (n\<lparr>n_registry := handle_announce req src (n_registry n)\<rparr>, Inr (Some (resp\<lparr>m_Type := MsgPong\<rparr>)))
         else if m_Type req = MsgLookup then
           (n, Inr (Some (resp\<lparr>m_Type := MsgLookupResp, m_Peers := GetPeers (n_registry n) (m_Topic req)\<rparr>)))
         else (n, Inl (ErrNew ''unhandled message type'')))"

subsection \<open>Iterative node lookup\<close>

record 'w find_state =
  fs_routing :: routing_table
  fs_list :: "contact list"
  fs_seen :: "node_id set"
  fs_queried :: "node_id set"
  fs_world :: 'w

text \<open>One request to one contact: resolve, choose a transaction ID, send, wait.\<close>

definition ask :: "'w network \<Rightarrow> dht_node \<Rightarrow> dht_message \<Rightarrow> string \<Rightarrow> 'w \<Rightarrow> dht_message result \<times> 'w" where
  "ask N n req addr w =
     (case resolveAddr N n addr of Inl e \<Rightarrow> (Inl e, w)
      | Inr a \<Rightarrow> (let (tx, w1) = nw_tx N w in nw_rpc N w1 a (req\<lparr>m_TxID := tx, m_SenderID := n_localID n\<rparr>)))"

fun ask_all :: "'w network \<Rightarrow> dht_node \<Rightarrow> dht_message \<Rightarrow> contact list \<Rightarrow> 'w \<Rightarrow>
    (contact \<times> dht_message result) list \<times> 'w" where
  "ask_all N n req [] w = ([], w)"
| "ask_all N n req (c # cs) w =
     (let (r, w1) = ask N n req (c_Addr c) w; (rs, w2) = ask_all N n req cs w1 in ((c, r) # rs, w2))"

text \<open>The contacts of one response that are new are added to the list.\<close>

definition add_new :: "node_id \<Rightarrow> contact \<Rightarrow> contact list \<times> node_id set \<Rightarrow> contact list \<times> node_id set" where
  "add_new local nc = (\<lambda>(xs, seen).
     if c_ID nc = local then (xs, seen)
     else if c_ID nc \<notin> seen then (xs @ [nc], insert (c_ID nc) seen) else (xs, seen))"

definition take_result :: "node_id \<Rightarrow> contact \<times> dht_message result \<Rightarrow> 'w find_state \<Rightarrow> 'w find_state" where
  "take_result local = (\<lambda>(c, res) s.
     (case res of
        Inl _ \<Rightarrow>
          (case first_index (\<lambda>v. c_ID v = c_ID c) (fs_list s) of None \<Rightarrow> s
           | Some i \<Rightarrow> s\<lparr>fs_list := take i (fs_list s) @ drop (i + 1) (fs_list s)\<rparr>)
      | Inr resp \<Rightarrow>
          (let (xs, seen) = fold (add_new local) (m_Contacts resp) (fs_list s, fs_seen s)
           in s\<lparr>fs_routing := AddContact c (fs_routing s), fs_list := xs, fs_seen := seen\<rparr>)))"

text \<open>One round of the loop, up to three requests at a time; \<open>None\<close> when all were queried.\<close>

definition find_round :: "'w network \<Rightarrow> dht_node \<Rightarrow> node_id \<Rightarrow> 'w find_state \<Rightarrow> 'w find_state option \<times> contact list" where
  "find_round N n target s =
     (let ordered = sort_slice (closer target) (fs_list s);
          toQuery = take 3 (filter (\<lambda>c. c_ID c \<notin> fs_queried s) ordered)
      in if toQuery = [] then (None, ordered)
         else
           let req = zero_message\<lparr>m_Type := MsgFindNode, m_Target := target\<rparr>;
               (results, w) = ask_all N n req toQuery (fs_world s);
               arrival = map ((!) results) (nw_order N w [0..<length results]);
               s1 = s\<lparr>fs_list := ordered, fs_queried := fs_queried s \<union> set (map c_ID toQuery), fs_world := w\<rparr>
           in (Some (fold (take_result (n_localID n)) arrival s1), ordered))"

partial_function (option) find_loop ::
  "'w network \<Rightarrow> dht_node \<Rightarrow> node_id \<Rightarrow> 'w find_state \<Rightarrow> (contact list \<times> 'w find_state) option" where
  "find_loop N n target s =
     (case find_round N n target s of
        (None, ordered) \<Rightarrow> Some (if 20 < length ordered then take 20 ordered else ordered, s)
      | (Some s', _) \<Rightarrow> find_loop N n target s')"

declare find_loop.simps [code]

text \<open>The result, the node with its updated routing table, and the network state.\<close>

definition iterativeFindNode ::
  "'w network \<Rightarrow> dht_node \<Rightarrow> node_id \<Rightarrow> 'w \<Rightarrow> (contact list \<times> dht_node \<times> 'w) option" where
  "iterativeFindNode N n target w =
     (let candidates = FindClosestPeers (n_routing n) target 20 in
      case find_loop N n target \<lparr>fs_routing = n_routing n, fs_list = candidates,
             fs_seen = set (map c_ID candidates), fs_queried = {}, fs_world = w\<rparr> of
        None \<Rightarrow> None
      | Some (cs, s) \<Rightarrow> Some (cs, n\<lparr>n_routing := fs_routing s\<rparr>, fs_world s))"

subsection \<open>Announce, Lookup, Leave\<close>

definition startReannounce :: "node_id \<Rightarrow> u16 \<Rightarrow> dht_node \<Rightarrow> dht_node" where
  "startReannounce topic port n =
     (if topic \<in> fst ` set (n_announces n) then n
      else n\<lparr>n_announces := n_announces n @ [(topic, port)]\<rparr>)"

definition Announce :: "'w network \<Rightarrow> dht_node \<Rightarrow> node_id \<Rightarrow> u16 \<Rightarrow> 'w \<Rightarrow> (dht_node \<times> 'w) option" where
  "Announce N n topic port0 w =
     (let port = (if port0 = 0 then sr_P2PPort (n_registry n) else port0);
          localAddr = (if n_udp n then JoinHostPort ''127.0.0.1'' (itoa (unat port)) else n_addr n);
          n1 = n\<lparr>n_registry := RegisterPeer (n_registry n) topic localAddr\<rparr>
      in case iterativeFindNode N n1 topic w of None \<Rightarrow> None
         | Some (closest, n2, w2) \<Rightarrow>
             if closest = [] then Some (startReannounce topic port n2, w2)
             else
               let (_, w3) = ask_all N n2 (zero_message\<lparr>m_Type := MsgAnnounce, m_Topic := topic, m_Port := port\<rparr>)
                     closest w2
               in Some (startReannounce topic port n2, w3))"

text \<open>A tick of the goroutine that \<open>startReannounce\<close> started, if \<open>Leave\<close> or \<open>Stop\<close> has not cancelled it.\<close>

definition reannounce_tick :: "'w network \<Rightarrow> node_id \<Rightarrow> dht_node \<Rightarrow> 'w \<Rightarrow> (dht_node \<times> 'w) option" where
  "reannounce_tick N topic n w =
     (case map_of (n_announces n) topic of None \<Rightarrow> Some (n, w) | Some port \<Rightarrow> Announce N n topic port w)"

text \<open>The peers of all answers and the local ones; the order of a Go map is not specified.\<close>

definition Lookup :: "'w network \<Rightarrow> dht_node \<Rightarrow> node_id \<Rightarrow> 'w \<Rightarrow> (string list \<times> dht_node \<times> 'w) option" where
  "Lookup N n topic w =
     (case iterativeFindNode N n topic w of None \<Rightarrow> None
      | Some (closest, n1, w1) \<Rightarrow>
          if closest = [] then Some (GetPeers (n_registry n1) topic, n1, w1)
          else
            let (rs, w2) = ask_all N n1 (zero_message\<lparr>m_Type := MsgLookup, m_Topic := topic\<rparr>) closest w1;
                answers = concat (map (\<lambda>(_, r). case r of Inl _ \<Rightarrow> [] | Inr m \<Rightarrow> m_Peers m) rs)
            in Some (remdups (answers @ GetPeers (n_registry n1) topic), n1, w2))"

definition Leave :: "'w network \<Rightarrow> dht_node \<Rightarrow> node_id \<Rightarrow> 'w \<Rightarrow> (dht_node \<times> 'w) option" where
  "Leave N n topic w =
     (let n0 = n\<lparr>n_announces := filter (\<lambda>(t, _). t \<noteq> topic) (n_announces n)\<rparr>
      in case iterativeFindNode N n0 topic w of None \<Rightarrow> None
         | Some (closest, n1, w1) \<Rightarrow>
             let (_, w2) = ask_all N n1 (zero_message\<lparr>m_Type := MsgAnnounce, m_Topic := topic, m_Port := 0\<rparr>)
                   closest w1
             in Some (n1\<lparr>n_registry := ClearSwarm (n_registry n1) topic\<rparr>, w2))"

subsection \<open>Start and Stop\<close>

text \<open>The pings to the bootstrap nodes; a node that answers enters the routing table.\<close>

fun ping_bootstrap :: "'w network \<Rightarrow> string list \<Rightarrow> dht_node \<times> 'w \<Rightarrow> dht_node \<times> 'w" where
  "ping_bootstrap N [] (n, w) = (n, w)"
| "ping_bootstrap N (a # as) (n, w) =
     (case ask N n (zero_message\<lparr>m_Type := MsgPing\<rparr>) a w of
        (Inl _, w1) \<Rightarrow> ping_bootstrap N as (n, w1)
      | (Inr resp, w1) \<Rightarrow> ping_bootstrap N as
          (n\<lparr>n_routing := AddContact \<lparr>c_ID = m_SenderID resp, c_Addr = a\<rparr> (n_routing n)\<rparr>, w1))"

definition rehydrate_one :: "'w network \<Rightarrow> node_id \<Rightarrow> dht_node \<times> 'w \<Rightarrow> (dht_node \<times> 'w) option" where
  "rehydrate_one N key = (\<lambda>(n, w).
     case Announce N n key 0 w of None \<Rightarrow> None
     | Some (n1, w1) \<Rightarrow>
         (case Lookup N n1 key w1 of None \<Rightarrow> None
          | Some (peers, n2, w2) \<Rightarrow>
              Some (n2\<lparr>n_registry := fold (\<lambda>p r. RegisterPeer r key p) peers (n_registry n2)\<rparr>, w2)))"

definition rehydrated_keys :: "string list result \<Rightarrow> node_id list" where
  "rehydrated_keys active =
     (case active of Inl _ \<Rightarrow> []
      | Inr keys \<Rightarrow> concat (map (\<lambda>k. case hex_DecodeString k of Inl _ \<Rightarrow> []
          | Inr b \<Rightarrow> (if length b \<noteq> 32 then [] else [b])) keys))"

fun rehydrateSwarms :: "'w network \<Rightarrow> node_id list \<Rightarrow> dht_node \<times> 'w \<Rightarrow> (dht_node \<times> 'w) option" where
  "rehydrateSwarms N [] nw = Some nw"
| "rehydrateSwarms N (k # ks) nw =
     (case rehydrate_one N k nw of None \<Rightarrow> None | Some nw' \<Rightarrow> rehydrateSwarms N ks nw')"

definition node_Start ::
  "'w network \<Rightarrow> string list result option \<Rightarrow> dht_node \<Rightarrow> 'w \<Rightarrow> (dht_node \<times> 'w) option" where
  "node_Start N repo n w =
     (let keys = (case repo of None \<Rightarrow> [] | Some active \<Rightarrow> rehydrated_keys active) in
      if n_bootstrap n = [] then rehydrateSwarms N keys (n, w)
      else
        let (n1, w1) = ping_bootstrap N (n_bootstrap n) (n, w) in
        case iterativeFindNode N n1 (n_localID n1) w1 of None \<Rightarrow> None
        | Some (_, n2, w2) \<Rightarrow> rehydrateSwarms N keys (n2, w2))"

definition node_Stop :: "dht_node \<Rightarrow> dht_node" where
  "node_Stop n = n\<lparr>n_announces := []\<rparr>"

subsection \<open>The node's invariant\<close>

definition node_inv :: "dht_node \<Rightarrow> bool" where
  "node_inv n \<longleftrightarrow> rt_inv (n_routing n) \<and> rt_localID (n_routing n) = n_localID n \<and> registry_inv (n_registry n)"

lemma handle_announce_unfold:
  "registry_inv r \<Longrightarrow> registry_inv (fold (\<lambda>p r. if Q p then UnregisterPeer r t p else r) ps r) \<and>
     set (GetPeers (fold (\<lambda>p r. if Q p then UnregisterPeer r t p else r) ps r) u) =
       (if u = t then set (GetPeers r t) - {p \<in> set ps. Q p} else set (GetPeers r u))"
  by (induction ps arbitrary: r)
    (auto simp: registry.peers_unregister registry.inv_unregister)

lemma handle_announce_inv: "registry_inv r \<Longrightarrow> registry_inv (handle_announce req src r)"
  using handle_announce_unfold by (simp add: handle_announce_def Let_def registry.inv_register)

lemma handleRequest_inv [keet_inv]:
  assumes "node_inv n" "length (m_SenderID req) = 32"
  shows "node_inv (fst (handleRequest req src n))"
  using assms
  by (auto simp: handleRequest_def Let_def node_inv_def AddContact_inv handle_announce_inv)

text \<open>Decoded messages always carry a 32-byte sender and 32-byte contacts.\<close>

lemma reader_read_length: "reader_read n r = Inr (b, r') \<Longrightarrow> length b = n"
  by (auto simp: reader_read_def split: if_splits)

lemma read_contacts_ids:
  "read_contacts n r = Inr (cs, r') \<Longrightarrow> list_all (\<lambda>c. length (c_ID c) = 32) cs"
  by (induction n arbitrary: r cs r')
    (auto split: sum.splits dest!: reader_read_length)

lemma decode_lengths:
  assumes "DecodeMessage data = Inr m"
  shows "length (m_SenderID m) = 32" "list_all (\<lambda>c. length (c_ID c) = 32) (m_Contacts m)"
  using assms
  by (auto simp: DecodeMessage_def decode_payload_def Let_def zero_message_def
      dest!: reader_read_length read_contacts_ids split: if_splits sum.splits list.splits)

definition serve_datagram :: "bytes \<times> net_addr \<Rightarrow> dht_node \<Rightarrow> dht_node" where
  "serve_datagram = (\<lambda>(data, src) n.
     case snd (on_datagram data src NewDispatcher) of None \<Rightarrow> n
     | Some (m, a) \<Rightarrow> fst (handleRequest m a n))"

lemma serve_datagram_inv: "node_inv n \<Longrightarrow> node_inv (serve_datagram d n)"
  by (auto simp: serve_datagram_def on_datagram_def handleRequest_inv decode_lengths
      split: prod.splits option.splits sum.splits if_splits)

text \<open>
  C24. The node keeps its invariants whatever datagrams arrive from whatever sources: the routing
  table stays well-formed (bounded buckets, no duplicates, never the local ID) and every topic
  lists distinct addresses.
\<close>

theorem node_invariant_under_traffic:
  assumes "node_inv n"
  shows "node_inv (fold serve_datagram ds n)"
  using assms by (induction ds arbitrary: n) (simp_all add: serve_datagram_inv)

subsection \<open>Announcing and leaving\<close>

text \<open>
  After an announce with a port, a lookup of the topic from anywhere lists the announcer's
  host with that port beside the addresses that were there before, and nothing else.
\<close>

lemma announce_then_lookup:
  assumes "m_Type a = MsgAnnounce" "m_Port a \<noteq> 0" "m_Type q = MsgLookup" "m_Topic q = m_Topic a"
  shows "\<exists>n' resp. handleRequest q src' (fst (handleRequest a src n)) = (n', Inr (Some resp)) \<and>
    m_Type resp = MsgLookupResp \<and>
    set (m_Peers resp) = insert (announced_addr src (m_Port a)) (set (GetPeers (n_registry n) (m_Topic a)))"
  using assms
  by (auto simp: handleRequest_def Let_def msg_types handle_announce_def GetPeers_register)

definition sample_node :: dht_node where
  "sample_node = \<lparr>n_localID = zero_id, n_udp = True, n_addr = [], n_routing = NewRoutingTable zero_id,
     n_registry = NewSwarmRegistry, n_bootstrap = [], n_announces = [], n_interval = 1\<rparr>"

lemma sample_node_inv: "node_inv sample_node"
  by (simp add: node_inv_def sample_node_def new_rt_inv zero_id_def registry_inv_def
      GetPeers_def NewSwarmRegistry_def)

theorem node_invariant_under_traffic_witness:
  "node_inv (fold serve_datagram [([1, 2], OtherAddr ''a''), (replicate 4 0 @ MsgPing # replicate 32 7, OtherAddr ''b'')]
     sample_node)"
  by (rule node_invariant_under_traffic) (rule sample_node_inv)

definition announce_msg :: "u16 \<Rightarrow> dht_message" where
  "announce_msg port = zero_message\<lparr>m_Type := MsgAnnounce, m_Port := port\<rparr>"

definition lookup_msg :: dht_message where
  "lookup_msg = zero_message\<lparr>m_Type := MsgLookup\<rparr>"

text \<open>
  C25. An announce with port 0 means leaving: every address of the sender's host (whatever its
  port, and whatever port the message came from) disappears from the topic, all other addresses
  of the topic stay, and no other topic changes.
\<close>

theorem leave_removes_host:
  assumes "registry_inv (n_registry n)" "m_Type a = MsgAnnounce" "m_Port a = 0"
  shows "set (GetPeers (n_registry (fst (handleRequest a src n))) t) =
    (if t = m_Topic a
     then {p \<in> set (GetPeers (n_registry n) t). host_of p \<noteq> host_of (addr_String src)}
     else set (GetPeers (n_registry n) t))"
proof -
  have "n_registry (fst (handleRequest a src n)) = handle_announce a src (n_registry n)"
    using assms(2) by (simp add: handleRequest_def Let_def msg_types)
  then show ?thesis
    using assms(3) handle_announce_unfold [OF assms(1)]
    by (auto simp: handle_announce_def Let_def)
qed

lemma host_of_join:
  "plain {CHR ''['', CHR '']''} ip \<Longrightarrow> host_of (JoinHostPort ip (itoa port)) = ip"
  by (simp add: host_of_def split_join_host_port itoa_plain)

theorem leave_removes_host_witness:
  "GetPeers (n_registry (fst (handleRequest (announce_msg 0) (UDPAddr ''1.2.3.4'' 5)
     (fst (handleRequest (announce_msg 80) (UDPAddr ''1.2.3.4'' 9) sample_node))))) zero_id = []"
proof -
  let ?n = "fst (handleRequest (announce_msg 80) (UDPAddr ''1.2.3.4'' 9) sample_node)"
  have pl: "plain {CHR ''['', CHR '']''} ''1.2.3.4''" by (simp add: plain_def)
  have reg: "n_registry ?n = RegisterPeer NewSwarmRegistry zero_id (JoinHostPort ''1.2.3.4'' (itoa 80))"
    by (simp add: handleRequest_def Let_def announce_msg_def zero_message_def sample_node_def msg_types
        handle_announce_def announced_addr_def)
  have "registry_inv (n_registry ?n)"
    using handleRequest_inv [OF sample_node_inv, of "announce_msg 80"]
    by (simp add: node_inv_def announce_msg_def zero_message_def zero_id_def)
  from leave_removes_host [OF this, of "announce_msg 0" "UDPAddr ''1.2.3.4'' 5" zero_id] reg
  have "set (GetPeers (n_registry (fst (handleRequest (announce_msg 0) (UDPAddr ''1.2.3.4'' 5) ?n))) zero_id) = {}"
    by (auto simp: announce_msg_def zero_message_def GetPeers_register host_of_join [OF pl])
  then show ?thesis by simp
qed

subsection \<open>Iterative lookups end\<close>

text \<open>
  What is relied on of the rest of the network: a response that \<open>SendRequest\<close> returns was decoded,
  so its contacts have 32-byte IDs, and the results of a round arrive in some order.
\<close>

definition network_ok :: "'w network \<Rightarrow> bool" where
  "network_ok N \<longleftrightarrow>
     (\<forall>w a m resp w'. nw_rpc N w a m = (Inr resp, w') \<longrightarrow> list_all (\<lambda>c. length (c_ID c) = 32) (m_Contacts resp)) \<and>
     (\<forall>w xs. mset (nw_order N w xs) = mset xs)"

definition ids32 :: "node_id set" where
  "ids32 = {x. length x = 32}"

lemma finite_ids32: "finite ids32"
  using finite_lists_length_eq [of "UNIV :: byte set" 32] by (simp add: ids32_def)

definition find_inv :: "node_id \<Rightarrow> 'w find_state \<Rightarrow> bool" where
  "find_inv local s \<longleftrightarrow> rt_inv (fs_routing s) \<and> rt_localID (fs_routing s) = local \<and>
     distinct (map c_ID (fs_list s)) \<and> c_ID ` set (fs_list s) \<subseteq> ids32 \<inter> fs_seen s \<and>
     fs_queried s \<subseteq> ids32"

lemma add_new_inv:
  "list_all (\<lambda>c. length (c_ID c) = 32) ncs \<Longrightarrow> distinct (map c_ID xs) \<Longrightarrow> c_ID ` set xs \<subseteq> ids32 \<inter> seen \<Longrightarrow>
     (case fold (add_new local) ncs (xs, seen) of (ys, seen') \<Rightarrow>
        distinct (map c_ID ys) \<and> c_ID ` set ys \<subseteq> ids32 \<inter> seen')"
proof (induction ncs arbitrary: xs seen)
  case Nil
  then show ?case by simp
next
  case (Cons c ncs)
  obtain ys seen1 where a: "add_new local c (xs, seen) = (ys, seen1)" by force
  have "distinct (map c_ID ys)" "c_ID ` set ys \<subseteq> ids32 \<inter> seen1"
    using a Cons.prems by (auto simp: add_new_def ids32_def image_subset_iff split: if_splits)
  with Cons.IH [of ys seen1] Cons.prems(1) a show ?case by simp
qed

lemma take_result_inv:
  assumes "find_inv local s" "length (c_ID (fst cr)) = 32"
    and "\<And>resp. snd cr = Inr resp \<Longrightarrow> list_all (\<lambda>c. length (c_ID c) = 32) (m_Contacts resp)"
  shows "find_inv local (take_result local cr s) \<and> fs_queried (take_result local cr s) = fs_queried s"
proof (cases cr)
  case (Pair c r)
  show ?thesis
  proof (cases r)
    case (Inl e)
    have rm: "distinct (map c_ID (take i xs @ drop (i + 1) xs)) \<and> c_ID ` set (take i xs @ drop (i + 1) xs) \<subseteq> c_ID ` set xs"
      if "distinct (map c_ID xs)" "i < length xs" for i xs
    proof -
      have "distinct (map c_ID (take i xs @ xs ! i # drop (i + 1) xs))"
        using that by (simp add: id_take_nth_drop [symmetric])
      then show ?thesis
        by (auto dest: in_set_takeD in_set_dropD)
    qed
    show ?thesis
    proof (cases "first_index (\<lambda>v. c_ID v = c_ID c) (fs_list s)")
      case None
      with Pair Inl assms(1) show ?thesis by (simp add: take_result_def)
    next
      case (Some i)
      then have "i < length (fs_list s)" by (simp add: first_index_Some)
      define ys where "ys = take i (fs_list s) @ drop (i + 1) (fs_list s)"
      have ys: "distinct (map c_ID ys)" "c_ID ` set ys \<subseteq> c_ID ` set (fs_list s)"
        using rm [of "fs_list s" i] assms(1) \<open>i < length (fs_list s)\<close> by (simp_all add: find_inv_def ys_def)
      have "take_result local cr s = s\<lparr>fs_list := ys\<rparr>"
        using Some by (simp add: Pair Inl take_result_def ys_def)
      moreover have "c_ID ` set ys \<subseteq> ids32 \<inter> fs_seen s"
        using ys(2) assms(1) unfolding find_inv_def by (meson subset_trans)
      ultimately show ?thesis using assms(1) ys(1) by (simp add: find_inv_def)
    qed
  next
    case (Inr resp)
    obtain xs seen where f: "fold (add_new local) (m_Contacts resp) (fs_list s, fs_seen s) = (xs, seen)" by force
    with add_new_inv [of "m_Contacts resp" "fs_list s" "fs_seen s" local] assms Pair Inr
    have "distinct (map c_ID xs)" "c_ID ` set xs \<subseteq> ids32 \<inter> seen" by (simp_all add: find_inv_def)
    with assms Pair Inr f show ?thesis
      by (simp add: find_inv_def take_result_def AddContact_inv)
  qed
qed

lemma fold_take_result_inv:
  assumes "find_inv local s"
    and "\<forall>(c, r) \<in> set crs. length (c_ID c) = 32 \<and> (\<forall>resp. r = Inr resp \<longrightarrow> list_all (\<lambda>c. length (c_ID c) = 32) (m_Contacts resp))"
  shows "find_inv local (fold (take_result local) crs s) \<and>
    fs_queried (fold (take_result local) crs s) = fs_queried s"
  using assms
proof (induction crs arbitrary: s)
  case Nil
  then show ?case by simp
next
  case (Cons cr crs)
  have "find_inv local (take_result local cr s) \<and> fs_queried (take_result local cr s) = fs_queried s"
    by (rule take_result_inv) (use Cons.prems in \<open>auto split: prod.splits\<close>)
  with Cons show ?case by simp
qed

lemma ask_ok:
  "network_ok N \<Longrightarrow> ask N n req a w = (Inr resp, w') \<Longrightarrow> list_all (\<lambda>c. length (c_ID c) = 32) (m_Contacts resp)"
  by (auto simp: ask_def network_ok_def split: sum.splits prod.splits) (metis list_all_iff)+

lemma ask_all_ok:
  assumes "network_ok N" "ask_all N n req cs w = (rs, w')"
  shows "map fst rs = cs \<and>
    (\<forall>(c, r) \<in> set rs. \<forall>resp. r = Inr resp \<longrightarrow> list_all (\<lambda>c. length (c_ID c) = 32) (m_Contacts resp))"
  using assms(2)
proof (induction cs arbitrary: w rs w')
  case Nil
  then show ?case by simp
next
  case (Cons c cs)
  obtain r w1 where a: "ask N n req (c_Addr c) w = (r, w1)" by force
  obtain rs' w2 where b: "ask_all N n req cs w1 = (rs', w2)" by force
  from Cons.prems a b have "rs = (c, r) # rs'" by simp
  moreover note Cons.IH [OF b]
  ultimately show ?case using ask_ok [OF assms(1) a [THEN trans]] a assms(1) ask_ok by fastforce
qed

lemma arrival_set:
  assumes "mset (ord [0..<length rs]) = mset [0..<length rs]"
  shows "set (map ((!) rs) (ord [0..<length rs])) = set rs"
proof -
  have "set (ord [0..<length rs]) = {0..<length rs}" using mset_eq_setD [OF assms] by simp
  then have "set (map ((!) rs) (ord [0..<length rs])) = (!) rs ` {0..<length rs}" by simp
  also have "\<dots> = set rs" by (auto simp: set_conv_nth)
  finally show ?thesis .
qed

lemma find_round_inv:
  assumes "network_ok N" "find_inv (n_localID n) s" "find_round N n target s = (Some s', ordered)"
  shows "find_inv (n_localID n) s' \<and> fs_queried s \<subset> fs_queried s'"
proof -
  define ord where "ord = sort_slice (closer target) (fs_list s)"
  define q where "q = take 3 (filter (\<lambda>c. c_ID c \<notin> fs_queried s) ord)"
  define req where "req = zero_message\<lparr>m_Type := MsgFindNode, m_Target := target\<rparr>"
  obtain rs w where a: "ask_all N n req q (fs_world s) = (rs, w)" by force
  define s1 where "s1 = s\<lparr>fs_list := ord, fs_queried := fs_queried s \<union> set (map c_ID q), fs_world := w\<rparr>"
  define arr where "arr = map ((!) rs) (nw_order N w [0..<length rs])"
  from assms(3) a have q: "q \<noteq> []" and s': "s' = fold (take_result (n_localID n)) arr s1"
    unfolding find_round_def Let_def ord_def [symmetric] q_def [symmetric] req_def [symmetric]
    by (auto simp: s1_def arr_def split: if_splits)
  have qsub: "c \<in> set (fs_list s) \<and> c_ID c \<notin> fs_queried s" if "c \<in> set q" for c
    using in_set_takeD [of c 3 "filter (\<lambda>c. c_ID c \<notin> fs_queried s) ord"] that
    by (simp add: q_def ord_def)
  from assms(2) have inv: "distinct (map c_ID (fs_list s))" "c_ID ` set (fs_list s) \<subseteq> ids32"
    by (simp_all add: find_inv_def)
  have "mset (map c_ID ord) = mset (map c_ID (fs_list s))" "set ord = set (fs_list s)"
    by (simp_all add: ord_def)
  then have "distinct (map c_ID ord)" using inv(1) mset_eq_imp_distinct_iff by blast
  moreover have len: "length (c_ID c) = 32" if "c \<in> set q" for c
    using qsub [OF that] inv(2) by (auto simp: ids32_def)
  ultimately have inv1: "find_inv (n_localID n) s1"
    using assms(2) \<open>set ord = set (fs_list s)\<close> by (auto simp: find_inv_def s1_def ids32_def)
  have "set arr = set rs"
    unfolding arr_def by (rule arrival_set) (use assms(1) in \<open>simp add: network_ok_def\<close>)
  moreover have "fst ` set rs = set q" using ask_all_ok [OF assms(1) a] by (metis set_map)
  then have "length (c_ID c) = 32" if "(c, r) \<in> set rs" for c r
    using len [of c] that by force
  ultimately have "find_inv (n_localID n) s' \<and> fs_queried s' = fs_queried s1"
    unfolding s' using ask_all_ok [OF assms(1) a]
    by (intro fold_take_result_inv [OF inv1]) auto
  moreover from q have "hd q \<in> set q" by simp
  with qsub [of "hd q"] have "fs_queried s \<subset> fs_queried s1" by (auto simp: s1_def)
  ultimately show ?thesis by simp
qed

lemma find_round_end:
  assumes "find_round N n target s = (None, ordered)"
  shows "ordered = sort_slice (closer target) (fs_list s)" "\<forall>c \<in> set ordered. c_ID c \<in> fs_queried s"
  using assms by (auto simp: find_round_def Let_def filter_empty_conv split: if_splits prod.splits)

lemma find_loop_total:
  assumes "network_ok N" "find_inv (n_localID n) s"
  shows "\<exists>s'. find_inv (n_localID n) s' \<and>
    find_loop N n target s = Some (take 20 (sort_slice (closer target) (fs_list s')), s') \<and>
    (\<forall>c \<in> set (fs_list s'). c_ID c \<in> fs_queried s')"
  using assms(2)
proof (induction "card (ids32 - fs_queried s)" arbitrary: s rule: less_induct)
  case less
  obtain r ordered where r: "find_round N n target s = (r, ordered)" by force
  show ?case
  proof (cases r)
    case None
    with r find_round_end [of N n target s ordered] less.prems show ?thesis
      by (auto simp: find_loop.simps [of N n target s] not_less)
  next
    case (Some s1)
    with r find_round_inv [OF assms(1) less.prems] have s1: "find_inv (n_localID n) s1"
      "fs_queried s \<subset> fs_queried s1" by simp_all
    then have "ids32 - fs_queried s1 \<subset> ids32 - fs_queried s" by (auto simp: find_inv_def)
    then have "card (ids32 - fs_queried s1) < card (ids32 - fs_queried s)"
      by (intro psubset_card_mono) (simp_all add: finite_ids32)
    from less.hyps [OF this s1(1)] r Some show ?thesis
      by (simp add: find_loop.simps [of N n target s])
  qed
qed

lemma sort_closer_strict:
  assumes "distinct (map c_ID xs)" "c_ID ` set xs \<subseteq> ids32" "length target = 32"
  shows "sorted_wrt (closer target) (sort_slice (closer target) xs)"
proof -
  let ?f = "dist_num target"
  have cl: "closer target a b \<longleftrightarrow> ?f a < ?f b" if "a \<in> set xs" "b \<in> set xs" for a b
    using that assms(2,3) by (intro closer_num) (auto simp: ids32_def)
  have "inj_on ?f (set xs)"
  proof (rule inj_onI)
    fix a b
    assume ab: "a \<in> set xs" "b \<in> set xs" "?f a = ?f b"
    then have "length (c_ID a) = length target" "length (c_ID b) = length target"
      using assms(2,3) by (auto simp: ids32_def)
    with ab(3) have "c_ID a = c_ID b" by (simp add: dist_num_inject)
    with ab assms(1) show "a = b" by (auto simp: distinct_map dest: inj_onD)
  qed
  with assms(1) have "sorted_wrt (\<lambda>a b. ?f a < ?f b) (sort_key ?f xs)"
    by (intro strict_sorted_sort_key) (simp_all add: distinct_map)
  moreover have "sort_slice (closer target) xs = sort_key ?f xs"
    using sort_slice_cong [of xs "closer target" "\<lambda>a b. ?f a < ?f b"] cl by (simp add: sort_slice_key)
  ultimately show ?thesis
    by (auto intro: sorted_wrt_mono_rel [rotated] simp: cl)
qed

lemma iterativeFindNode_total:
  assumes "network_ok N" "node_inv n" "length target = 32"
  obtains cs n' w' where "iterativeFindNode N n target w = Some (cs, n', w')" "node_inv n'"
    "n_registry n' = n_registry n" "length cs \<le> 20" "sorted_wrt (closer target) cs"
    "distinct (map c_ID cs)"
proof -
  let ?c = "FindClosestPeers (n_routing n) target 20"
  let ?s = "\<lparr>fs_routing = n_routing n, fs_list = ?c, fs_seen = set (map c_ID ?c), fs_queried = {}, fs_world = w\<rparr>"
  have inv: "rt_inv (n_routing n)" "rt_localID (n_routing n) = n_localID n" using assms(2) by (simp_all add: node_inv_def)
  have sub: "set ?c \<subseteq> set (all_contacts (n_routing n))"
    using FindClosestPeers_sort_key [OF inv(1) assms(3)]
    by (auto dest: in_set_takeD)
  have "distinct (map c_ID ?c)"
  proof -
    let ?srt = "sort_key (dist_num target) (all_contacts (n_routing n))"
    have "mset (map c_ID ?srt) = mset (map c_ID (all_contacts (n_routing n)))" by simp
    with all_contacts_distinct [OF inv(1)] have "distinct (map c_ID ?srt)"
      using mset_eq_imp_distinct_iff by blast
    then have "distinct (take 20 (map c_ID ?srt))" by (rule distinct_take)
    then show ?thesis by (simp add: FindClosestPeers_sort_key [OF inv(1) assms(3)] take_map)
  qed
  moreover have "c_ID ` set ?c \<subseteq> ids32"
    using sub all_contacts_ok [OF inv(1)] by (auto simp: contact_ok_def ids32_def)
  ultimately have "find_inv (n_localID n) ?s" using inv by (simp add: find_inv_def)
  from find_loop_total [OF assms(1) this, of target] obtain s' where s': "find_inv (n_localID n) s'"
    "find_loop N n target ?s = Some (take 20 (sort_slice (closer target) (fs_list s')), s')" by blast
  let ?cs = "take 20 (sort_slice (closer target) (fs_list s'))"
  have "sorted_wrt (closer target) ?cs"
    by (rule sorted_wrt_take, rule sort_closer_strict) (use s'(1) assms(3) in \<open>auto simp: find_inv_def\<close>)
  moreover have "distinct (map c_ID ?cs)"
  proof -
    have "mset (map c_ID (sort_slice (closer target) (fs_list s'))) = mset (map c_ID (fs_list s'))" by simp
    with s'(1) have "distinct (map c_ID (sort_slice (closer target) (fs_list s')))"
      unfolding find_inv_def using mset_eq_imp_distinct_iff by blast
    then have "distinct (take 20 (map c_ID (sort_slice (closer target) (fs_list s'))))" by (rule distinct_take)
    then show ?thesis by (simp add: take_map)
  qed
  ultimately show thesis
    using that [of ?cs "n\<lparr>n_routing := fs_routing s'\<rparr>" "fs_world s'"] s' assms(2)
    by (simp add: iterativeFindNode_def Let_def find_inv_def node_inv_def)
qed

text \<open>
  C23. Every lookup ends, whatever the queried nodes answer and in whatever order: the loop asks
  each discovered node at most once and there are finitely many 32-byte IDs. It returns at most
  20 contacts, none twice, in increasing distance to the target, and the node keeps its
  invariants and its registry.
\<close>

theorem iterative_lookup_terminates:
  assumes "network_ok N" "node_inv n" "length target = 32"
  shows "\<exists>cs n' w'. iterativeFindNode N n target w = Some (cs, n', w') \<and> node_inv n' \<and>
    n_registry n' = n_registry n \<and> length cs \<le> 20 \<and> sorted_wrt (closer target) cs \<and>
    distinct (map c_ID cs)"
  by (rule iterativeFindNode_total [OF assms, of w]) blast

text \<open>A network in which every node answers with one contact.\<close>

definition tiny_network :: "unit network" where
  "tiny_network = \<lparr>nw_rpc = (\<lambda>w a m. (Inr (zero_message\<lparr>m_Type := MsgFindNodeResp,
       m_Contacts := [\<lparr>c_ID = replicate 32 9, c_Addr = ''n9''\<rparr>]\<rparr>), w)),
     nw_tx = (\<lambda>w. (replicate 4 0, w)), nw_resolve = (\<lambda>a. Inr (OtherAddr a)), nw_order = (\<lambda>w xs. rev xs)\<rparr>"

lemma tiny_network_ok: "network_ok tiny_network"
  by (auto simp: network_ok_def tiny_network_def)

theorem iterative_lookup_terminates_witness:
  "\<exists>cs n' w'. iterativeFindNode tiny_network
     (sample_node\<lparr>n_routing := AddContact \<lparr>c_ID = replicate 32 1, c_Addr = ''n1''\<rparr> (NewRoutingTable zero_id)\<rparr>)
     zero_id () = Some (cs, n', w') \<and> length cs \<le> 20"
proof -
  let ?n = "sample_node\<lparr>n_routing := AddContact \<lparr>c_ID = replicate 32 1, c_Addr = ''n1''\<rparr> (NewRoutingTable zero_id)\<rparr>"
  have "node_inv ?n"
    using sample_node_inv AddContact_inv [OF new_rt_inv, of zero_id "\<lparr>c_ID = replicate 32 1, c_Addr = ''n1''\<rparr>"]
    by (simp add: node_inv_def zero_id_def sample_node_def)
  from iterative_lookup_terminates [OF tiny_network_ok this, of zero_id "()"] show ?thesis
    by (auto simp: zero_id_def)
qed

text \<open>So announces, lookups and leaves always return, and keep the node's invariants.\<close>

lemma startReannounce_inv: "node_inv n \<Longrightarrow> node_inv (startReannounce t p n)"
  by (simp add: startReannounce_def node_inv_def)

lemma Announce_total:
  assumes "network_ok N" "node_inv n" "length topic = 32"
  obtains n' w' where "Announce N n topic port w = Some (n', w')" "node_inv n'"
    "\<exists>a. set (GetPeers (n_registry n') topic) = insert a (set (GetPeers (n_registry n) topic))"
proof -
  let ?port = "if port = 0 then sr_P2PPort (n_registry n) else port"
  let ?a = "if n_udp n then JoinHostPort ''127.0.0.1'' (itoa (unat ?port)) else n_addr n"
  let ?n = "n\<lparr>n_registry := RegisterPeer (n_registry n) topic ?a\<rparr>"
  have inv: "node_inv ?n" using assms(2) by (simp add: node_inv_def registry.inv_register)
  obtain cs n2 w2 where f: "iterativeFindNode N ?n topic w = Some (cs, n2, w2)" "node_inv n2"
    "n_registry n2 = n_registry ?n" using iterativeFindNode_total [OF assms(1) inv assms(3)] by metis
  have reg: "n_registry (startReannounce topic ?port n2) = n_registry ?n"
    using f(3) by (simp add: startReannounce_def)
  have peers: "set (GetPeers (n_registry ?n) topic) = insert ?a (set (GetPeers (n_registry n) topic))"
    using assms(2) by (simp add: node_inv_def registry.peers_register)
  have "\<exists>w3. Announce N n topic port w = Some (startReannounce topic ?port n2, w3)"
    using f(1) by (cases "cs = []") (simp_all add: Announce_def Let_def split_def)
  then show thesis
    using that startReannounce_inv [OF f(2)] peers unfolding reg [symmetric] by blast
qed

lemma Lookup_total:
  assumes "network_ok N" "node_inv n" "length topic = 32"
  obtains peers n' w' where "Lookup N n topic w = Some (peers, n', w')" "node_inv n'"
    "n_registry n' = n_registry n"
proof -
  obtain cs n1 w1 where f: "iterativeFindNode N n topic w = Some (cs, n1, w1)" "node_inv n1" "n_registry n1 = n_registry n"
    using iterativeFindNode_total [OF assms] by metis
  obtain rs w2 where "ask_all N n1 (zero_message\<lparr>m_Type := MsgLookup, m_Topic := topic\<rparr>) cs w1 = (rs, w2)" by force
  with f(1) have "\<exists>peers w'. Lookup N n topic w = Some (peers, n1, w')" by (simp add: Lookup_def Let_def)
  with f(2,3) that show ?thesis by blast
qed

lemma Leave_total:
  assumes "network_ok N" "node_inv n" "length topic = 32"
  obtains n' w' where "Leave N n topic w = Some (n', w')" "node_inv n'"
    "GetPeers (n_registry n') topic = []" "topic \<notin> fst ` set (n_announces n')"
proof -
  let ?n = "n\<lparr>n_announces := filter (\<lambda>(t, _). t \<noteq> topic) (n_announces n)\<rparr>"
  have inv: "node_inv ?n" using assms(2) by (simp add: node_inv_def)
  obtain cs n1 w1 where f: "iterativeFindNode N ?n topic w = Some (cs, n1, w1)" "node_inv n1"
    using iterativeFindNode_total [OF assms(1) inv assms(3)] by metis
  have ann: "n_announces n1 = n_announces ?n"
    using f(1) by (auto simp: iterativeFindNode_def Let_def split: option.splits prod.splits)
  have "\<exists>w2. Leave N n topic w = Some (n1\<lparr>n_registry := ClearSwarm (n_registry n1) topic\<rparr>, w2)"
    using f(1) by (simp add: Leave_def Let_def split_def)
  then obtain w2 where l: "Leave N n topic w = Some (n1\<lparr>n_registry := ClearSwarm (n_registry n1) topic\<rparr>, w2)" ..
  show thesis
    by (rule that [OF l])
      (use f(2) ann in \<open>auto simp: node_inv_def registry.inv_clear GetPeers_clear\<close>)
qed

subsection \<open>Re-announcing\<close>

lemma iterativeFindNode_announces:
  "iterativeFindNode N n topic w = Some (cs, n', w') \<Longrightarrow> n_announces n' = n_announces n"
  by (auto simp: iterativeFindNode_def Let_def split: option.splits prod.splits)

lemma Announce_announces:
  assumes "Announce N n topic port w = Some (n', w')"
  shows "n_announces n' = (if topic \<in> fst ` set (n_announces n) then n_announces n
    else n_announces n @ [(topic, if port = 0 then sr_P2PPort (n_registry n) else port)])"
  using assms
  by (auto simp: Announce_def Let_def startReannounce_def dest!: iterativeFindNode_announces
      split: option.splits prod.splits if_splits)

text \<open>A tick returns, keeps the invariant, and neither starts nor ends a re-announcement.\<close>

lemma reannounce_tick_total:
  assumes "network_ok N" "node_inv n" "length topic = 32"
  obtains n' w' where "reannounce_tick N topic n w = Some (n', w')" "node_inv n'" "n_announces n' = n_announces n"
proof (cases "map_of (n_announces n) topic")
  case None
  then show thesis using assms(2) that [of n w] by (simp add: reannounce_tick_def)
next
  case (Some port)
  then have "topic \<in> fst ` set (n_announces n)" by (force dest: map_of_SomeD)
  moreover obtain n' w' where "Announce N n topic port w = Some (n', w')" "node_inv n'"
    using Announce_total [OF assms] by metis
  ultimately show thesis using Some that Announce_announces [of N n topic port w] by (simp add: reannounce_tick_def)
qed

text \<open>
  After \<open>Leave\<close> no tick does anything. But \<open>Announce\<close> starts the re-announcement last: when \<open>Leave\<close> comes
  between the search and the end of an \<open>Announce\<close> of the same topic (that of a tick, say), the topic is
  announced again from then on.
\<close>

lemma left_topic_is_not_reannounced:
  assumes "Leave N n topic w = Some (n1, w1)"
  shows "reannounce_tick N topic n1 w1 = Some (n1, w1)"
proof -
  have "topic \<notin> fst ` set (n_announces n1)"
    using assms by (auto simp: Leave_def Let_def dest!: iterativeFindNode_announces split: option.splits prod.splits)
  then have "map_of (n_announces n1) topic = None" by (simp add: map_of_eq_None_iff)
  then show ?thesis by (simp add: reannounce_tick_def)
qed

lemma leave_during_announce_is_undone:
  assumes "Leave N n topic w = Some (n1, w1)"
  shows "reannounce_tick N topic (startReannounce topic port n1) w1 = Announce N (startReannounce topic port n1) topic port w1"
proof -
  have out: "topic \<notin> fst ` set (n_announces n1)"
    using assms by (auto simp: Leave_def Let_def dest!: iterativeFindNode_announces split: option.splits prod.splits)
  then have "map_of (n_announces n1) topic = None" by (simp add: map_of_eq_None_iff)
  then show ?thesis using out by (simp add: reannounce_tick_def startReannounce_def map_add_def)
qed

end
