(* ===== verification/Net_Proto.thy ===== *)
theory Net_Proto
  imports Keet_Prelude
begin

section \<open>Protocol buffer messages (pkg/network/protobuf.go)\<close>

text \<open>
  Hand-written encoders and decoders for five Hypercore messages: varints, tagged fields, and a
  field loop with a handler per message. Go's \<open>int\<close> has 64 bits, so the sum of an offset and a
  length taken from the input is computed on words and read back as a signed number.
\<close>

definition MaxProtobufFrameLength :: nat where "MaxProtobufFrameLength = 8 * 1024 * 1024"

record pb_feed =
  feed_DiscoveryKey :: bytes

record pb_handshake =
  pbh_Protocol :: string
  pbh_Key :: bytes
  pbh_Extensions :: "string list"
  pbh_Live :: bool
  pbh_UserData :: bytes

record pb_request =
  pbr_Index :: u64
  pbr_Bytes :: u64
  pbr_Hash :: bool
  pbr_Nodes :: u64

record pb_data =
  pbd_Index :: u64
  pbd_Value :: bytes
  pbd_Signature :: bytes

record pb_cancel =
  pbc_Index :: u64
  pbc_Bytes :: u64

subsection \<open>Varints\<close>

function encodeVarint :: "u64 \<Rightarrow> bytes" where
  "encodeVarint val =
     (if 0x80 \<le> val then ucast (val OR 0x80) # encodeVarint (drop_bit 7 val) else [ucast val])"
  by pat_completeness auto
termination
proof (relation "measure unat")
  fix val :: u64
  assume "0x80 \<le> val"
  then have "0 < unat val" by (auto simp: word_le_nat_alt)
  then have "unat val div 2 ^ 7 < unat val" by (intro div_less_dividend) simp_all
  moreover have "unat (drop_bit 7 val) = unat val div 2 ^ 7" by (rule unat_drop_bit_div)
  ultimately have "unat (drop_bit 7 val) < unat val" by (simp only:)
  then show "(drop_bit 7 val, val) \<in> measure unat" by (simp only: in_measure)
qed simp

declare encodeVarint.simps [simp del]

fun varint_loop :: "bytes \<Rightarrow> u64 \<Rightarrow> nat \<Rightarrow> nat \<Rightarrow> (u64 \<times> nat) result" where
  "varint_loop [] val shift i = Inl UnexpectedEOF"
| "varint_loop (b # data) val shift i =
     (let val' = val OR push_bit shift (ucast (b AND 0x7f)) in
      if b AND 0x80 = 0 then Inr (val', i + 1)
      else if 64 \<le> shift + 7 then Inl (ErrNew ''varint overflow'')
      else varint_loop data val' (shift + 7) (i + 1))"

definition decodeVarint :: "bytes \<Rightarrow> (u64 \<times> nat) result" where
  "decodeVarint data = varint_loop data 0 0 0"

definition encodeTag :: "nat \<Rightarrow> nat \<Rightarrow> bytes" where
  "encodeTag fieldNumber wireType = encodeVarint (of_nat (push_bit 3 fieldNumber OR wireType))"

definition encodeBytes :: "nat \<Rightarrow> bytes \<Rightarrow> bytes" where
  "encodeBytes fieldNumber val = encodeTag fieldNumber 2 @ encodeVarint (of_nat (length val)) @ val"

definition encodeString :: "nat \<Rightarrow> string \<Rightarrow> bytes" where
  "encodeString fieldNumber val = encodeBytes fieldNumber (bytes_of_string val)"

definition encodeUint64 :: "nat \<Rightarrow> u64 \<Rightarrow> bytes" where
  "encodeUint64 fieldNumber val = encodeTag fieldNumber 0 @ encodeVarint val"

definition encodeBool :: "nat \<Rightarrow> bool \<Rightarrow> bytes" where
  "encodeBool fieldNumber val = encodeUint64 fieldNumber (if val then 1 else 0)"

subsection \<open>The field loop\<close>

lemma varint_loop_count:
  "varint_loop data val shift i = Inr (v, n) \<Longrightarrow> i < n \<and> n \<le> i + length data"
  by (induction data val shift i rule: varint_loop.induct) (fastforce simp: Let_def split: if_splits)+

lemma decodeVarint_count: "decodeVarint data = Inr (v, n) \<Longrightarrow> 0 < n \<and> n \<le> length data"
  using varint_loop_count [of data 0 0 0 v n] by (simp add: decodeVarint_def)

text \<open>A handler gets the field number, the wire type, the bytes and the varint of one field.\<close>

type_synonym 'm field_handler = "nat \<Rightarrow> nat \<Rightarrow> bytes \<Rightarrow> u64 \<Rightarrow> 'm \<Rightarrow> 'm result"

function unmarshal_loop :: "bytes \<Rightarrow> 'm field_handler \<Rightarrow> nat \<Rightarrow> 'm \<Rightarrow> 'm result" where
  "unmarshal_loop data h offset m =
     (if offset < length data then
        (case decodeVarint (drop offset data) of Inl e \<Rightarrow> Inl e
         | Inr (tag, n) \<Rightarrow>
           let offset1 = offset + n;
               fieldNum = unat (drop_bit 3 tag);
               wireType = unat (tag AND 7)
           in if wireType = 0 then
                (case decodeVarint (drop offset1 data) of Inl e \<Rightarrow> Inl e
                 | Inr (val, n) \<Rightarrow>
                     (case h fieldNum wireType [] val m of Inl e \<Rightarrow> Inl e
                      | Inr m' \<Rightarrow> unmarshal_loop data h (offset1 + n) m'))
              else if wireType = 2 then
                (case decodeVarint (drop offset1 data) of Inl e \<Rightarrow> Inl e
                 | Inr (len, n) \<Rightarrow>
                   let offset2 = offset1 + n;
                       stop = sint (of_nat offset2 + len :: u64)
                   in if int (length data) < stop
                      then Inl (ErrNew ''unexpected EOF reading length-delimited field'')
                      else (case go_slice (int offset2) stop data of Inl e \<Rightarrow> Inl e
                       | Inr val \<Rightarrow>
                           (case h fieldNum wireType val 0 m of Inl e \<Rightarrow> Inl e
                            | Inr m' \<Rightarrow> unmarshal_loop data h (nat stop) m')))
              else Inl (ErrNew ''unsupported wire type''))
      else Inr m)"
  by pat_completeness auto
termination
  by (relation "measure (\<lambda>(data, h, offset, m). length data - offset)")
    (auto simp: go_slice_def dest!: decodeVarint_count split: if_splits)

declare unmarshal_loop.simps [simp del]

definition unmarshalFields :: "bytes \<Rightarrow> 'm field_handler \<Rightarrow> 'm \<Rightarrow> 'm result" where
  "unmarshalFields data h m =
     (if MaxProtobufFrameLength < length data then Inl (ErrNew ''protobuf frame exceeds max size limit'')
      else unmarshal_loop data h 0 m)"

subsection \<open>Feed\<close>

definition Feed_Marshal :: "pb_feed \<Rightarrow> bytes result" where
  "Feed_Marshal f =
     (if MaxProtobufFrameLength < length (feed_DiscoveryKey f)
      then Inl (ErrNew ''discovery key length exceeds limit'')
      else Inr (if feed_DiscoveryKey f \<noteq> [] then encodeBytes 1 (feed_DiscoveryKey f) else []))"

definition feed_field :: "pb_feed field_handler" where
  "feed_field k w v x f = Inr (if k = 1 \<and> w = 2 then f\<lparr>feed_DiscoveryKey := v\<rparr> else f)"

definition Feed_Unmarshal :: "bytes \<Rightarrow> pb_feed \<Rightarrow> pb_feed result" where
  "Feed_Unmarshal data f = unmarshalFields data feed_field f"

subsection \<open>Handshake\<close>

definition Handshake_Validate :: "pb_handshake \<Rightarrow> error option" where
  "Handshake_Validate h =
     (if pbh_Protocol h = [] then Some (ErrNew ''protocol cannot be empty'')
      else if length (pbh_Key h) \<noteq> 32 then Some (ErrNew ''key must be exactly 32 bytes'')
      else None)"

definition handshake_fields :: "pb_handshake \<Rightarrow> bytes" where
  "handshake_fields h =
     (if pbh_Protocol h \<noteq> [] then encodeString 1 (pbh_Protocol h) else [])
     @ (if pbh_Key h \<noteq> [] then encodeBytes 2 (pbh_Key h) else [])
     @ concat (map (encodeString 3) (pbh_Extensions h))
     @ (if pbh_Live h then encodeBool 4 (pbh_Live h) else [])
     @ (if pbh_UserData h \<noteq> [] then encodeBytes 5 (pbh_UserData h) else [])"

definition Handshake_Marshal :: "pb_handshake \<Rightarrow> bytes result" where
  "Handshake_Marshal h =
     (let buf = handshake_fields h in
      if MaxProtobufFrameLength < length buf
      then Inl (ErrNew ''serialized handshake exceeds maximum limit'') else Inr buf)"

definition handshake_field :: "pb_handshake field_handler" where
  "handshake_field k w v x h = Inr
     (if k = 1 then (if w = 2 then h\<lparr>pbh_Protocol := string_of_bytes v\<rparr> else h)
      else if k = 2 then (if w = 2 then h\<lparr>pbh_Key := v\<rparr> else h)
      else if k = 3 then (if w = 2 then h\<lparr>pbh_Extensions := pbh_Extensions h @ [string_of_bytes v]\<rparr> else h)
      else if k = 4 then (if w = 0 then h\<lparr>pbh_Live := (x \<noteq> 0)\<rparr> else h)
      else if k = 5 then (if w = 2 then h\<lparr>pbh_UserData := v\<rparr> else h)
      else h)"

definition Handshake_Unmarshal :: "bytes \<Rightarrow> pb_handshake \<Rightarrow> pb_handshake result" where
  "Handshake_Unmarshal data h = unmarshalFields data handshake_field h"

subsection \<open>Request, Data, Cancel\<close>

definition Request_Marshal :: "pb_request \<Rightarrow> bytes result" where
  "Request_Marshal r =
     Inr (encodeUint64 1 (pbr_Index r) @ encodeUint64 2 (pbr_Bytes r)
          @ (if pbr_Hash r then encodeBool 3 (pbr_Hash r) else [])
          @ (if 0 < pbr_Nodes r then encodeUint64 4 (pbr_Nodes r) else []))"

definition request_field :: "pb_request field_handler" where
  "request_field k w v x r = Inr
     (if k = 1 then (if w = 0 then r\<lparr>pbr_Index := x\<rparr> else r)
      else if k = 2 then (if w = 0 then r\<lparr>pbr_Bytes := x\<rparr> else r)
      else if k = 3 then (if w = 0 then r\<lparr>pbr_Hash := (x \<noteq> 0)\<rparr> else r)
      else if k = 4 then (if w = 0 then r\<lparr>pbr_Nodes := x\<rparr> else r)
      else r)"

definition Request_Unmarshal :: "bytes \<Rightarrow> pb_request \<Rightarrow> pb_request result" where
  "Request_Unmarshal data r = unmarshalFields data request_field r"

definition data_fields :: "pb_data \<Rightarrow> bytes" where
  "data_fields d = encodeUint64 1 (pbd_Index d)
     @ (if pbd_Value d \<noteq> [] then encodeBytes 2 (pbd_Value d) else [])
     @ (if pbd_Signature d \<noteq> [] then encodeBytes 4 (pbd_Signature d) else [])"

definition Data_Marshal :: "pb_data \<Rightarrow> bytes result" where
  "Data_Marshal d =
     (if MaxProtobufFrameLength < length (pbd_Value d)
      then Inl (ErrNew ''data value length exceeds limit'')
      else let buf = data_fields d in
        if MaxProtobufFrameLength < length buf
        then Inl (ErrNew ''serialized data exceeds maximum limit'') else Inr buf)"

definition data_field :: "pb_data field_handler" where
  "data_field k w v x d = Inr
     (if k = 1 then (if w = 0 then d\<lparr>pbd_Index := x\<rparr> else d)
      else if k = 2 then (if w = 2 then d\<lparr>pbd_Value := v\<rparr> else d)
      else if k = 4 then (if w = 2 then d\<lparr>pbd_Signature := v\<rparr> else d)
      else d)"

definition Data_Unmarshal :: "bytes \<Rightarrow> pb_data \<Rightarrow> pb_data result" where
  "Data_Unmarshal data d =
     (if MaxProtobufFrameLength < length data then Inl (ErrNew ''data frame exceeds maximum limit'')
      else unmarshalFields data data_field d)"

definition Cancel_Marshal :: "pb_cancel \<Rightarrow> bytes result" where
  "Cancel_Marshal c = Inr (encodeUint64 1 (pbc_Index c) @ encodeUint64 2 (pbc_Bytes c))"

definition cancel_field :: "pb_cancel field_handler" where
  "cancel_field k w v x c = Inr
     (if k = 1 then (if w = 0 then c\<lparr>pbc_Index := x\<rparr> else c)
      else if k = 2 then (if w = 0 then c\<lparr>pbc_Bytes := x\<rparr> else c)
      else c)"

definition Cancel_Unmarshal :: "bytes \<Rightarrow> pb_cancel \<Rightarrow> pb_cancel result" where
  "Cancel_Unmarshal data c = unmarshalFields data cancel_field c"

subsection \<open>Varints decode\<close>

lemma and_7f: "(b :: byte) AND 0x7f = take_bit 7 b"
  by (simp add: take_bit_eq_mask mask_numeral)

lemma bit_80: "7 < LENGTH('a) \<Longrightarrow> bit (0x80 :: 'a::len word) n \<longleftrightarrow> n = 7"
proof -
  assume "7 < LENGTH('a)"
  moreover have "bit (push_bit 7 (1 :: 'a word)) n \<longleftrightarrow> n = 7 \<and> n < LENGTH('a)"
    by (subst bit_push_bit_iff) (auto simp: bit_1_iff)
  moreover have "push_bit 7 (1 :: 'a word) = 0x80" by (simp add: push_bit_of_1)
  ultimately show ?thesis by auto
qed

lemma bit_80_at: "bit (0x80 :: byte) n \<longleftrightarrow> n = 7" "bit (0x80 :: u64) n \<longleftrightarrow> n = 7"
  by (rule bit_80, simp)+

lemma and_80: "(b :: byte) AND 0x80 = 0 \<longleftrightarrow> \<not> bit b 7"
proof -
  have *: "bit (b AND 0x80) n \<longleftrightarrow> bit b n \<and> n = 7" for n by (simp only: bit_and_iff bit_80_at)
  have "b AND 0x80 = 0" if "\<not> bit b 7"
    by (rule bit_word_eqI) (use that in \<open>simp only: * bit_0_eq bot_apply bot_bool_def, blast\<close>)
  moreover have "\<not> bit b 7" if "b AND 0x80 = 0"
    using *[of 7] unfolding that by simp
  ultimately show ?thesis by blast
qed

lemma bit_or_80: "bit (v OR 0x80 :: u64) n \<longleftrightarrow> bit v n \<or> n = 7"
  by (simp only: bit_or_iff bit_80_at)

lemma varint_loop_encode:
  "unat v < 2 ^ (64 - shift) \<Longrightarrow> shift < 64 \<Longrightarrow>
     varint_loop (encodeVarint v @ r) val shift i =
       Inr (val OR push_bit shift v, i + length (encodeVarint v))"
proof (induction v arbitrary: shift val i rule: encodeVarint.induct)
  case (1 v)
  show ?case
  proof (cases "0x80 \<le> v")
    case False
    then have "unat v < 2 ^ 7" by (simp add: word_le_nat_alt not_le)
    then have lo: "take_bit 7 v = v" by (rule take_bit_unat)
    then have lt: "bit v n \<Longrightarrow> n < 7" for n by (metis bit_take_bit_iff)
    then have nb: "\<not> bit v 7" by blast
    have "ucast ((ucast v :: byte) AND 0x7f) = v"
      unfolding and_7f by (rule bit_word_eqI) (use lt in \<open>fastforce simp: bit_simps\<close>)
    with False nb show ?thesis
      by (simp add: encodeVarint.simps [of v] and_80 bit_simps)
  next
    case True
    have "7 < 64 - shift"
    proof (rule ccontr)
      assume "\<not> 7 < 64 - shift"
      then have "(2::nat) ^ (64 - shift) \<le> 2 ^ 7" by (intro power_increasing) simp_all
      with "1.prems"(1) True show False by (simp add: word_le_nat_alt)
    qed
    then have sh: "shift + 7 < 64" by simp
    have "unat (drop_bit 7 v) = unat v div 2 ^ 7" by (rule unat_drop_bit_div)
    moreover have "64 - shift = (64 - (shift + 7)) + 7" using sh by simp
    then have "(2::nat) ^ (64 - shift) = 2 ^ (64 - (shift + 7)) * 2 ^ 7"
      by (simp only: power_add)
    ultimately have "unat (drop_bit 7 v) < 2 ^ (64 - (shift + 7))"
      using "1.prems"(1) by (simp add: less_mult_imp_div_less)
    note IH = "1.IH" [OF True this sh]
    have hi: "bit (ucast (v OR 0x80) :: byte) 7" "\<not> (ucast (v OR 0x80) :: byte) AND 0x80 = 0"
      by (simp_all add: and_80 bit_unsigned_iff bit_or_80 del: bit_or_iff)
    have "push_bit shift (ucast ((ucast (v OR 0x80) :: byte) AND 0x7f)) OR push_bit (shift + 7) (drop_bit 7 v) =
        push_bit shift v"
      unfolding and_7f
    proof (rule bit_word_eqI)
      fix n :: nat
      assume n: "n < LENGTH(64)"
      consider "n < shift" | "shift \<le> n" "n < shift + 7" | "shift + 7 \<le> n" by linarith
      then show "bit (push_bit shift (ucast (take_bit 7 (ucast (v OR 0x80) :: byte)))
          OR push_bit (shift + 7) (drop_bit 7 v)) n = bit (push_bit shift v) n"
      proof cases
        case 2
        then have "n - shift < 7" by linarith
        with 2 n show ?thesis
          by (simp add: bit_or_iff [of "push_bit _ _"] bit_push_bit_iff bit_unsigned_iff bit_take_bit_iff
              bit_drop_bit_eq bit_or_80)
      next
        case 3
        then have "7 + (n - (shift + 7)) = n - shift" "\<not> n - shift < 7" "shift \<le> n" by linarith+
        with 3 n show ?thesis by (simp add: bit_simps)
      qed (use n in \<open>simp add: bit_simps\<close>)
    qed
    with hi sh IH True show ?thesis
      by (simp add: encodeVarint.simps [of v] Let_def or.assoc)
  qed
qed

lemma decode_encodeVarint [simp]:
  "decodeVarint (encodeVarint v @ r) = Inr (v, length (encodeVarint v))"
  using varint_loop_encode [of v 0 r 0 0] unsigned_less [of v, where 'a = nat]
  by (simp add: decodeVarint_def)

lemma length_encodeVarint: "length (encodeVarint v) \<le> 10"
proof -
  have *: "unat v < 2 ^ (7 * n) \<Longrightarrow> 0 < n \<Longrightarrow> length (encodeVarint v) \<le> n" for n v
  proof (induction v arbitrary: n rule: encodeVarint.induct)
    case (1 v)
    show ?case
    proof (cases "0x80 \<le> v")
      case True
      then have "0x80 \<le> unat v" by (simp add: word_le_nat_alt)
      with "1.prems" have "n \<noteq> 1" by auto
      with "1.prems"(2) obtain k where k: "n = Suc k" "0 < k" by (cases n) auto
      have "unat (drop_bit 7 v) < 2 ^ (7 * k)"
        using "1.prems"(1) k(1) unat_drop_bit_div [of 7 v]
        by (simp add: power_add less_mult_imp_div_less)
      from "1.IH" [OF True this k(2)] True k(1) show ?thesis by (simp add: encodeVarint.simps [of v])
    qed (use "1.prems"(2) in \<open>simp add: encodeVarint.simps [of v]\<close>)
  qed
  have "unat v < 2 ^ 64" using unsigned_less [of v, where 'a = nat] by simp
  also have "(2::nat) ^ 64 \<le> 2 ^ (7 * 10)" by (rule power_increasing) simp_all
  finally show ?thesis by (rule *) simp
qed

subsection \<open>Fields decode\<close>

text \<open>Tags of small field numbers and the three wire types in use.\<close>

definition tag_ok :: "nat \<Rightarrow> bool" where
  "tag_ok k \<longleftrightarrow> 0 < k \<and> k < 16"

lemma tag_parts:
  assumes "tag_ok k" "w \<in> {0, 2}"
  shows "unat (drop_bit 3 (of_nat (push_bit 3 k OR w) :: u64)) = k"
    "unat ((of_nat (push_bit 3 k OR w) :: u64) AND 7) = w"
proof -
  have "\<forall>w \<in> set [0, 2]. \<forall>k \<in> set [1..<16].
      unat (drop_bit 3 (of_nat (push_bit 3 k OR w) :: u64)) = k \<and>
      unat ((of_nat (push_bit 3 k OR w) :: u64) AND 7) = w" by code_simp
  moreover have "k \<in> set [1..<16]" "w \<in> set [0, 2]" using assms by (simp_all add: tag_ok_def)
  ultimately show "unat (drop_bit 3 (of_nat (push_bit 3 k OR w) :: u64)) = k"
    "unat ((of_nat (push_bit 3 k OR w) :: u64) AND 7) = w" by blast+
qed

text \<open>The loop with \<open>pre\<close> read and \<open>rest\<close> unread.\<close>

definition fields_from :: "'m field_handler \<Rightarrow> bytes \<Rightarrow> bytes \<Rightarrow> 'm \<Rightarrow> 'm result" where
  "fields_from h pre rest m = unmarshal_loop (pre @ rest) h (length pre) m"

lemma fields_from_end [simp]: "fields_from h pre [] m = Inr m"
  by (simp add: fields_from_def unmarshal_loop.simps [of "pre @ []"] unmarshal_loop.simps [of pre])

lemma encodeVarint_ne [simp]: "encodeVarint v \<noteq> []"
  by (simp add: encodeVarint.simps [of v])

text \<open>A tag of \<open>k\<close> and \<open>w\<close> that the loop has before it.\<close>

definition tag_bytes :: "nat \<Rightarrow> nat \<Rightarrow> bytes \<Rightarrow> bool" where
  "tag_bytes k w t \<longleftrightarrow> t \<noteq> [] \<and> (\<exists>tag. (\<forall>x. decodeVarint (t @ x) = Inr (tag, length t)) \<and>
     unat (drop_bit 3 tag) = k \<and> unat (tag AND 7) = w)"

lemma encodeTag_bytes: "tag_ok k \<Longrightarrow> w \<in> {0, 2} \<Longrightarrow> tag_bytes k w (encodeTag k w)"
  unfolding tag_bytes_def encodeTag_def
  by (intro conjI exI [of _ "of_nat (push_bit 3 k OR w)"]) (simp_all add: tag_parts)

lemma loop_uint:
  assumes "tag_bytes k 0 t"
  shows "unmarshal_loop (pre @ t @ encodeVarint v @ rest) h (length pre) m =
    (case h k 0 [] v m of Inl e \<Rightarrow> Inl e
     | Inr m' \<Rightarrow> unmarshal_loop (pre @ t @ encodeVarint v @ rest) h
         (length pre + length t + length (encodeVarint v)) m')"
  using assms by (subst unmarshal_loop.simps) (auto simp: tag_bytes_def Let_def)

lemma fields_from_uint:
  assumes "tag_ok k"
  shows "fields_from h pre (encodeUint64 k v @ rest) m =
    (case h k 0 [] v m of Inl e \<Rightarrow> Inl e | Inr m' \<Rightarrow> fields_from h (pre @ encodeUint64 k v) rest m')"
  by (simp add: fields_from_def encodeUint64_def loop_uint [OF encodeTag_bytes [OF assms, of 0, simplified]]
      add.assoc split: sum.split)

lemma sint_of_nat_small: "n < 2 ^ 63 \<Longrightarrow> sint (of_nat n :: u64) = int n"
  by (simp add: sint_uint unsigned_of_nat signed_take_bit_int_eq_self take_bit_nat_eq_self)

lemma loop_bytes:
  assumes "tag_bytes k 2 t" "length (pre @ t @ encodeVarint (of_nat (length v)) @ v) < 2 ^ 63"
  shows "unmarshal_loop (pre @ t @ encodeVarint (of_nat (length v)) @ v @ rest) h (length pre) m =
    (case h k 2 v 0 m of Inl e \<Rightarrow> Inl e
     | Inr m' \<Rightarrow> unmarshal_loop (pre @ t @ encodeVarint (of_nat (length v)) @ v @ rest) h
         (length pre + length t + length (encodeVarint (of_nat (length v))) + length v) m')"
proof -
  let ?l = "encodeVarint (of_nat (length v))"
  let ?o = "length pre + length t + length ?l"
  have stop: "sint (of_nat ?o + of_nat (length v) :: u64) = int (?o + length v)"
    using assms(2) sint_of_nat_small [of "?o + length v"] by (simp only: of_nat_add length_append add.assoc)
  have slice: "go_slice (int ?o) (int (?o + length v)) (pre @ t @ ?l @ v @ rest) = Inr v"
    by (simp add: go_slice_def gslice_def flip: of_nat_add)
  from assms(1) obtain tag where tag: "t \<noteq> []" "\<And>x. decodeVarint (t @ x) = Inr (tag, length t)"
    "unat (drop_bit 3 tag) = k" "unat (tag AND 7) = 2" by (auto simp: tag_bytes_def)
  show ?thesis
    by (subst unmarshal_loop.simps)
      (simp add: tag Let_def stop [unfolded of_nat_add] slice [unfolded of_nat_add] nat_add_distrib
        split: sum.split)
qed

lemma fields_from_bytes:
  assumes "tag_ok k" "length (pre @ encodeBytes k v @ rest) \<le> MaxProtobufFrameLength"
  shows "fields_from h pre (encodeBytes k v @ rest) m =
    (case h k 2 v 0 m of Inl e \<Rightarrow> Inl e | Inr m' \<Rightarrow> fields_from h (pre @ encodeBytes k v) rest m')"
  using assms loop_bytes [OF encodeTag_bytes [OF assms(1), of 2], of pre v rest h m]
  by (simp add: fields_from_def encodeBytes_def add.assoc MaxProtobufFrameLength_def split: sum.split)

lemma fields_from_opt:
  assumes "tag_ok k" "length (pre @ (if c then encodeBytes k v else []) @ rest) \<le> MaxProtobufFrameLength"
    and "c \<Longrightarrow> h k 2 v 0 m = Inr m'" "\<not> c \<Longrightarrow> m' = m"
  shows "fields_from h pre ((if c then encodeBytes k v else []) @ rest) m =
    fields_from h (pre @ (if c then encodeBytes k v else [])) rest m'"
  using assms fields_from_bytes [OF assms(1), of pre v rest h m] by (cases c) simp_all

lemma fields_from_uint_opt:
  assumes "tag_ok k" "c \<Longrightarrow> h k 0 [] v m = Inr m'" "\<not> c \<Longrightarrow> m' = m"
  shows "fields_from h pre ((if c then encodeUint64 k v else []) @ rest) m =
    fields_from h (pre @ (if c then encodeUint64 k v else [])) rest m'"
  using assms fields_from_uint [OF assms(1), of h pre v rest m] by (cases c) simp_all

lemma unmarshalFields_from:
  "length data \<le> MaxProtobufFrameLength \<Longrightarrow> unmarshalFields data h m = fields_from h [] data m"
  by (simp add: unmarshalFields_def fields_from_def)

lemma handshake_field_simps [simp]:
  "handshake_field (Suc 0) 2 v x h = Inr (h\<lparr>pbh_Protocol := string_of_bytes v\<rparr>)"
  "handshake_field 2 2 v x h = Inr (h\<lparr>pbh_Key := v\<rparr>)"
  "handshake_field 3 2 v x h = Inr (h\<lparr>pbh_Extensions := pbh_Extensions h @ [string_of_bytes v]\<rparr>)"
  "handshake_field 4 0 v x h = Inr (h\<lparr>pbh_Live := (x \<noteq> 0)\<rparr>)"
  "handshake_field 5 2 v x h = Inr (h\<lparr>pbh_UserData := v\<rparr>)"
  by (simp_all add: handshake_field_def)

lemma tag_ok_simps [simp]: "tag_ok (Suc 0)" "tag_ok 2" "tag_ok 3" "tag_ok 4" "tag_ok 5"
  by (simp_all add: tag_ok_def)

lemma extensions_from:
  "length (pre @ concat (map (encodeString 3) xs) @ rest) \<le> MaxProtobufFrameLength \<Longrightarrow>
     fields_from handshake_field pre (concat (map (encodeString 3) xs) @ rest) m =
     fields_from handshake_field (pre @ concat (map (encodeString 3) xs)) rest
       (m\<lparr>pbh_Extensions := pbh_Extensions m @ xs\<rparr>)"
proof (induction xs arbitrary: pre m)
  case Nil
  then show ?case by simp
next
  case (Cons x xs)
  from Cons.prems fields_from_bytes [of 3 pre "bytes_of_string x" "concat (map (encodeString 3) xs) @ rest"
      handshake_field m] Cons.IH [of "pre @ encodeString 3 x"]
  show ?case by (simp add: encodeString_def [of 3 x])
qed

subsection \<open>Messages\<close>

definition zero_handshake :: pb_handshake where
  "zero_handshake = \<lparr>pbh_Protocol = [], pbh_Key = [], pbh_Extensions = [], pbh_Live = False, pbh_UserData = []\<rparr>"

lemma handshake_back:
  assumes "Handshake_Marshal h = Inr b"
  shows "Handshake_Unmarshal b zero_handshake = Inr h"
proof -
  from assms have b: "b = handshake_fields h" and len: "length (handshake_fields h) \<le> MaxProtobufFrameLength"
    by (auto simp: Handshake_Marshal_def Let_def split: if_splits)
  define f1 where "f1 = (if pbh_Protocol h \<noteq> [] then encodeBytes 1 (bytes_of_string (pbh_Protocol h)) else [])"
  define f2 where "f2 = (if pbh_Key h \<noteq> [] then encodeBytes 2 (pbh_Key h) else [])"
  define f3 where "f3 = concat (map (encodeString 3) (pbh_Extensions h))"
  define f4 where "f4 = (if pbh_Live h then encodeUint64 4 1 else [])"
  define f5 where "f5 = (if pbh_UserData h \<noteq> [] then encodeBytes 5 (pbh_UserData h) else [])"
  have all: "handshake_fields h = f1 @ f2 @ f3 @ f4 @ f5 @ []"
    by (simp add: handshake_fields_def f1_def f2_def f3_def f4_def f5_def encodeString_def encodeBool_def)
  with len have len': "length ([] @ f1 @ f2 @ f3 @ f4 @ f5 @ []) \<le> MaxProtobufFrameLength" by simp
  let ?m1 = "zero_handshake\<lparr>pbh_Protocol := pbh_Protocol h\<rparr>"
  let ?m2 = "?m1\<lparr>pbh_Key := pbh_Key h\<rparr>"
  let ?m3 = "?m2\<lparr>pbh_Extensions := pbh_Extensions h\<rparr>"
  let ?m4 = "?m3\<lparr>pbh_Live := pbh_Live h\<rparr>"
  let ?U = "fields_from handshake_field"
  have "?U [] (f1 @ f2 @ f3 @ f4 @ f5 @ []) zero_handshake = ?U ([] @ f1) (f2 @ f3 @ f4 @ f5 @ []) ?m1"
    unfolding f1_def by (rule fields_from_opt) (use len' in \<open>simp_all add: f1_def zero_handshake_def\<close>)
  also have "\<dots> = ?U (([] @ f1) @ f2) (f3 @ f4 @ f5 @ []) ?m2"
    unfolding f2_def by (rule fields_from_opt) (use len' in \<open>simp_all add: f2_def zero_handshake_def\<close>)
  also have "\<dots> = ?U ((([] @ f1) @ f2) @ f3) (f4 @ f5 @ []) ?m3"
    unfolding f3_def by (subst extensions_from) (use len' in \<open>simp_all add: f3_def zero_handshake_def\<close>)
  also have "\<dots> = ?U (((([] @ f1) @ f2) @ f3) @ f4) (f5 @ []) ?m4"
    unfolding f4_def by (rule fields_from_uint_opt) (simp_all add: zero_handshake_def)
  also have "\<dots> = ?U ((((([] @ f1) @ f2) @ f3) @ f4) @ f5) [] (?m4\<lparr>pbh_UserData := pbh_UserData h\<rparr>)"
    unfolding f5_def by (rule fields_from_opt) (use len' in \<open>simp_all add: f5_def zero_handshake_def\<close>)
  also have "\<dots> = Inr h" by (simp add: zero_handshake_def)
  finally show ?thesis
    using len by (simp add: b Handshake_Unmarshal_def unmarshalFields_from all)
qed

definition zero_data :: pb_data where
  "zero_data = \<lparr>pbd_Index = 0, pbd_Value = [], pbd_Signature = []\<rparr>"

lemma data_field_simps [simp]:
  "data_field (Suc 0) 0 v x d = Inr (d\<lparr>pbd_Index := x\<rparr>)"
  "data_field 2 2 v x d = Inr (d\<lparr>pbd_Value := v\<rparr>)"
  "data_field 4 2 v x d = Inr (d\<lparr>pbd_Signature := v\<rparr>)"
  by (simp_all add: data_field_def)

lemma data_back:
  assumes "Data_Marshal d = Inr b"
  shows "Data_Unmarshal b zero_data = Inr d"
proof -
  from assms have b: "b = data_fields d" and len: "length (data_fields d) \<le> MaxProtobufFrameLength"
    by (auto simp: Data_Marshal_def Let_def split: if_splits)
  define f1 where "f1 = encodeUint64 1 (pbd_Index d)"
  define f2 where "f2 = (if pbd_Value d \<noteq> [] then encodeBytes 2 (pbd_Value d) else [])"
  define f3 where "f3 = (if pbd_Signature d \<noteq> [] then encodeBytes 4 (pbd_Signature d) else [])"
  have all: "data_fields d = f1 @ f2 @ f3 @ []" by (simp add: data_fields_def f1_def f2_def f3_def)
  with len have len': "length ([] @ f1 @ f2 @ f3 @ []) \<le> MaxProtobufFrameLength" by simp
  let ?U = "fields_from data_field"
  let ?m1 = "zero_data\<lparr>pbd_Index := pbd_Index d\<rparr>"
  let ?m2 = "?m1\<lparr>pbd_Value := pbd_Value d\<rparr>"
  have "?U [] (f1 @ f2 @ f3 @ []) zero_data = ?U ([] @ f1) (f2 @ f3 @ []) ?m1"
    unfolding f1_def by (subst fields_from_uint) simp_all
  also have "\<dots> = ?U (([] @ f1) @ f2) (f3 @ []) ?m2"
    unfolding f2_def by (rule fields_from_opt) (use len' in \<open>simp_all add: f2_def zero_data_def\<close>)
  also have "\<dots> = ?U ((([] @ f1) @ f2) @ f3) [] (?m2\<lparr>pbd_Signature := pbd_Signature d\<rparr>)"
    unfolding f3_def by (rule fields_from_opt) (use len' in \<open>simp_all add: f3_def zero_data_def\<close>)
  also have "\<dots> = Inr d" by (simp add: zero_data_def)
  finally show ?thesis
    using len by (simp add: b Data_Unmarshal_def unmarshalFields_from all)
qed

definition zero_request :: pb_request where
  "zero_request = \<lparr>pbr_Index = 0, pbr_Bytes = 0, pbr_Hash = False, pbr_Nodes = 0\<rparr>"

lemma request_field_simps [simp]:
  "request_field (Suc 0) 0 v x r = Inr (r\<lparr>pbr_Index := x\<rparr>)"
  "request_field 2 0 v x r = Inr (r\<lparr>pbr_Bytes := x\<rparr>)"
  "request_field 3 0 v x r = Inr (r\<lparr>pbr_Hash := (x \<noteq> 0)\<rparr>)"
  "request_field 4 0 v x r = Inr (r\<lparr>pbr_Nodes := x\<rparr>)"
  by (simp_all add: request_field_def)

lemma length_encodeUint64: "length (encodeUint64 k v) \<le> 20"
  using length_encodeVarint [of v] length_encodeVarint [of "of_nat (push_bit 3 k OR 0)"]
  by (simp add: encodeUint64_def encodeTag_def)

lemma request_back:
  assumes "Request_Marshal r = Inr b"
  shows "Request_Unmarshal b zero_request = Inr r"
proof -
  define f1 where "f1 = encodeUint64 1 (pbr_Index r)"
  define f2 where "f2 = encodeUint64 2 (pbr_Bytes r)"
  define f3 where "f3 = (if pbr_Hash r then encodeUint64 3 1 else [])"
  define f4 where "f4 = (if 0 < pbr_Nodes r then encodeUint64 4 (pbr_Nodes r) else [])"
  have b: "b = f1 @ f2 @ f3 @ f4 @ []"
    using assms by (auto simp: Request_Marshal_def f1_def f2_def f3_def f4_def encodeBool_def)
  have "length f1 \<le> 20" "length f2 \<le> 20" "length f3 \<le> 20" "length f4 \<le> 20"
    unfolding f1_def f2_def f3_def f4_def using length_encodeUint64 by simp_all
  then have len: "length b \<le> MaxProtobufFrameLength" by (simp add: b MaxProtobufFrameLength_def)
  let ?U = "fields_from request_field"
  let ?m1 = "zero_request\<lparr>pbr_Index := pbr_Index r\<rparr>"
  let ?m2 = "?m1\<lparr>pbr_Bytes := pbr_Bytes r\<rparr>"
  let ?m3 = "?m2\<lparr>pbr_Hash := pbr_Hash r\<rparr>"
  have "?U [] (f1 @ f2 @ f3 @ f4 @ []) zero_request = ?U ([] @ f1) (f2 @ f3 @ f4 @ []) ?m1"
    unfolding f1_def by (subst fields_from_uint) simp_all
  also have "\<dots> = ?U (([] @ f1) @ f2) (f3 @ f4 @ []) ?m2"
    unfolding f2_def by (subst fields_from_uint) simp_all
  also have "\<dots> = ?U ((([] @ f1) @ f2) @ f3) (f4 @ []) ?m3"
    unfolding f3_def by (rule fields_from_uint_opt) (simp_all add: zero_request_def)
  also have "\<dots> = ?U (((([] @ f1) @ f2) @ f3) @ f4) [] (?m3\<lparr>pbr_Nodes := pbr_Nodes r\<rparr>)"
    unfolding f4_def by (rule fields_from_uint_opt) (simp_all add: zero_request_def word_gt_0)
  also have "\<dots> = Inr r" by (simp add: zero_request_def)
  finally show ?thesis using len by (simp add: b Request_Unmarshal_def unmarshalFields_from)
qed

lemma cancel_back:
  assumes "Cancel_Marshal c = Inr b"
  shows "Cancel_Unmarshal b \<lparr>pbc_Index = 0, pbc_Bytes = 0\<rparr> = Inr c"
proof -
  define f1 where "f1 = encodeUint64 1 (pbc_Index c)"
  define f2 where "f2 = encodeUint64 2 (pbc_Bytes c)"
  have b: "b = f1 @ f2 @ []" using assms by (auto simp: Cancel_Marshal_def f1_def f2_def)
  have "length f1 \<le> 20" "length f2 \<le> 20"
    unfolding f1_def f2_def using length_encodeUint64 by simp_all
  then have len: "length b \<le> MaxProtobufFrameLength" by (simp add: b MaxProtobufFrameLength_def)
  have "fields_from cancel_field [] (f1 @ f2 @ []) \<lparr>pbc_Index = 0, pbc_Bytes = 0\<rparr> = Inr c"
    unfolding f1_def f2_def by (simp add: fields_from_uint cancel_field_def del: append_Nil2)
  then show ?thesis using len by (simp add: b Cancel_Unmarshal_def unmarshalFields_from)
qed

lemma feed_back:
  assumes "Feed_Marshal f = Inr b" "length b \<le> MaxProtobufFrameLength"
  shows "Feed_Unmarshal b \<lparr>feed_DiscoveryKey = []\<rparr> = Inr f"
proof -
  from assms(1) have b: "b = (if feed_DiscoveryKey f \<noteq> [] then encodeBytes 1 (feed_DiscoveryKey f) else []) @ []"
    by (auto simp: Feed_Marshal_def split: if_splits)
  have "fields_from feed_field [] ((if feed_DiscoveryKey f \<noteq> [] then encodeBytes 1 (feed_DiscoveryKey f) else []) @ [])
      \<lparr>feed_DiscoveryKey = []\<rparr> =
    fields_from feed_field ([] @ (if feed_DiscoveryKey f \<noteq> [] then encodeBytes 1 (feed_DiscoveryKey f) else [])) [] f"
    by (rule fields_from_opt) (use assms(2) in \<open>simp_all add: b feed_field_def\<close>)
  then show ?thesis using assms(2) by (simp add: b Feed_Unmarshal_def unmarshalFields_from)
qed

text \<open>
  C29. Every message that can be marshalled is recovered exactly by unmarshalling it into an empty
  message (for a feed, provided the frame with its header stays within the 8 MB limit, which
  \<open>Marshal\<close> checks for the key alone).
\<close>

theorem protobuf_roundtrip:
  "(Handshake_Marshal h = Inr b \<longrightarrow> Handshake_Unmarshal b zero_handshake = Inr h) \<and>
   (Data_Marshal d = Inr b \<longrightarrow> Data_Unmarshal b zero_data = Inr d) \<and>
   (Request_Marshal r = Inr b \<longrightarrow> Request_Unmarshal b zero_request = Inr r) \<and>
   (Cancel_Marshal c = Inr b \<longrightarrow> Cancel_Unmarshal b \<lparr>pbc_Index = 0, pbc_Bytes = 0\<rparr> = Inr c) \<and>
   (Feed_Marshal f = Inr b \<and> length b \<le> MaxProtobufFrameLength \<longrightarrow>
      Feed_Unmarshal b \<lparr>feed_DiscoveryKey = []\<rparr> = Inr f)"
  using handshake_back data_back request_back cancel_back feed_back by blast

theorem protobuf_roundtrip_witness:
  "\<exists>b. Data_Marshal \<lparr>pbd_Index = 300, pbd_Value = [1, 2], pbd_Signature = []\<rparr> = Inr b \<and>
     Data_Unmarshal b zero_data = Inr \<lparr>pbd_Index = 300, pbd_Value = [1, 2], pbd_Signature = []\<rparr>"
proof -
  let ?d = "\<lparr>pbd_Index = 300, pbd_Value = [1, 2], pbd_Signature = []\<rparr> :: pb_data"
  have "length (data_fields ?d) \<le> MaxProtobufFrameLength"
    using length_encodeUint64 [of 1 300] length_encodeVarint [of 2]
      length_encodeVarint [of "of_nat (push_bit 3 2 OR 2)"]
    by (simp add: data_fields_def encodeBytes_def encodeTag_def MaxProtobufFrameLength_def)
  then have "Data_Marshal ?d = Inr (data_fields ?d)"
    by (simp add: Data_Marshal_def Let_def MaxProtobufFrameLength_def)
  with protobuf_roundtrip [of undefined "data_fields ?d" ?d] show ?thesis by blast
qed

lemma sint_top_bit: "2 ^ 63 \<le> unat (w :: u64) \<Longrightarrow> sint w < 0"
proof (rule ccontr)
  assume top: "2 ^ 63 \<le> unat w" and "\<not> sint w < 0"
  then have s: "0 \<le> sint w" "sint w < 2 ^ 63" using sint_lt [of w] by simp_all
  then have "uint w = sint w" by (simp add: uint_sint take_bit_int_eq_self)
  moreover have "int (unat w) = uint w" by (rule of_nat_unat)
  ultimately have "int (unat w) < 2 ^ 63" using s(2) by linarith
  with top show False by simp
qed

lemma sint_sum_negative:
  assumes "2 ^ 63 \<le> unat (len :: u64)" "0 < n" "n \<le> 20"
  shows "sint (of_nat n + len) < int n"
proof -
  let ?w = "of_nat n + len"
  have un: "unat (of_nat n :: u64) = n" using assms(3) by (simp add: unat_of_nat)
  have ul: "unat len < 2 ^ 64" using unsigned_less [of len, where 'a = nat] by simp
  show ?thesis
  proof (cases "n + unat len < 2 ^ 64")
    case True
    then have "unat ?w = n + unat len" using un by (simp add: unat_word_ariths)
    with assms(1) have "sint ?w < 0" by (intro sint_top_bit) simp
    with assms(2) show ?thesis by linarith
  next
    case False
    then have "(n + unat len) mod 2 ^ 64 = n + unat len - 2 ^ 64"
      using assms(3) ul by (subst le_mod_geq) simp_all
    then have w: "unat ?w = n + unat len - 2 ^ 64" using un by (simp add: unat_word_ariths)
    then have lt: "unat ?w < n" using ul assms(2) by linarith
    with assms(3) have "unat ?w < 2 ^ 63" by simp
    then have "sint (of_nat (unat ?w) :: u64) = int (unat ?w)" by (rule sint_of_nat_small)
    with lt show ?thesis by simp
  qed
qed

text \<open>
  A length-delimited field whose length has its top bit set makes the decoder panic, in any
  message and with any bytes behind it: the signed sum of offset and length is smaller than the
  offset, passes the check against the end of the data, and the slice expression fails.
\<close>

lemma negative_length_panics:
  assumes "tag_ok k" "2 ^ 63 \<le> unat len"
    and "length (encodeTag k 2 @ encodeVarint len @ rest) \<le> MaxProtobufFrameLength"
  shows "is_panic (unmarshalFields (encodeTag k 2 @ encodeVarint len @ rest) h m)"
proof -
  let ?t = "encodeTag k 2" and ?l = "encodeVarint len"
  let ?o = "length ?t + length ?l"
  have o: "?o \<le> 20"
    using length_encodeVarint [of len] length_encodeVarint [of "of_nat (push_bit 3 k OR 2)"]
    by (simp add: encodeTag_def)
  let ?stop = "sint (of_nat ?o + len :: u64)"
  have neg: "?stop < int ?o" by (rule sint_sum_negative) (use o assms(2) in simp_all)
  then have "\<not> int (length (?t @ ?l @ rest)) < ?stop" by simp
  moreover have "go_slice (int ?o) ?stop (?t @ ?l @ rest) = Inl (Panic ''slice bounds out of range'')"
    using neg by (simp add: go_slice_def)
  moreover obtain tag where tag: "?t \<noteq> []" "\<And>x. decodeVarint (?t @ x) = Inr (tag, length ?t)"
    "unat (drop_bit 3 tag) = k" "unat (tag AND 7) = 2"
    using encodeTag_bytes [OF assms(1), of 2] by (auto simp: tag_bytes_def)
  ultimately show ?thesis
    using assms(3)
    by (simp add: unmarshalFields_def unmarshal_loop.simps [of "?t @ ?l @ rest" h 0] tag Let_def
        split: sum.split)
qed

end
