(* ===== verification/Crypto_Secure.thy ===== *)
theory Crypto_Secure
  imports Hyper_Storage "HOL-Library.Sublist"
begin

section \<open>Encrypted connections and the node key (pkg/crypto)\<close>

text \<open>
  A \<open>SecureConn\<close> carries a byte stream over a connection as Noise messages, each behind a two-byte
  length. The Noise protocol (\<open>github.com/flynn/noise\<close>), the X25519 base point multiplication and
  SHA-512 are parameters, gathered in a record; a \<open>*noise.CipherState\<close> is an opaque value that
  \<open>Encrypt\<close> and \<open>Decrypt\<close> advance, and that a failed call leaves as it was. The random ephemeral
  keys of a handshake are part of the opaque handshake state.
\<close>

record ('h, 'c) noise_api =
  X25519_base :: "bytes \<Rightarrow> bytes result"
  Sum512 :: "bytes \<Rightarrow> bytes"
  NewHandshakeState :: "bytes \<Rightarrow> bytes \<Rightarrow> bool \<Rightarrow> 'h result"
  WriteMessage :: "'h \<Rightarrow> bytes \<Rightarrow> ('h \<times> bytes \<times> 'c option \<times> 'c option) result"
  ReadMessage :: "'h \<Rightarrow> bytes \<Rightarrow> ('h \<times> bytes \<times> 'c option \<times> 'c option) result"
  Encrypt :: "'c \<Rightarrow> bytes \<Rightarrow> ('c \<times> bytes) result"
  Decrypt :: "'c \<Rightarrow> bytes \<Rightarrow> ('c \<times> bytes) result"

text \<open>
  A connection is the bytes that will still arrive and the bytes written so far. A write can fail
  after some bytes.
\<close>

record conn =
  conn_in :: bytes
  conn_out :: bytes

definition conn_write :: "write_fault \<Rightarrow> conn \<Rightarrow> bytes \<Rightarrow> conn \<times> error option" where
  "conn_write fault c b =
     (case fault of None \<Rightarrow> (c\<lparr>conn_out := conn_out c @ b\<rparr>, None)
      | Some (k, e) \<Rightarrow> (c\<lparr>conn_out := conn_out c @ take k b\<rparr>, Some e))"

definition conn_read_full :: "nat \<Rightarrow> conn \<Rightarrow> conn \<times> bytes result" where
  "conn_read_full n c =
     (case read_full n (conn_in c) of
        Inl e \<Rightarrow> (c\<lparr>conn_in := []\<rparr>, Inl e)
      | Inr (b, r) \<Rightarrow> (c\<lparr>conn_in := r\<rparr>, Inr b))"

subsection \<open>Frames\<close>

type_synonym frame_faults = "write_fault \<times> write_fault"

definition noise_writeFrame :: "frame_faults \<Rightarrow> conn \<Rightarrow> bytes \<Rightarrow> conn \<times> error option" where
  "noise_writeFrame ff c data =
     (let len = length data in
      if 65535 < len then (c, Some (ErrNew ''packet too large for Noise framing''))
      else let header = [of_nat (drop_bit 8 len), of_nat len] in
        case conn_write (fst ff) c header of
          (c1, Some e) \<Rightarrow> (c1, Some e)
        | (c1, None) \<Rightarrow> conn_write (snd ff) c1 data)"

definition noise_readFrame :: "conn \<Rightarrow> conn \<times> bytes result" where
  "noise_readFrame c =
     (case conn_read_full 2 c of
        (c1, Inl e) \<Rightarrow> (c1, Inl e)
      | (c1, Inr header) \<Rightarrow>
          let len = push_bit 8 (unat (header ! 0)) OR unat (header ! 1) in
          conn_read_full len c1)"

subsection \<open>SecureConn\<close>

record 'c secure_conn =
  sc_conn :: conn
  sc_csSend :: "'c option"
  sc_csRecv :: "'c option"
  sc_readBuf :: bytes

text \<open>A method of a nil \<open>*noise.CipherState\<close> dereferences it.\<close>

definition cs_Encrypt :: "('h, 'c) noise_api \<Rightarrow> 'c option \<Rightarrow> bytes \<Rightarrow> ('c option \<times> bytes) result" where
  "cs_Encrypt N cs p =
     (case cs of None \<Rightarrow> Inl (Panic ''nil pointer dereference'')
      | Some c \<Rightarrow> (case Encrypt N c p of Inl e \<Rightarrow> Inl e | Inr (c', b) \<Rightarrow> Inr (Some c', b)))"

definition cs_Decrypt :: "('h, 'c) noise_api \<Rightarrow> 'c option \<Rightarrow> bytes \<Rightarrow> ('c option \<times> bytes) result" where
  "cs_Decrypt N cs p =
     (case cs of None \<Rightarrow> Inl (Panic ''nil pointer dereference'')
      | Some c \<Rightarrow> (case Decrypt N c p of Inl e \<Rightarrow> Inl e | Inr (c', b) \<Rightarrow> Inr (Some c', b)))"

definition secure_Write ::
  "('h, 'c) noise_api \<Rightarrow> frame_faults \<Rightarrow> 'c secure_conn \<Rightarrow> bytes \<Rightarrow> 'c secure_conn \<times> nat result" where
  "secure_Write N ff s p =
     (case cs_Encrypt N (sc_csSend s) p of Inl e \<Rightarrow> (s, Inl e)
      | Inr (cs, encrypted) \<Rightarrow>
          (case noise_writeFrame ff (sc_conn s) encrypted of
             (c, Some e) \<Rightarrow> (s\<lparr>sc_csSend := cs, sc_conn := c\<rparr>, Inl e)
           | (c, None) \<Rightarrow> (s\<lparr>sc_csSend := cs, sc_conn := c\<rparr>, Inr (length p))))"

text \<open>\<open>Read(p)\<close> with \<open>len(p) = n\<close>; the result is the bytes copied to the front of \<open>p\<close>.\<close>

definition secure_Read :: "('h, 'c) noise_api \<Rightarrow> 'c secure_conn \<Rightarrow> nat \<Rightarrow> 'c secure_conn \<times> bytes result" where
  "secure_Read N s n =
     (if sc_readBuf s \<noteq> [] then
        (s\<lparr>sc_readBuf := drop n (sc_readBuf s)\<rparr>, Inr (take n (sc_readBuf s)))
      else case noise_readFrame (sc_conn s) of
        (c, Inl e) \<Rightarrow> (s\<lparr>sc_conn := c\<rparr>, Inl e)
      | (c, Inr encrypted) \<Rightarrow>
          (case cs_Decrypt N (sc_csRecv s) encrypted of
             Inl e \<Rightarrow> (s\<lparr>sc_conn := c\<rparr>, Inl e)
           | Inr (cs, decrypted) \<Rightarrow>
               let s1 = s\<lparr>sc_conn := c, sc_csRecv := cs\<rparr> in
               ((if n < length decrypted then s1\<lparr>sc_readBuf := drop n decrypted\<rparr> else s1),
                Inr (take n decrypted))))"

subsection \<open>Keys\<close>

text \<open>
  An \<open>ed25519.PrivateKey\<close> is 64 bytes, the seed and then the public key; \<open>Seed\<close> and \<open>Public\<close> of
  the standard library return the two halves.
\<close>

definition ed_Seed :: "bytes \<Rightarrow> bytes" where "ed_Seed k = take 32 k"
definition ed_Public :: "bytes \<Rightarrow> bytes" where "ed_Public k = drop 32 k"

definition ed25519PrivateKeyToX25519 :: "('h, 'c) noise_api \<Rightarrow> bytes \<Rightarrow> bytes" where
  "ed25519PrivateKeyToX25519 N edPriv =
     (let h = Sum512 N (ed_Seed edPriv);
          scalar = take 32 h;
          scalar = scalar[0 := scalar ! 0 AND 248];
          scalar = scalar[31 := scalar ! 31 AND 127]
      in scalar[31 := scalar ! 31 OR 64])"

subsection \<open>Handshake\<close>

text \<open>The nil cipher states before the last message; \<open>remotePub\<close> stays nil (empty) unless the payload has 32 bytes.\<close>

definition remote_pub :: "bytes \<Rightarrow> bytes" where
  "remote_pub res = (if length res = 32 then res else [])"

definition hs_write ::
  "('h, 'c) noise_api \<Rightarrow> frame_faults \<Rightarrow> 'h \<Rightarrow> conn \<Rightarrow> bytes \<Rightarrow> conn \<times> ('h \<times> 'c option \<times> 'c option) result" where
  "hs_write N ff hs c payload =
     (case WriteMessage N hs payload of Inl e \<Rightarrow> (c, Inl e)
      | Inr (hs', msg, cs1, cs2) \<Rightarrow>
          (case noise_writeFrame ff c msg of
             (c', Some e) \<Rightarrow> (c', Inl e)
           | (c', None) \<Rightarrow> (c', Inr (hs', cs1, cs2))))"

definition hs_read ::
  "('h, 'c) noise_api \<Rightarrow> 'h \<Rightarrow> conn \<Rightarrow> conn \<times> ('h \<times> bytes \<times> 'c option \<times> 'c option) result" where
  "hs_read N hs c =
     (case noise_readFrame c of (c', Inl e) \<Rightarrow> (c', Inl e)
      | (c', Inr payload) \<Rightarrow> (c', ReadMessage N hs payload))"

definition handshake_initiator ::
  "('h, 'c) noise_api \<Rightarrow> frame_faults \<Rightarrow> frame_faults \<Rightarrow> 'h \<Rightarrow> bytes \<Rightarrow> conn \<Rightarrow>
     conn \<times> ('c option \<times> 'c option \<times> bytes) result" where
  "handshake_initiator N f1 f3 hs localPub c =
     (case hs_write N f1 hs c [] of (c1, Inl e) \<Rightarrow> (c1, Inl e) | (c1, Inr (hs1, _, _)) \<Rightarrow>
     (case hs_read N hs1 c1 of (c2, Inl e) \<Rightarrow> (c2, Inl e) | (c2, Inr (hs2, res, _, _)) \<Rightarrow>
     (case hs_write N f3 hs2 c2 localPub of (c3, Inl e) \<Rightarrow> (c3, Inl e)
      | (c3, Inr (_, cs1, cs2)) \<Rightarrow> (c3, Inr (cs1, cs2, remote_pub res)))))"

definition handshake_responder ::
  "('h, 'c) noise_api \<Rightarrow> frame_faults \<Rightarrow> 'h \<Rightarrow> bytes \<Rightarrow> conn \<Rightarrow>
     conn \<times> ('c option \<times> 'c option \<times> bytes) result" where
  "handshake_responder N f2 hs localPub c =
     (case hs_read N hs c of (c1, Inl e) \<Rightarrow> (c1, Inl e) | (c1, Inr (hs1, _, _, _)) \<Rightarrow>
     (case hs_write N f2 hs1 c1 localPub of (c2, Inl e) \<Rightarrow> (c2, Inl e) | (c2, Inr (hs2, _, _)) \<Rightarrow>
     (case hs_read N hs2 c2 of (c3, Inl e) \<Rightarrow> (c3, Inl e)
      | (c3, Inr (_, res, cs1, cs2)) \<Rightarrow> (c3, Inr (cs2, cs1, remote_pub res)))))"

text \<open>The connection as it is left, and the secure connection with the remote public key.\<close>

definition NewSecureConnection ::
  "('h, 'c) noise_api \<Rightarrow> (nat \<Rightarrow> frame_faults) \<Rightarrow> conn \<Rightarrow> bytes \<Rightarrow> bool \<Rightarrow>
     conn \<times> ('c secure_conn \<times> bytes) result" where
  "NewSecureConnection N ff c localPriv initiator =
     (let localXPrivate = ed25519PrivateKeyToX25519 N localPriv in
      case X25519_base N localXPrivate of Inl e \<Rightarrow> (c, Inl e) | Inr localXPublic \<Rightarrow>
      (case NewHandshakeState N localXPrivate localXPublic initiator of Inl e \<Rightarrow> (c, Inl e)
       | Inr hs \<Rightarrow>
         let localPub = ed_Public localPriv in
         (case (if initiator then handshake_initiator N (ff 1) (ff 3) hs localPub c
                else handshake_responder N (ff 2) hs localPub c) of
            (c', Inl e) \<Rightarrow> (c', Inl e)
          | (c', Inr (csSend, csRecv, remotePub)) \<Rightarrow>
              (c', Inr (\<lparr>sc_conn = c', sc_csSend = csSend, sc_csRecv = csRecv, sc_readBuf = []\<rparr>, remotePub)))))"

subsection \<open>The node key file\<close>

text \<open>
  The file's contents (\<open>None\<close>: it does not exist) and the outcomes of the calls on it.
  \<open>os.WriteFile\<close> truncates the file before it writes.
\<close>

record key_env =
  k_read_err :: "error option"
  k_generate :: "bytes result"
  k_mkdir_err :: "error option"
  k_open_err :: "error option"
  k_write_fault :: write_fault

definition LoadOrGenerateNodeKey :: "key_env \<Rightarrow> bytes option \<Rightarrow> bytes option \<times> bytes result" where
  "LoadOrGenerateNodeKey E file =
     (let generate =
        (case k_generate E of Inl e \<Rightarrow> (file, Inl e) | Inr priv \<Rightarrow>
        (case k_mkdir_err E of Some e \<Rightarrow> (file, Inl e) | None \<Rightarrow>
        (case k_open_err E of Some e \<Rightarrow> (file, Inl e) | None \<Rightarrow>
        (case k_write_fault E of
           Some (n, e) \<Rightarrow> (Some (take n priv), Inl e)
         | None \<Rightarrow> (Some priv, Inr priv)))))
      in case (file, k_read_err E) of
           (Some data, None) \<Rightarrow> if length data = 64 then (file, Inr data) else generate
         | _ \<Rightarrow> generate)"

subsection \<open>Framing lemmas\<close>

definition noise_frame :: "bytes \<Rightarrow> bytes" where
  "noise_frame b = [of_nat (drop_bit 8 (length b)), of_nat (length b)] @ b"

lemma frame_length_back:
  assumes "n \<le> 65535"
  shows "push_bit 8 (unat (of_nat (drop_bit 8 n) :: byte)) OR unat (of_nat n :: byte) = n"
proof -
  have n: "take_bit 16 n = n" using assms by (simp add: take_bit_nat_eq_self)
  have big: "k - 8 < 8" if "bit n k" for k
  proof -
    have "k < 16" using n that by (metis bit_take_bit_iff)
    then show ?thesis by simp
  qed
  show ?thesis
    by (rule bit_eqI) (auto simp: unsigned_of_nat bit_simps dest: big)
qed

lemma noise_readFrame_frame [simp]:
  assumes "length b \<le> 65535"
  shows "noise_readFrame \<lparr>conn_in = noise_frame b @ r, conn_out = w\<rparr> = (\<lparr>conn_in = r, conn_out = w\<rparr>, Inr b)"
  using frame_length_back [OF assms]
  by (cases "b = []") (simp_all add: noise_readFrame_def conn_read_full_def noise_frame_def read_full_def Let_def)

lemma noise_readFrame_end: "conn_in c = [] \<Longrightarrow> noise_readFrame c = (c, Inl EOF)"
  by (simp add: noise_readFrame_def conn_read_full_def read_full_def)

abbreviation reliable_net :: frame_faults where "reliable_net \<equiv> (None, None)"

lemma writeFrame_reliable:
  "noise_writeFrame reliable_net c b =
     (if 65535 < length b then (c, Some (ErrNew ''packet too large for Noise framing''))
      else (c\<lparr>conn_out := conn_out c @ noise_frame b\<rparr>, None))"
  by (simp add: noise_writeFrame_def conn_write_def noise_frame_def Let_def)

subsection \<open>The stream of a connection\<close>

text \<open>
  What is assumed of the ciphers. \<open>cipher_sync\<close>: a receiving state in step with a sending state
  decrypts its next message, and a ciphertext is 16 bytes longer than its plaintext.
  \<open>cipher_ordered\<close>: a message does not decrypt in the place of the one before it. \<open>only_opens\<close>:
  from a receiving state on, only the listed ciphertexts are accepted, each at its place.
\<close>

definition cipher_sync :: "('h, 'c) noise_api \<Rightarrow> ('c \<Rightarrow> 'c \<Rightarrow> bool) \<Rightarrow> bool" where
  "cipher_sync N R \<longleftrightarrow>
     (\<forall>a b p a' c. R a b \<and> Encrypt N a p = Inr (a', c) \<longrightarrow>
        length c = length p + 16 \<and> (\<exists>b'. Decrypt N b c = Inr (b', p) \<and> R a' b'))"

definition cipher_ordered :: "('h, 'c) noise_api \<Rightarrow> ('c \<Rightarrow> 'c \<Rightarrow> bool) \<Rightarrow> bool" where
  "cipher_ordered N R \<longleftrightarrow>
     (\<forall>a b p a' c q a'' d. R a b \<and> Encrypt N a p = Inr (a', c) \<and> Encrypt N a' q = Inr (a'', d) \<longrightarrow>
        (\<exists>e. Decrypt N b d = Inl e))"

primrec only_opens :: "('h, 'c) noise_api \<Rightarrow> bytes list \<Rightarrow> 'c \<Rightarrow> bool" where
  "only_opens N [] b \<longleftrightarrow> (\<forall>c. \<exists>e. Decrypt N b c = Inl e)"
| "only_opens N (x # cs) b \<longleftrightarrow>
     (\<forall>c b' p. Decrypt N b c = Inr (b', p) \<longrightarrow> c = x \<and> only_opens N cs b')"

text \<open>The ciphertexts of a list of messages, and the receiving side of it.\<close>

primrec seal_all :: "('h, 'c) noise_api \<Rightarrow> bytes list \<Rightarrow> 'c \<Rightarrow> ('c \<times> bytes list) result" where
  "seal_all N [] a = Inr (a, [])"
| "seal_all N (p # ps) a =
     (case Encrypt N a p of Inl e \<Rightarrow> Inl e | Inr (a', c) \<Rightarrow>
     (case seal_all N ps a' of Inl e \<Rightarrow> Inl e | Inr (a'', cs) \<Rightarrow> Inr (a'', c # cs)))"

fun opens :: "('h, 'c) noise_api \<Rightarrow> bytes list \<Rightarrow> bytes list \<Rightarrow> 'c \<Rightarrow> bool" where
  "opens N [] [] b = True"
| "opens N (c # cs) (p # ps) b \<longleftrightarrow> (case Decrypt N b c of Inl _ \<Rightarrow> False | Inr (b', q) \<Rightarrow> q = p \<and> opens N cs ps b')"
| "opens N _ _ b = False"

text \<open>Writing several messages, and reading with buffers of the given lengths until an error.\<close>

definition write_one :: "('h, 'c) noise_api \<Rightarrow> bytes \<Rightarrow> 'c secure_conn \<Rightarrow> 'c secure_conn \<times> error option" where
  "write_one N p s = (case secure_Write N reliable_net s p of (s', Inl e) \<Rightarrow> (s', Some e) | (s', Inr _) \<Rightarrow> (s', None))"

primrec secure_reads :: "('h, 'c) noise_api \<Rightarrow> nat list \<Rightarrow> 'c secure_conn \<Rightarrow> 'c secure_conn \<times> bytes \<times> error option" where
  "secure_reads N [] s = (s, [], None)"
| "secure_reads N (n # ns) s =
     (case secure_Read N s n of (s', Inl e) \<Rightarrow> (s', [], Some e)
      | (s', Inr b) \<Rightarrow> (let (s'', bs, e) = secure_reads N ns s' in (s'', b @ bs, e)))"

lemma seal_all_opens:
  assumes "cipher_sync N R" "R a b" "seal_all N ps a = Inr (a', cs)"
  shows "opens N cs ps b"
  using assms(2,3)
proof (induction ps arbitrary: a b cs)
  case Nil
  then show ?case by simp
next
  case (Cons p ps)
  then obtain a1 c a2 cs1 where e: "Encrypt N a p = Inr (a1, c)" "seal_all N ps a1 = Inr (a2, cs1)" "cs = c # cs1"
    by (auto split: sum.splits)
  with assms(1) Cons.prems(1) obtain b1 where "Decrypt N b c = Inr (b1, p)" "R a1 b1"
    unfolding cipher_sync_def by blast
  with Cons.IH e(2,3) Cons.prems(2) show ?case by (auto simp: e(1))
qed

lemma writes_seal:
  assumes "for_each (write_one N) ps s = (s', None)" "sc_csSend s = Some a"
  shows "\<exists>a' cs. seal_all N ps a = Inr (a', cs) \<and> (\<forall>c \<in> set cs. length c \<le> 65535) \<and>
    conn_out (sc_conn s') = conn_out (sc_conn s) @ concat (map noise_frame cs) \<and> sc_csSend s' = Some a'"
  using assms
proof (induction ps arbitrary: s a)
  case Nil
  then show ?case by simp
next
  case (Cons p ps)
  from Cons.prems obtain s1 where w: "write_one N p s = (s1, None)"
    and r1: "for_each (write_one N) ps s1 = (s', None)"
    by (auto split: prod.splits option.splits)
  from w Cons.prems(2) obtain a1 c where e: "Encrypt N a p = Inr (a1, c)" "length c \<le> 65535"
    and s1: "s1 = s\<lparr>sc_csSend := Some a1,
      sc_conn := (sc_conn s)\<lparr>conn_out := conn_out (sc_conn s) @ noise_frame c\<rparr>\<rparr>"
    by (auto simp: write_one_def secure_Write_def cs_Encrypt_def writeFrame_reliable
        split: sum.splits if_splits)
  note r = r1 [unfolded s1]
  from Cons.IH [OF r] obtain a' cs where "seal_all N ps a1 = Inr (a', cs)" "\<forall>c \<in> set cs. length c \<le> 65535"
    "conn_out (sc_conn s') = conn_out (sc_conn s) @ noise_frame c @ concat (map noise_frame cs)"
    "sc_csSend s' = Some a'" by auto
  with e show ?case by (intro exI [of _ a'] exI [of _ "c # cs"]) simp
qed

text \<open>
  The receiver: what its buffer holds and what the frames still to come decrypt to is what is left
  of the stream. A read takes a prefix of it.
\<close>

definition receiving :: "('h, 'c) noise_api \<Rightarrow> bytes list \<Rightarrow> bytes list \<Rightarrow> 'c secure_conn \<Rightarrow> bool" where
  "receiving N cs ps s \<longleftrightarrow> (\<exists>b. sc_csRecv s = Some b \<and> opens N cs ps b)"

abbreviation on_wire :: "bytes list \<Rightarrow> 'c secure_conn \<Rightarrow> bool" where
  "on_wire cs s \<equiv> conn_in (sc_conn s) = concat (map noise_frame cs) \<and> (\<forall>c \<in> set cs. length c \<le> 65535)"

lemma readFrame_on_wire:
  assumes "conn_in c = noise_frame x @ r" "length x \<le> 65535"
  shows "noise_readFrame c = (c\<lparr>conn_in := r\<rparr>, Inr x)"
proof -
  have "c = \<lparr>conn_in = noise_frame x @ r, conn_out = conn_out c\<rparr>" using assms(1) by simp
  then show ?thesis using noise_readFrame_frame [OF assms(2), of r "conn_out c"] by simp
qed

lemma read_genuine:
  assumes "receiving N cs ps s" "on_wire cs s" "secure_Read N s n = (s', res)"
  shows "(res = Inl EOF \<and> sc_readBuf s = [] \<and> ps = []) \<or>
    (\<exists>d cs' ps'. res = Inr d \<and> receiving N cs' ps' s' \<and> on_wire cs' s' \<and>
       sc_readBuf s @ concat ps = d @ sc_readBuf s' @ concat ps' \<and>
       (0 < n \<longrightarrow> length (sc_readBuf s') + length cs' + length (concat ps') <
          length (sc_readBuf s) + length cs + length (concat ps)))"
proof (cases "sc_readBuf s = []")
  case False
  with assms have "res = Inr (take n (sc_readBuf s))" "s' = s\<lparr>sc_readBuf := drop n (sc_readBuf s)\<rparr>"
    by (simp_all add: secure_Read_def)
  with False assms(1,2) show ?thesis
    by - (rule disjI2, rule exI [of _ "take n (sc_readBuf s)"], rule exI [of _ cs], rule exI [of _ ps],
        auto simp: receiving_def)
next
  case empty: True
  from assms(1) obtain b where b: "sc_csRecv s = Some b" "opens N cs ps b" by (auto simp: receiving_def)
  show ?thesis
  proof (cases cs)
    case Nil
    with b(2) have "ps = []" by (cases ps) simp_all
    moreover have "noise_readFrame (sc_conn s) = (sc_conn s, Inl EOF)"
      using assms(2) Nil by (intro noise_readFrame_end) simp
    ultimately show ?thesis using assms(3) empty by (auto simp: secure_Read_def)
  next
    case (Cons c cs')
    with b(2) obtain p ps' b' where p: "ps = p # ps'" "Decrypt N b c = Inr (b', p)" "opens N cs' ps' b'"
      by (cases ps) (auto split: sum.splits)
    let ?s = "s\<lparr>sc_conn := (sc_conn s)\<lparr>conn_in := concat (map noise_frame cs')\<rparr>, sc_csRecv := Some b',
      sc_readBuf := drop n p\<rparr>"
    have "noise_readFrame (sc_conn s) = ((sc_conn s)\<lparr>conn_in := concat (map noise_frame cs')\<rparr>, Inr c)"
      using assms(2) Cons by (intro readFrame_on_wire) simp_all
    then have "secure_Read N s n = (?s, Inr (take n p))"
      using empty b(1) p(2) by (simp add: secure_Read_def cs_Decrypt_def Let_def)
    with assms(3) have "s' = ?s" "res = Inr (take n p)" by simp_all
    with assms(2) Cons p(1,3) empty show ?thesis
      by - (rule disjI2, rule exI [of _ "take n p"], rule exI [of _ cs'], rule exI [of _ ps'],
          auto simp: receiving_def)
  qed
qed

lemma reads_genuine:
  assumes "receiving N cs ps r" "on_wire cs r" "secure_reads N ns r = (r', data, err)"
  shows "\<exists>rest. sc_readBuf r @ concat ps = data @ rest \<and> (err = None \<or> err = Some EOF \<and> rest = []) \<and>
    (0 \<notin> set ns \<and> length (sc_readBuf r) + length cs + length (concat ps) < length ns \<longrightarrow> err = Some EOF)"
  using assms
proof (induction ns arbitrary: cs ps r data)
  case Nil
  then show ?case by auto
next
  case (Cons n ns)
  obtain r1 res where read: "secure_Read N r n = (r1, res)" by force
  from read_genuine [OF Cons.prems(1,2) read] show ?case
  proof (elim disjE exE conjE)
    assume "res = Inl EOF" "sc_readBuf r = []" "ps = []"
    with Cons.prems(3) read show ?case by auto
  next
    fix d cs1 ps1
    assume res: "res = Inr d" and r1: "receiving N cs1 ps1 r1" "conn_in (sc_conn r1) = concat (map noise_frame cs1)"
        "\<forall>c \<in> set cs1. length c \<le> 65535"
      and eq: "sc_readBuf r @ concat ps = d @ sc_readBuf r1 @ concat ps1"
      and less: "0 < n \<longrightarrow> length (sc_readBuf r1) + length cs1 + length (concat ps1) <
          length (sc_readBuf r) + length cs + length (concat ps)"
    obtain data1 where d1: "secure_reads N ns r1 = (r', data1, err)" "data = d @ data1"
      using Cons.prems(3) read res by (auto split: prod.splits)
    from Cons.IH [OF r1(1) conjI [OF r1(2,3)] d1(1)] obtain rest where
      "sc_readBuf r1 @ concat ps1 = data1 @ rest" "err = None \<or> err = Some EOF \<and> rest = []"
      "0 \<notin> set ns \<and> length (sc_readBuf r1) + length cs1 + length (concat ps1) < length ns \<longrightarrow> err = Some EOF"
      by blast
    with eq d1(2) less show ?case by (intro exI [of _ rest]) auto
  qed
qed

lemma seal_all_length: "seal_all N ps a = Inr (a', cs) \<Longrightarrow> length cs = length ps"
  by (induction ps arbitrary: a cs) (auto split: sum.splits)

text \<open>
  C14. A secure connection carries a byte stream. Whatever messages one side writes and whatever
  buffers the other side reads with, the bytes read are a prefix of the bytes written, the only error
  is the end of the connection after all of them, and enough reads with non-empty buffers return all.
\<close>

theorem secure_stream:
  assumes "cipher_sync N R" "R a b"
    and "sc_csSend s = Some a" "for_each (write_one N) ps s = (s', None)"
    and "sc_csRecv r = Some b" "sc_readBuf r = []"
    and "conn_out (sc_conn s') = conn_out (sc_conn s) @ conn_in (sc_conn r)"
    and "secure_reads N ns r = (r', data, err)"
  shows "prefix data (concat ps) \<and> (err = None \<or> err = Some EOF \<and> data = concat ps) \<and>
    (0 \<notin> set ns \<and> length ps + length (concat ps) < length ns \<longrightarrow> data = concat ps)"
proof -
  from writes_seal [OF assms(4,3)] obtain a' cs where cs: "seal_all N ps a = Inr (a', cs)"
    "\<forall>c \<in> set cs. length c \<le> 65535" "conn_in (sc_conn r) = concat (map noise_frame cs)"
    using assms(7) by auto
  have "receiving N cs ps r"
    using seal_all_opens [OF assms(1,2) cs(1)] assms(5) by (simp add: receiving_def)
  from reads_genuine [OF this conjI [OF cs(3,2)] assms(8)] seal_all_length [OF cs(1)] assms(6)
  show ?thesis by (auto simp: prefix_def)
qed

text \<open>
  A counter in place of the key: message \<open>n\<close> carries sixteen bytes of value \<open>n\<close> as its tag. The
  handshake counts its messages and sends the payloads as they are.
\<close>

definition toy_noise :: "(nat, nat) noise_api" where
  "toy_noise = \<lparr>X25519_base = Inr, Sum512 = (\<lambda>b. replicate 64 7),
     NewHandshakeState = (\<lambda>k p i. Inr 0),
     WriteMessage = (\<lambda>h p. Inr (h + 1, p, if h = 2 then Some 0 else None, if h = 2 then Some 100 else None)),
     ReadMessage = (\<lambda>h m. Inr (h + 1, m, if h = 2 then Some 0 else None, if h = 2 then Some 100 else None)),
     Encrypt = (\<lambda>n p. Inr (Suc n, replicate 16 (of_nat n) @ p)),
     Decrypt = (\<lambda>n c. if take 16 c = replicate 16 (of_nat n) then Inr (Suc n, drop 16 c)
       else Inl (ErrNew ''chacha20poly1305: message authentication failed''))\<rparr>"

lemma toy_sync: "cipher_sync toy_noise (=)"
  by (auto simp: cipher_sync_def toy_noise_def)

definition toy_conn :: "bytes \<Rightarrow> nat secure_conn" where
  "toy_conn b = \<lparr>sc_conn = \<lparr>conn_in = b, conn_out = []\<rparr>, sc_csSend = Some 0, sc_csRecv = Some 0, sc_readBuf = []\<rparr>"

theorem secure_stream_witness:
  "\<exists>s'. for_each (write_one toy_noise) [[1, 2, 3], [], [4, 5]] (toy_conn []) = (s', None) \<and>
     fst (snd (secure_reads toy_noise (replicate 9 2) (toy_conn (conn_out (sc_conn s'))))) = [1, 2, 3, 4, 5]"
proof -
  obtain s' where s': "for_each (write_one toy_noise) [[1, 2, 3], [], [4, 5]] (toy_conn []) = (s', None)"
    by (simp add: write_one_def secure_Write_def cs_Encrypt_def toy_noise_def writeFrame_reliable toy_conn_def)
  obtain r' data err where r: "secure_reads toy_noise (replicate 9 2) (toy_conn (conn_out (sc_conn s'))) = (r', data, err)"
    by (metis prod_cases3)
  have "0 \<notin> set (replicate 9 (2::nat)) \<and>
      length [[1, 2, 3], [], [4, 5 :: byte]] + length (concat [[1, 2, 3], [], [4, 5 :: byte]]) < length (replicate 9 (2::nat))"
    by simp
  with secure_stream [OF toy_sync refl _ s' _ _ _ r, of 0] have "data = concat [[1, 2, 3], [], [4, 5]]"
    by (simp add: toy_conn_def)
  with s' r show ?thesis by auto
qed

text \<open>Any bytes on the wire: a message is accepted only in its own place.\<close>

lemma reads_authentic:
  assumes "sc_csRecv r = Some b" "opens N cs ps b" "only_opens N cs b"
    and "secure_reads N ns r = (r', data, err)"
  shows "prefix data (sc_readBuf r @ concat ps)"
  using assms
proof (induction ns arbitrary: b cs ps r data)
  case Nil
  then show ?case by auto
next
  case (Cons n ns)
  show ?case
  proof (cases "sc_readBuf r = []")
    case False
    then obtain data1 where "secure_reads N ns (r\<lparr>sc_readBuf := drop n (sc_readBuf r)\<rparr>) = (r', data1, err)"
      "data = take n (sc_readBuf r) @ data1"
      using Cons.prems(4) by (auto simp: secure_Read_def split: prod.splits)
    with Cons.IH [OF _ Cons.prems(2,3) this(1)] Cons.prems(1) have "prefix data1 (drop n (sc_readBuf r) @ concat ps)"
      "data = take n (sc_readBuf r) @ data1" by simp_all
    then have "prefix data (take n (sc_readBuf r) @ drop n (sc_readBuf r) @ concat ps)" by simp
    then show ?thesis by (simp only: append_assoc [symmetric] append_take_drop_id)
  next
    case empty: True
    obtain c res where f: "noise_readFrame (sc_conn r) = (c, res)" by force
    show ?thesis
    proof (cases "\<exists>x b' p. res = Inr x \<and> Decrypt N b x = Inr (b', p)")
      case False
      then have "data = []" using Cons.prems(1,4) empty f
        by (auto simp: secure_Read_def cs_Decrypt_def split: sum.splits)
      then show ?thesis by simp
    next
      case True
      then obtain x b' p where x: "res = Inr x" "Decrypt N b x = Inr (b', p)" by blast
      have "\<exists>cs'. cs = x # cs' \<and> only_opens N cs' b'"
      proof (cases cs)
        case Nil
        with Cons.prems(3) obtain e where "Decrypt N b x = Inl e" by auto
        with x(2) show ?thesis by simp
      next
        case (Cons y cs')
        with Cons.prems(3) have "only_opens N (y # cs') b" by simp
        with x(2) have "x = y \<and> only_opens N cs' b'" unfolding only_opens.simps by blast
        with Cons show ?thesis by simp
      qed
      then obtain cs' where cs': "cs = x # cs'" "only_opens N cs' b'" by blast
      with Cons.prems(2) x(2) obtain ps' where l: "ps = p # ps'" "opens N cs' ps' b'" by (cases ps) auto
      let ?r = "r\<lparr>sc_conn := c, sc_csRecv := Some b', sc_readBuf := drop n p\<rparr>"
      have "secure_Read N r n = (?r, Inr (take n p))"
        using empty f x Cons.prems(1) by (simp add: secure_Read_def cs_Decrypt_def Let_def)
      then obtain data1 where d: "secure_reads N ns ?r = (r', data1, err)" "data = take n p @ data1"
        using Cons.prems(4) by (auto split: prod.splits)
      from Cons.IH [OF _ l(2) cs'(2) d(1)] have "prefix data1 (drop n p @ concat ps')" by simp
      with d(2) have "prefix data (take n p @ drop n p @ concat ps')" by simp
      then have "prefix data ((take n p @ drop n p) @ concat ps')" by (simp only: append_assoc)
      with l(1) empty show ?thesis by simp
    qed
  qed
qed

text \<open>
  C15. Nothing but what was written is read. Against any bytes on the wire (forged, replayed,
  reordered, cut), the bytes a receiver returns are a prefix of the stream written by the holder of
  the sending state, if ciphertexts cannot be forged and each opens only in its place.
\<close>

theorem secure_stream_authentic:
  assumes "cipher_sync N R" "R a b" "seal_all N ps a = Inr (a', cs)" "only_opens N cs b"
    and "sc_csRecv r = Some b" "sc_readBuf r = []"
    and "secure_reads N ns r = (r', data, err)"
  shows "prefix data (concat ps)"
  using reads_authentic [OF assms(5) seal_all_opens [OF assms(1-3)] assms(4,7)] assms(6) by simp

text \<open>A cipher that has one message to send.\<close>

definition one_message_noise :: "(nat, nat) noise_api" where
  "one_message_noise = toy_noise\<lparr>
     Encrypt := (\<lambda>n p. if n = 0 \<and> p = [1, 2, 3] then Inr (1, replicate 16 9 @ p) else Inl EOF),
     Decrypt := (\<lambda>n c. if n = 0 \<and> c = replicate 16 9 @ [1, 2, 3] then Inr (1, [1, 2, 3]) else Inl EOF)\<rparr>"

theorem secure_stream_authentic_witness:
  "prefix (fst (snd (secure_reads one_message_noise [2, 5, 5]
     (toy_conn (noise_frame (replicate 16 9 @ [1, 2, 3]) @ noise_frame [6, 6]))))) (concat [[1, 2, 3]])"
proof -
  let ?N = one_message_noise
  have sync: "cipher_sync ?N (=)" by (simp add: cipher_sync_def one_message_noise_def)
  have seal: "seal_all ?N [[1, 2, 3]] 0 = Inr (1, [replicate 16 9 @ [1, 2, 3]])"
    by (simp add: one_message_noise_def)
  have only: "only_opens ?N [replicate 16 9 @ [1, 2, 3]] 0" by (simp add: one_message_noise_def)
  obtain r' data err where r: "secure_reads ?N [2, 5, 5]
      (toy_conn (noise_frame (replicate 16 9 @ [1, 2, 3]) @ noise_frame [6, 6])) = (r', data, err)"
    by (metis prod_cases3)
  have "prefix data (concat [[1, 2, 3]])"
    by (rule secure_stream_authentic [OF sync refl seal only _ _ r]) (simp_all add: toy_conn_def)
  with r show ?thesis by simp
qed

text \<open>
  A write larger than 65519 bytes fails with nothing sent, but has advanced the sending
  cipher: the connection stays open and accepts the next write, which the receiver then rejects.
\<close>

lemma large_write_breaks_stream:
  assumes "cipher_sync N R" "cipher_ordered N R" "R a b" "sc_csSend s = Some a"
    and "Encrypt N a p = Inr (a', c)" "65519 < length p"
    and "Encrypt N a' q = Inr (a'', d)" "length q \<le> 65519" "R a' b'"
    and "sc_csRecv r = Some b" "sc_readBuf r = []" "0 < length q"
  shows "\<exists>s1 s2. secure_Write N reliable_net s p = (s1, Inl (ErrNew ''packet too large for Noise framing'')) \<and>
    sc_conn s1 = sc_conn s \<and> secure_Write N reliable_net s1 q = (s2, Inr (length q)) \<and>
    (\<exists>w. conn_out (sc_conn s2) = conn_out (sc_conn s) @ w \<and>
      (\<exists>e. snd (secure_Read N (r\<lparr>sc_conn := (sc_conn r)\<lparr>conn_in := w\<rparr>\<rparr>) n) = Inl e))"
proof -
  have len: "length c = length p + 16" "length d = length q + 16"
    using assms(1,3,5,7,9) unfolding cipher_sync_def by blast+
  let ?s1 = "s\<lparr>sc_csSend := Some a', sc_conn := sc_conn s\<rparr>"
  have w1: "secure_Write N reliable_net s p = (?s1, Inl (ErrNew ''packet too large for Noise framing''))"
    using assms(4-6) len by (simp add: secure_Write_def cs_Encrypt_def writeFrame_reliable)
  have w2: "secure_Write N reliable_net ?s1 q =
      (?s1\<lparr>sc_csSend := Some a'', sc_conn := (sc_conn s)\<lparr>conn_out := conn_out (sc_conn s) @ noise_frame d\<rparr>\<rparr>, Inr (length q))"
    using assms(7,8) len by (simp add: secure_Write_def cs_Encrypt_def writeFrame_reliable)
  obtain e where "Decrypt N b d = Inl e" using assms(2,3,5,7) unfolding cipher_ordered_def by blast
  moreover have "noise_readFrame ((sc_conn r)\<lparr>conn_in := noise_frame d\<rparr>) = ((sc_conn r)\<lparr>conn_in := []\<rparr>, Inr d)"
    using readFrame_on_wire [of "(sc_conn r)\<lparr>conn_in := noise_frame d\<rparr>" d "[]"] assms(8) len by simp
  ultimately have "snd (secure_Read N (r\<lparr>sc_conn := (sc_conn r)\<lparr>conn_in := noise_frame d\<rparr>\<rparr>) n) = Inl e"
    using assms(10,11) by (simp add: secure_Read_def cs_Decrypt_def)
  with w1 w2 show ?thesis by auto
qed

lemma replicate_tag_neq: "replicate 16 (of_nat n :: byte) \<noteq> replicate 16 (of_nat (Suc n))"
  by (simp add: numeral_eq_Suc)

subsection \<open>Handshake\<close>

text \<open>
  What is assumed of the XX pattern of the Noise library for two static key pairs: the three
  messages of an initiator and a responder that read each other's messages go through, carry their
  payloads, fit a frame, and leave cipher states that are in step pairwise. Only the last message
  returns cipher states.
\<close>

definition noise_XX ::
  "('h, 'c) noise_api \<Rightarrow> ('c \<Rightarrow> 'c \<Rightarrow> bool) \<Rightarrow> bytes \<times> bytes \<Rightarrow> bytes \<times> bytes \<Rightarrow> bool" where
  "noise_XX N R i r \<longleftrightarrow>
     (\<exists>hi hr. NewHandshakeState N (fst i) (snd i) True = Inr hi \<and> NewHandshakeState N (fst r) (snd r) False = Inr hr \<and>
       (\<forall>p2 p3. length p2 = 32 \<and> length p3 = 32 \<longrightarrow>
         (\<exists>hi1 m1 hr1 hr2 m2 hi2 hi3 m3 hr3 a c b d.
           WriteMessage N hi [] = Inr (hi1, m1, None, None) \<and> ReadMessage N hr m1 = Inr (hr1, [], None, None) \<and>
           WriteMessage N hr1 p2 = Inr (hr2, m2, None, None) \<and> ReadMessage N hi1 m2 = Inr (hi2, p2, None, None) \<and>
           WriteMessage N hi2 p3 = Inr (hi3, m3, Some a, Some c) \<and> ReadMessage N hr2 m3 = Inr (hr3, p3, Some b, Some d) \<and>
           R a b \<and> R d c \<and> length m1 \<le> 65535 \<and> length m2 \<le> 65535 \<and> length m3 \<le> 65535)))"

text \<open>Both ends of a connection that has gone through the handshake.\<close>

definition in_step :: "('c \<Rightarrow> 'c \<Rightarrow> bool) \<Rightarrow> 'c secure_conn \<Rightarrow> 'c secure_conn \<Rightarrow> bool" where
  "in_step R s r \<longleftrightarrow>
     (\<exists>a b. sc_csSend s = Some a \<and> sc_csRecv r = Some b \<and> R a b) \<and> sc_readBuf r = [] \<and> conn_in (sc_conn r) = []"

lemma readFrame_last: "length b \<le> 65535 \<Longrightarrow>
    noise_readFrame \<lparr>conn_in = noise_frame b, conn_out = w\<rparr> = (\<lparr>conn_in = [], conn_out = w\<rparr>, Inr b)"
  using noise_readFrame_frame [of b "[]" w] by simp

lemma handshake_run:
  assumes "X25519_base N (ed25519PrivateKeyToX25519 N ki) = Inr Xi"
    and "X25519_base N (ed25519PrivateKeyToX25519 N kr) = Inr Xr"
    and "noise_XX N R (ed25519PrivateKeyToX25519 N ki, Xi) (ed25519PrivateKeyToX25519 N kr, Xr)"
    and "length ki = 64" "length kr = 64"
  shows "\<exists>wi wr si sr.
    NewSecureConnection N (\<lambda>_. reliable_net) \<lparr>conn_in = wr, conn_out = []\<rparr> ki True =
      (\<lparr>conn_in = [], conn_out = wi\<rparr>, Inr (si, ed_Public kr)) \<and>
    NewSecureConnection N (\<lambda>_. reliable_net) \<lparr>conn_in = wi, conn_out = []\<rparr> kr False =
      (\<lparr>conn_in = [], conn_out = wr\<rparr>, Inr (sr, ed_Public ki)) \<and>
    in_step R si sr \<and> in_step R sr si"
proof -
  have len: "length (ed_Public ki) = 32" "length (ed_Public kr) = 32"
    using assms(4,5) by (simp_all add: ed_Public_def)
  from assms(3) obtain hi hr where h:
    "NewHandshakeState N (ed25519PrivateKeyToX25519 N ki) Xi True = Inr hi"
    "NewHandshakeState N (ed25519PrivateKeyToX25519 N kr) Xr False = Inr hr" and
    all: "\<And>p2 p3. length p2 = 32 \<and> length p3 = 32 \<longrightarrow>
         (\<exists>hi1 m1 hr1 hr2 m2 hi2 hi3 m3 hr3 a c b d.
           WriteMessage N hi [] = Inr (hi1, m1, None, None) \<and> ReadMessage N hr m1 = Inr (hr1, [], None, None) \<and>
           WriteMessage N hr1 p2 = Inr (hr2, m2, None, None) \<and> ReadMessage N hi1 m2 = Inr (hi2, p2, None, None) \<and>
           WriteMessage N hi2 p3 = Inr (hi3, m3, Some a, Some c) \<and> ReadMessage N hr2 m3 = Inr (hr3, p3, Some b, Some d) \<and>
           R a b \<and> R d c \<and> length m1 \<le> 65535 \<and> length m2 \<le> 65535 \<and> length m3 \<le> 65535)"
    unfolding noise_XX_def by auto
  from all [of "ed_Public kr" "ed_Public ki"] len obtain hi1 m1 hr1 hr2 m2 hi2 hi3 m3 hr3 a c b d where m:
    "WriteMessage N hi [] = Inr (hi1, m1, None, None)" "ReadMessage N hr m1 = Inr (hr1, [], None, None)"
    "WriteMessage N hr1 (ed_Public kr) = Inr (hr2, m2, None, None)"
    "ReadMessage N hi1 m2 = Inr (hi2, ed_Public kr, None, None)"
    "WriteMessage N hi2 (ed_Public ki) = Inr (hi3, m3, Some a, Some c)"
    "ReadMessage N hr2 m3 = Inr (hr3, ed_Public ki, Some b, Some d)"
    "R a b" "R d c" "length m1 \<le> 65535" "length m2 \<le> 65535" "length m3 \<le> 65535"
    by blast
  let ?wi = "noise_frame m1 @ noise_frame m3" and ?wr = "noise_frame m2"
  let ?ci = "\<lparr>conn_in = [], conn_out = ?wi\<rparr>" and ?cr = "\<lparr>conn_in = [], conn_out = ?wr\<rparr>"
  have "NewSecureConnection N (\<lambda>_. reliable_net) \<lparr>conn_in = ?wr, conn_out = []\<rparr> ki True =
      (?ci, Inr (\<lparr>sc_conn = ?ci, sc_csSend = Some a, sc_csRecv = Some c, sc_readBuf = []\<rparr>, ed_Public kr))"
    using m h assms(1) len
    by (simp add: NewSecureConnection_def handshake_initiator_def hs_write_def hs_read_def
        writeFrame_reliable readFrame_last remote_pub_def)
  moreover have "NewSecureConnection N (\<lambda>_. reliable_net) \<lparr>conn_in = ?wi, conn_out = []\<rparr> kr False =
      (?cr, Inr (\<lparr>sc_conn = ?cr, sc_csSend = Some d, sc_csRecv = Some b, sc_readBuf = []\<rparr>, ed_Public ki))"
    using m h assms(2) len
    by (simp add: NewSecureConnection_def handshake_responder_def hs_write_def hs_read_def
        writeFrame_reliable readFrame_last remote_pub_def)
  ultimately show ?thesis
    using m(7,8) by (intro exI conjI) (assumption | simp add: in_step_def)+
qed

text \<open>
  C16. The handshake agrees. An initiator and a responder that read what the other writes both
  return a secure connection and the other's public key, and each side's sending state is in step
  with the other's receiving state, so that what either writes is the stream the other reads.
\<close>

theorem secure_handshake_agrees:
  assumes "X25519_base N (ed25519PrivateKeyToX25519 N ki) = Inr Xi"
    and "X25519_base N (ed25519PrivateKeyToX25519 N kr) = Inr Xr"
    and "noise_XX N R (ed25519PrivateKeyToX25519 N ki, Xi) (ed25519PrivateKeyToX25519 N kr, Xr)"
    and "length ki = 64" "length kr = 64"
  shows "\<exists>wi wr si sr.
    NewSecureConnection N (\<lambda>_. reliable_net) \<lparr>conn_in = wr, conn_out = []\<rparr> ki True =
      (\<lparr>conn_in = [], conn_out = wi\<rparr>, Inr (si, ed_Public kr)) \<and>
    NewSecureConnection N (\<lambda>_. reliable_net) \<lparr>conn_in = wi, conn_out = []\<rparr> kr False =
      (\<lparr>conn_in = [], conn_out = wr\<rparr>, Inr (sr, ed_Public ki)) \<and>
    in_step R si sr \<and> in_step R sr si"
  using assms by (rule handshake_run)

lemma toy_XX: "noise_XX toy_noise (=) i r"
  unfolding noise_XX_def
proof (rule exI [of _ 0], rule exI [of _ 0], intro conjI allI impI)
  fix p2 p3 :: bytes
  assume p: "length p2 = 32 \<and> length p3 = 32"
  show "\<exists>hi1 m1 hr1 hr2 m2 hi2 hi3 m3 hr3 a c b d.
      WriteMessage toy_noise 0 [] = Inr (hi1, m1, None, None) \<and> ReadMessage toy_noise 0 m1 = Inr (hr1, [], None, None) \<and>
      WriteMessage toy_noise hr1 p2 = Inr (hr2, m2, None, None) \<and> ReadMessage toy_noise hi1 m2 = Inr (hi2, p2, None, None) \<and>
      WriteMessage toy_noise hi2 p3 = Inr (hi3, m3, Some a, Some c) \<and> ReadMessage toy_noise hr2 m3 = Inr (hr3, p3, Some b, Some d) \<and>
      a = b \<and> d = c \<and> length m1 \<le> 65535 \<and> length m2 \<le> 65535 \<and> length m3 \<le> 65535"
    using p by (simp add: toy_noise_def)
qed (simp_all add: toy_noise_def)

theorem secure_handshake_agrees_witness:
  "\<exists>wi wr si sr.
    NewSecureConnection toy_noise (\<lambda>_. reliable_net) \<lparr>conn_in = wr, conn_out = []\<rparr> (replicate 64 1) True =
      (\<lparr>conn_in = [], conn_out = wi\<rparr>, Inr (si, replicate 32 2)) \<and>
    NewSecureConnection toy_noise (\<lambda>_. reliable_net) \<lparr>conn_in = wi, conn_out = []\<rparr> (replicate 64 2) False =
      (\<lparr>conn_in = [], conn_out = wr\<rparr>, Inr (sr, replicate 32 1)) \<and> in_step (=) si sr"
proof -
  have "X25519_base toy_noise k = Inr k" for k by (simp add: toy_noise_def)
  from secure_handshake_agrees [OF this this toy_XX, of "replicate 64 1" "replicate 64 2"]
  show ?thesis by (auto simp: ed_Public_def)
qed

text \<open>
  The peer's identity is claimed, not proved. Whoever completes the handshake with a key of
  their own, but sends a victim's public key as the payload (here by using a private key whose second
  half is that key), is returned to the initiator under the victim's identity.
\<close>

lemma peer_identity_not_proved:
  assumes "X25519_base N (ed25519PrivateKeyToX25519 N ki) = Inr Xi"
    and "X25519_base N (ed25519PrivateKeyToX25519 N (attacker_seed @ victim)) = Inr Xr"
    and "noise_XX N R (ed25519PrivateKeyToX25519 N ki, Xi)
      (ed25519PrivateKeyToX25519 N (attacker_seed @ victim), Xr)"
    and "length ki = 64" "length attacker_seed = 32" "length victim = 32"
  shows "\<exists>wr wi si. NewSecureConnection N (\<lambda>_. reliable_net) \<lparr>conn_in = wr, conn_out = []\<rparr> ki True =
    (\<lparr>conn_in = [], conn_out = wi\<rparr>, Inr (si, victim))"
proof -
  have "length (attacker_seed @ victim) = 64" using assms(5,6) by simp
  from handshake_run [OF assms(1-4) this] show ?thesis using assms(5) by (auto simp: ed_Public_def)
qed

text \<open>The X25519 scalar is clamped: a multiple of 8 with bit 254 set and bit 255 clear.\<close>

lemma x25519_scalar_clamped:
  assumes "64 \<le> length (Sum512 N (ed_Seed k))"
  defines "x \<equiv> ed25519PrivateKeyToX25519 N k"
  shows "length x = 32" "take_bit 3 (x ! 0) = 0" "bit (x ! 31) 6" "\<not> bit (x ! 31) 7"
proof -
  show "length x = 32" using assms by (simp add: x_def ed25519PrivateKeyToX25519_def Let_def)
  have "x ! 0 = take 32 (Sum512 N (ed_Seed k)) ! 0 AND 248"
    "x ! 31 = (take 32 (Sum512 N (ed_Seed k)) ! 31 AND 127) OR 64"
    using assms(1) by (simp_all add: x_def ed25519PrivateKeyToX25519_def Let_def)
  moreover have "take_bit 3 (w AND 248) = 0" "bit ((w AND 127) OR 64) 6" "\<not> bit ((w AND 127) OR 64) 7" for w :: byte
  proof -
    have "take_bit 3 (248 :: byte) = 0" by simp
    then show "take_bit 3 (w AND 248) = 0" by (metis take_bit_and bit.conj_zero_right)
    show "bit ((w AND 127) OR 64) 6" by (simp add: bit_simps)
    show "\<not> bit ((w AND 127) OR 64) 7" by (simp add: bit_simps)
  qed
  ultimately show "take_bit 3 (x ! 0) = 0" "bit (x ! 31) 6" "\<not> bit (x ! 31) 7" by simp_all
qed

subsection \<open>The node key\<close>

text \<open>
  The node keeps its key. Once a call has succeeded with a key of 64 bytes, every later call that
  can read the file returns the same key and leaves the file, whatever the key generator would return.
\<close>

lemma node_key_is_kept:
  assumes "LoadOrGenerateNodeKey E file = (file', Inr k)" "length k = 64" "k_read_err E' = None"
  shows "LoadOrGenerateNodeKey E' file' = (file', Inr k)"
proof -
  have "file' = Some k"
    using assms(1) by (auto simp: LoadOrGenerateNodeKey_def Let_def
        split: option.splits sum.splits if_splits prod.splits)
  then show ?thesis using assms(2,3) by (simp add: LoadOrGenerateNodeKey_def)
qed

end
