(* ===== verification/Utp_Conn.thy ===== *)
theory Utp_Conn
  imports Utp_Packet Go_Net
begin

section \<open>uTP connections and the socket multiplexer (pkg/utp: conn.go, mux.go, listener.go)\<close>

text \<open>
  Every goroutine of the transport is modelled by the atomic steps between its blocking points: a
  method takes the state and what the \<open>select\<close> it waits on returned, and gives the state at its next
  blocking point. A buffered channel is the list of its elements, oldest first; a send in a
  \<open>select\<close> with a default drops its element when the channel is full. A channel that is only ever
  closed is the flag that says so, and closing it twice panics.
\<close>

definition chan_offer :: "nat \<Rightarrow> 'a \<Rightarrow> 'a list \<Rightarrow> 'a list" where
  "chan_offer cap x q = (if length q < cap then q @ [x] else q)"

datatype conn_state = STATE_NONE | STATE_SYN_SENT | STATE_SYN_RECEIVED | STATE_CONNECTED | STATE_FIN_SENT | STATE_CLOSED

text \<open>Deadlines are points in time; \<open>None\<close> is the zero time, no deadline.\<close>

record utp_conn =
  uc_state :: conn_state
  uc_remoteAddr :: net_addr
  uc_recvID :: u16
  uc_sendID :: u16
  uc_seq :: u16
  uc_ack :: u16
  uc_readBuf :: "utp_packet list"
  uc_closeChan :: bool
  uc_finAcked :: bool
  uc_ackChan :: "u16 list"
  uc_readQueue :: "bytes list"
  uc_unread :: bytes
  uc_readDeadline :: "int option"
  uc_writeDeadline :: "int option"

text \<open>What a step does outside the connection: datagrams sent, and the registration dropped.\<close>

datatype utp_effect = SendTo bytes net_addr | Deregister u16

definition encoded :: "utp_packet \<Rightarrow> bytes" where
  "encoded p = (case encode_packet p of Inl _ \<Rightarrow> [] | Inr d \<Rightarrow> d)"

text \<open>A \<open>Packet\<close> literal of the code: type, version 1, connection ID, sequence and ack number.\<close>

definition mk_packet :: "utp_type \<Rightarrow> u16 \<Rightarrow> u16 \<Rightarrow> u16 \<Rightarrow> bytes \<Rightarrow> utp_packet" where
  "mk_packet ty cid sq ak pl =
     \<lparr>p_header = zero_header\<lparr>h_type := ty, h_version := 1, h_conn_id := cid, h_seq_num := sq, h_ack_num := ak\<rparr>,
      p_payload = pl\<rparr>"

subsection \<open>handlePacket and the run loop\<close>

definition close_chan :: "utp_conn \<Rightarrow> utp_conn result" where
  "close_chan c = (if uc_closeChan c then Inl (Panic ''close of closed channel'') else Inr (c\<lparr>uc_closeChan := True\<rparr>))"

definition send_ack :: "utp_conn \<Rightarrow> utp_packet \<Rightarrow> utp_effect" where
  "send_ack c pkt =
     SendTo (encoded (mk_packet ST_STATE (uc_sendID c) 0 (h_seq_num (p_header pkt)) [])) (uc_remoteAddr c)"

definition handlePacket :: "utp_packet \<Rightarrow> utp_conn \<Rightarrow> (utp_conn \<times> utp_effect list) result" where
  "handlePacket pkt c =
     (let h = p_header pkt in
      if h_type h = ST_FIN then
        let c1 = c\<lparr>uc_ack := h_seq_num h, uc_state := STATE_CLOSED\<rparr> in
        (case close_chan c1 of Inl e \<Rightarrow> Inl e
         | Inr c2 \<Rightarrow> Inr (c2, [send_ack c pkt, Deregister (uc_recvID c)]))
      else if h_type h = ST_STATE then
        (if uc_state c = STATE_FIN_SENT \<and> h_ack_num h = uc_seq c then
           let c1 = c\<lparr>uc_state := STATE_CLOSED, uc_finAcked := True\<rparr> in
           (case close_chan c1 of Inl e \<Rightarrow> Inl e | Inr c2 \<Rightarrow> Inr (c2, [Deregister (uc_recvID c)]))
         else Inr (c\<lparr>uc_ackChan := chan_offer 100 (h_ack_num h) (uc_ackChan c)\<rparr>, []))
      else if h_type h = ST_DATA then
        Inr (c\<lparr>uc_ack := h_seq_num h, uc_readQueue := chan_offer 100 (p_payload pkt) (uc_readQueue c)\<rparr>,
             [send_ack c pkt])
      else Inr (c, []))"

text \<open>
  The run loop takes packets from \<open>readBuf\<close> until it sees \<open>closeChan\<close> closed; when both are ready
  \<open>select\<close> may choose either.
\<close>

datatype run_choice = RunPacket | RunClosed

definition run_step :: "run_choice \<Rightarrow> utp_conn \<Rightarrow> (utp_conn \<times> utp_effect list) result option" where
  "run_step ch c =
     (case ch of
        RunPacket \<Rightarrow> (case uc_readBuf c of [] \<Rightarrow> None
          | pkt # r \<Rightarrow> Some (handlePacket pkt (c\<lparr>uc_readBuf := r\<rparr>)))
      | RunClosed \<Rightarrow> if uc_closeChan c then Some (Inr (c, [])) else None)"

subsection \<open>Read\<close>

datatype read_choice = ReadQueue | ReadClosed | ReadTimeout

definition IO_TIMEOUT :: error where "IO_TIMEOUT = ErrNew ''i/o timeout''"

text \<open>\<open>None\<close>: the chosen case of the \<open>select\<close> is not ready. \<open>now\<close> is the time when \<open>Read\<close> is called.\<close>

definition utp_Read :: "int \<Rightarrow> read_choice \<Rightarrow> nat \<Rightarrow> utp_conn \<Rightarrow> (utp_conn \<times> bytes result) option" where
  "utp_Read now ch n c =
     (if uc_unread c \<noteq> [] then
        Some (c\<lparr>uc_unread := drop n (uc_unread c)\<rparr>, Inr (take n (uc_unread c)))
      else if (case uc_readDeadline c of None \<Rightarrow> False | Some rd \<Rightarrow> rd \<le> now) then Some (c, Inl IO_TIMEOUT)
      else case ch of
        ReadQueue \<Rightarrow>
          (case uc_readQueue c of [] \<Rightarrow> None
           | payload # r \<Rightarrow>
               Some ((if n < length payload then c\<lparr>uc_readQueue := r, uc_unread := drop n payload\<rparr>
                      else c\<lparr>uc_readQueue := r\<rparr>), Inr (take n payload)))
      | ReadClosed \<Rightarrow> if uc_closeChan c then Some (c, Inl EOF) else None
      | ReadTimeout \<Rightarrow> if uc_readDeadline c \<noteq> None then Some (c, Inl IO_TIMEOUT) else None)"

subsection \<open>Write\<close>

text \<open>
  \<open>Write\<close> is a stop-and-wait loop over chunks of 1400 bytes. Its local variables are in the status:
  the packet it is about to transmit or waits for an ack of, with the bytes acknowledged before it.
\<close>

datatype write_status =
    WTransmit nat utp_packet
  | WWait nat utp_packet
  | WDone nat "error option"

definition chunkSize :: nat where "chunkSize = 1400"

definition chunk_end :: "bytes \<Rightarrow> nat \<Rightarrow> nat" where
  "chunk_end b acked = (if length b < acked + chunkSize then length b else acked + chunkSize)"

definition write_next :: "bytes \<Rightarrow> nat \<Rightarrow> utp_conn \<Rightarrow> utp_conn \<times> write_status" where
  "write_next b acked c =
     (if acked < length b then
        let c1 = c\<lparr>uc_seq := uc_seq c + 1\<rparr> in
        (c1, WTransmit acked
           (mk_packet ST_DATA (uc_sendID c) (uc_seq c1) (uc_ack c) (gslice acked (chunk_end b acked) b)))
      else (c, WDone acked None))"

definition write_start :: "bytes \<Rightarrow> utp_conn \<Rightarrow> utp_conn \<times> write_status" where
  "write_start b c =
     (if uc_state c \<noteq> STATE_CONNECTED then (c, WDone 0 (Some (ErrNew ''connection not open'')))
      else write_next b 0 c)"

text \<open>After \<open>WriteTo\<close> has returned \<open>err\<close>, at time \<open>now\<close>.\<close>

definition write_sent :: "int \<Rightarrow> error option \<Rightarrow> nat \<Rightarrow> utp_packet \<Rightarrow> utp_conn \<Rightarrow> write_status" where
  "write_sent now err acked pkt c =
     (case err of Some e \<Rightarrow> WDone acked (Some e)
      | None \<Rightarrow>
          if (case uc_writeDeadline c of None \<Rightarrow> False | Some wd \<Rightarrow> wd \<le> now)
          then WDone acked (Some IO_TIMEOUT) else WWait acked pkt)"

definition write_on_ack :: "bytes \<Rightarrow> nat \<Rightarrow> utp_packet \<Rightarrow> utp_conn \<Rightarrow> (utp_conn \<times> write_status) option" where
  "write_on_ack b acked pkt c =
     (case uc_ackChan c of [] \<Rightarrow> None
      | ack # r \<Rightarrow>
          let c1 = c\<lparr>uc_ackChan := r\<rparr> in
          Some (if ack = h_seq_num (p_header pkt) then write_next b (chunk_end b acked) c1
                else (c1, WTransmit acked pkt)))"

definition write_on_timeout :: "nat \<Rightarrow> utp_packet \<Rightarrow> utp_conn \<Rightarrow> write_status" where
  "write_on_timeout acked pkt c =
     (if uc_state c = STATE_CLOSED then WDone acked (Some (ErrNew ''connection closed during write''))
      else WTransmit acked pkt)"

subsection \<open>Close, deadlines\<close>

definition close_start :: "utp_conn \<Rightarrow> utp_conn \<times> utp_packet option" where
  "close_start c =
     (if uc_state c = STATE_CLOSED then (c, None)
      else let c1 = c\<lparr>uc_state := STATE_FIN_SENT, uc_seq := uc_seq c + 1\<rparr>
        in (c1, Some (mk_packet ST_FIN (uc_sendID c) (uc_seq c1) 0 [])))"

datatype close_choice = FinAcked | CloseTimeout

definition close_finish :: "close_choice \<Rightarrow> utp_conn \<Rightarrow> (utp_conn \<times> utp_effect list) result option" where
  "close_finish ch c =
     (case ch of
        FinAcked \<Rightarrow> if uc_finAcked c then Some (Inr (c\<lparr>uc_finAcked := False\<rparr>, [])) else None
      | CloseTimeout \<Rightarrow>
          Some (if uc_state c \<noteq> STATE_CLOSED then
                  (case close_chan (c\<lparr>uc_state := STATE_CLOSED\<rparr>) of Inl e \<Rightarrow> Inl e
                   | Inr c1 \<Rightarrow> Inr (c1, [Deregister (uc_recvID c)]))
                else Inr (c, [])))"

definition SetDeadline :: "int option \<Rightarrow> utp_conn \<Rightarrow> utp_conn" where
  "SetDeadline t c = c\<lparr>uc_readDeadline := t, uc_writeDeadline := t\<rparr>"

definition SetReadDeadline :: "int option \<Rightarrow> utp_conn \<Rightarrow> utp_conn" where
  "SetReadDeadline t c = c\<lparr>uc_readDeadline := t\<rparr>"

definition SetWriteDeadline :: "int option \<Rightarrow> utp_conn \<Rightarrow> utp_conn" where
  "SetWriteDeadline t c = c\<lparr>uc_writeDeadline := t\<rparr>"

subsection \<open>The multiplexer and the listener\<close>

text \<open>
  Connections and listeners are shared by pointer between the multiplexer and their users: an
  endpoint holds the objects, and a pointer is an index. \<open>mx_conns\<close> maps an ID to the connection
  whose \<open>readBuf\<close> is registered for it.
\<close>

record socket_mux =
  mx_conns :: "u16 \<Rightarrow> nat option"
  mx_listener :: "nat option"
  mx_closed :: bool
  mx_relayServer :: string
  mx_stunChan :: "bytes list"

record utp_listener =
  ln_accept :: "nat list"
  ln_closed :: bool

record endpoint =
  ep_mux :: socket_mux
  ep_conns :: "utp_conn list"
  ep_listeners :: "utp_listener list"

definition NewSocketMux :: socket_mux where
  "NewSocketMux = \<lparr>mx_conns = (\<lambda>_. None), mx_listener = None, mx_closed = False, mx_relayServer = [], mx_stunChan = []\<rparr>"

definition RegisterConn :: "u16 \<Rightarrow> nat \<Rightarrow> socket_mux \<Rightarrow> socket_mux result" where
  "RegisterConn cid i m =
     (if mx_conns m cid \<noteq> None then Inl (ErrNew ''connection ID already registered'')
      else Inr (m\<lparr>mx_conns := (mx_conns m)(cid \<mapsto> i)\<rparr>))"

definition DeregisterConn :: "u16 \<Rightarrow> socket_mux \<Rightarrow> socket_mux" where
  "DeregisterConn cid m = m\<lparr>mx_conns := (mx_conns m)(cid := None)\<rparr>"

definition RegisterListener :: "nat \<Rightarrow> socket_mux \<Rightarrow> socket_mux" where
  "RegisterListener l m = m\<lparr>mx_listener := Some l\<rparr>"

definition DeregisterListener :: "socket_mux \<Rightarrow> socket_mux" where
  "DeregisterListener m = m\<lparr>mx_listener := None\<rparr>"

definition SetRelayServer :: "string \<Rightarrow> socket_mux \<Rightarrow> socket_mux" where
  "SetRelayServer addr m = m\<lparr>mx_relayServer := addr\<rparr>"

definition mux_Stop :: "socket_mux \<Rightarrow> socket_mux" where
  "mux_Stop m = m\<lparr>mx_closed := True\<rparr>"

definition NewUTPListener :: "endpoint \<Rightarrow> endpoint \<times> nat" where
  "NewUTPListener ep =
     (let l = length (ep_listeners ep) in
      (ep\<lparr>ep_listeners := ep_listeners ep @ [\<lparr>ln_accept = [], ln_closed = False\<rparr>],
          ep_mux := RegisterListener l (ep_mux ep)\<rparr>, l))"

datatype accept_choice = AcceptConn | AcceptClosed

definition listener_Accept :: "accept_choice \<Rightarrow> utp_listener \<Rightarrow> (utp_listener \<times> nat result) option" where
  "listener_Accept ch l =
     (case ch of
        AcceptConn \<Rightarrow> (case ln_accept l of [] \<Rightarrow> None | c # r \<Rightarrow> Some (l\<lparr>ln_accept := r\<rparr>, Inr c))
      | AcceptClosed \<Rightarrow> if ln_closed l then Some (l, Inl (ErrNew ''listener closed'')) else None)"

definition listener_Close :: "nat \<Rightarrow> endpoint \<Rightarrow> endpoint result" where
  "listener_Close i ep =
     (let l = ep_listeners ep ! i;
          m = mux_Stop (DeregisterListener (ep_mux ep))
      in if ln_closed l then Inl (Panic ''close of closed channel'')
         else Inr (ep\<lparr>ep_mux := m, ep_listeners := (ep_listeners ep)[i := l\<lparr>ln_closed := True\<rparr>]\<rparr>))"

text \<open>A fresh connection of \<open>DialUTP\<close> and one of the multiplexer.\<close>

definition new_conn :: "conn_state \<Rightarrow> net_addr \<Rightarrow> u16 \<Rightarrow> u16 \<Rightarrow> u16 \<Rightarrow> u16 \<Rightarrow> utp_conn" where
  "new_conn st addr recvID sendID sq ak =
     \<lparr>uc_state = st, uc_remoteAddr = addr, uc_recvID = recvID, uc_sendID = sendID, uc_seq = sq, uc_ack = ak,
      uc_readBuf = [], uc_closeChan = False, uc_finAcked = False, uc_ackChan = [], uc_readQueue = [],
      uc_unread = [], uc_readDeadline = None, uc_writeDeadline = None\<rparr>"

definition enqueue_packet :: "utp_packet \<Rightarrow> utp_conn \<Rightarrow> utp_conn" where
  "enqueue_packet pkt c = c\<lparr>uc_readBuf := chan_offer 100 pkt (uc_readBuf c)\<rparr>"

definition stunMagicCookie :: u32 where "stunMagicCookie = 0x2112A442"

text \<open>One iteration of the multiplexer's \<open>readLoop\<close>; \<open>rnd\<close> is the random sequence number.\<close>

definition accept_syn :: "u16 \<Rightarrow> utp_packet \<Rightarrow> net_addr \<Rightarrow> nat \<Rightarrow> endpoint \<Rightarrow> endpoint \<times> utp_effect list" where
  "accept_syn rnd pkt src l ep =
     (let h = p_header pkt; recvID = h_conn_id h; sendID = recvID + 1;
          c = new_conn STATE_CONNECTED src recvID sendID rnd (h_seq_num h);
          i = length (ep_conns ep)
      in case RegisterConn recvID i (ep_mux ep) of Inl _ \<Rightarrow> (ep, [])
         | Inr m \<Rightarrow>
             let ln = ep_listeners ep ! l in
             (ep\<lparr>ep_mux := m, ep_conns := ep_conns ep @ [c],
                 ep_listeners := (ep_listeners ep)[l := ln\<lparr>ln_accept := chan_offer 100 i (ln_accept ln)\<rparr>]\<rparr>,
              [SendTo (encoded (mk_packet ST_STATE sendID 0 (h_seq_num h) [])) src]))"

definition mux_on_datagram :: "u16 \<Rightarrow> bytes \<Rightarrow> net_addr \<Rightarrow> endpoint \<Rightarrow> endpoint \<times> utp_effect list" where
  "mux_on_datagram rnd raw src ep =
     (if 8 \<le> length raw \<and> be_dec (gslice 4 8 raw) = stunMagicCookie then
        (ep\<lparr>ep_mux := (ep_mux ep)\<lparr>mx_stunChan := chan_offer 100 raw (mx_stunChan (ep_mux ep))\<rparr>\<rparr>, [])
      else case decode_packet raw of Inl _ \<Rightarrow> (ep, [])
        | Inr pkt \<Rightarrow>
            (case mx_conns (ep_mux ep) (h_conn_id (p_header pkt)) of
               Some i \<Rightarrow> (ep\<lparr>ep_conns := (ep_conns ep)[i := enqueue_packet pkt (ep_conns ep ! i)]\<rparr>, [])
             | None \<Rightarrow>
                 (case mx_listener (ep_mux ep) of
                    Some l \<Rightarrow> if h_type (p_header pkt) = ST_SYN then accept_syn rnd pkt src l ep else (ep, [])
                  | None \<Rightarrow> (ep, []))))"

subsection \<open>DialUTP\<close>

text \<open>
  \<open>DialUTP\<close> and \<open>dialUTPWithTimeout\<close> differ in the timeout only. \<open>s\<close> is the random ID between 1000
  and 60999. After the SYN the caller waits for one packet or the timeout.
\<close>

definition dial_start :: "u16 \<Rightarrow> net_addr \<Rightarrow> error option \<Rightarrow> endpoint \<Rightarrow> endpoint \<times> (nat \<times> utp_effect) result" where
  "dial_start s addr write_err ep =
     (let recvID = s + 1; sendID = s;
          c = new_conn STATE_SYN_SENT addr recvID sendID 1 0;
          i = length (ep_conns ep)
      in case RegisterConn recvID i (ep_mux ep) of Inl e \<Rightarrow> (ep, Inl e)
         | Inr m \<Rightarrow>
             (case encode_packet (mk_packet ST_SYN sendID (uc_seq c) 0 []) of
                Inl e \<Rightarrow> (ep\<lparr>ep_mux := DeregisterConn recvID m\<rparr>, Inl e)
              | Inr data \<Rightarrow>
                  (case write_err of
                     Some e \<Rightarrow> (ep\<lparr>ep_mux := DeregisterConn recvID m\<rparr>, Inl e)
                   | None \<Rightarrow> (ep\<lparr>ep_mux := m, ep_conns := ep_conns ep @ [c]\<rparr>, Inr (i, SendTo data addr)))))"

datatype dial_choice = DialPacket | DialTimeout

definition dial_failed :: "utp_conn \<Rightarrow> endpoint \<Rightarrow> endpoint \<times> nat result" where
  "dial_failed c ep =
     (ep\<lparr>ep_mux := DeregisterConn (uc_recvID c) (ep_mux ep)\<rparr>, Inl (ErrNew ''uTP connection handshake timed out''))"

definition dial_wait :: "dial_choice \<Rightarrow> nat \<Rightarrow> endpoint \<Rightarrow> (endpoint \<times> nat result) option" where
  "dial_wait ch i ep =
     (let c = ep_conns ep ! i in
      case ch of
        DialTimeout \<Rightarrow> Some (dial_failed c ep)
      | DialPacket \<Rightarrow>
          (case uc_readBuf c of [] \<Rightarrow> None
           | pkt # r \<Rightarrow>
               let h = p_header pkt; c1 = c\<lparr>uc_readBuf := r\<rparr> in
               Some (if h_type h = ST_STATE \<and> h_ack_num h = uc_seq c
                     then (ep\<lparr>ep_conns := (ep_conns ep)[i := c1\<lparr>uc_state := STATE_CONNECTED, uc_ack := h_seq_num h\<rparr>]\<rparr>, Inr i)
                     else dial_failed c (ep\<lparr>ep_conns := (ep_conns ep)[i := c1]\<rparr>))))"

text \<open>One step of the run loop of a connection of the endpoint, with its effect on the multiplexer.\<close>

definition apply_effect :: "utp_effect \<Rightarrow> socket_mux \<Rightarrow> socket_mux" where
  "apply_effect e m = (case e of Deregister cid \<Rightarrow> DeregisterConn cid m | SendTo _ _ \<Rightarrow> m)"

definition endpoint_run :: "run_choice \<Rightarrow> nat \<Rightarrow> endpoint \<Rightarrow> (endpoint \<times> utp_effect list) result option" where
  "endpoint_run ch i ep =
     (case run_step ch (ep_conns ep ! i) of None \<Rightarrow> None
      | Some (Inl e) \<Rightarrow> Some (Inl e)
      | Some (Inr (c, es)) \<Rightarrow>
          Some (Inr (ep\<lparr>ep_conns := (ep_conns ep)[i := c], ep_mux := fold apply_effect es (ep_mux ep)\<rparr>, es)))"

subsection \<open>Routing\<close>

lemma mk_packet_simps [simp]:
  "h_type (p_header (mk_packet ty cid sq ak pl)) = ty" "h_conn_id (p_header (mk_packet ty cid sq ak pl)) = cid"
  "h_seq_num (p_header (mk_packet ty cid sq ak pl)) = sq" "h_ack_num (p_header (mk_packet ty cid sq ak pl)) = ak"
  "p_payload (mk_packet ty cid sq ak pl) = pl"
  by (simp_all add: mk_packet_def)

lemma mk_packet_eq [simp]:
  "mk_packet ty cid sq ak pl = mk_packet ty' cid' sq' ak' pl' \<longleftrightarrow>
     ty = ty' \<and> cid = cid' \<and> sq = sq' \<and> ak = ak' \<and> pl = pl'"
  by (auto simp: mk_packet_def zero_header_def)

text \<open>The packets the code builds survive the wire and are not mistaken for STUN messages.\<close>

lemma decode_mk_packet:
  assumes "ty \<in> {ST_DATA, ST_FIN, ST_STATE, ST_SYN}"
  shows "decode_packet (encoded (mk_packet ty cid sq ak pl)) = Inr (mk_packet ty cid sq ak pl)"
proof -
  obtain d where d: "encode_packet (mk_packet ty cid sq ak pl) = Inr d" by (simp add: encode_packet_def Let_def)
  have "wire_packet (mk_packet ty cid sq ak pl)"
    using assms by (auto simp: wire_packet_def mk_packet_def ST_defs)
  with d show ?thesis by (simp add: encoded_def decode_packet_iff)
qed

lemma encoded_not_stun:
  "\<not> (8 \<le> length (encoded (mk_packet ty cid sq ak pl)) \<and>
      be_dec (gslice 4 8 (encoded (mk_packet ty cid sq ak pl))) = stunMagicCookie)"
proof -
  have "gslice 4 8 (encoded (mk_packet ty cid sq ak pl)) = put_u32 0"
    by (simp add: encoded_def encode_packet_def mk_packet_def zero_header_def gslice_simps Let_def)
  then show ?thesis by (simp add: stunMagicCookie_def)
qed

lemma mux_routes:
  assumes "ty \<in> {ST_DATA, ST_FIN, ST_STATE, ST_SYN}" "mx_conns (ep_mux ep) cid = Some i"
  shows "mux_on_datagram rnd (encoded (mk_packet ty cid sq ak pl)) src ep =
    (ep\<lparr>ep_conns := (ep_conns ep)[i := enqueue_packet (mk_packet ty cid sq ak pl) (ep_conns ep ! i)]\<rparr>, [])"
  unfolding mux_on_datagram_def if_not_P [OF encoded_not_stun] decode_mk_packet [OF assms(1)]
  using assms(2) by (simp add: mk_packet_def)

text \<open>Two connections that send to each other, each registered where the other's packets arrive.\<close>

definition paired :: "nat \<Rightarrow> endpoint \<Rightarrow> nat \<Rightarrow> endpoint \<Rightarrow> bool" where
  "paired i a j b \<longleftrightarrow>
     (let c = ep_conns a ! i; d = ep_conns b ! j in
      i < length (ep_conns a) \<and> j < length (ep_conns b) \<and>
      uc_state c = STATE_CONNECTED \<and> uc_state d = STATE_CONNECTED \<and>
      uc_sendID c = uc_recvID d \<and> uc_sendID d = uc_recvID c \<and>
      mx_conns (ep_mux a) (uc_recvID c) = Some i \<and> mx_conns (ep_mux b) (uc_recvID d) = Some j)"

text \<open>
  Dialling connects. When the dialler's ID is free on both sides and the server listens, the SYN
  creates a connection there, its answer ends the dial with a connection, the listener returns the
  server's end from \<open>Accept\<close>, and the two ends are paired: what either sends is queued for the other.
\<close>

lemma dial_connects:
  assumes "mx_conns (ep_mux cl) (s + 1) = None" "mx_conns (ep_mux sv) s = None"
    and "mx_listener (ep_mux sv) = Some l" "l < length (ep_listeners sv)" "ln_accept (ep_listeners sv ! l) = []"
  shows "\<exists>cl1 i syn sv1 synack cl2 cl3 ln.
    dial_start s sa None cl = (cl1, Inr (i, SendTo syn sa)) \<and>
    mux_on_datagram rnd syn ca sv = (sv1, [SendTo synack ca]) \<and>
    mux_on_datagram rnd' synack sa cl1 = (cl2, []) \<and>
    dial_wait DialPacket i cl2 = Some (cl3, Inr i) \<and>
    listener_Accept AcceptConn (ep_listeners sv1 ! l) = Some (ln, Inr (length (ep_conns sv))) \<and>
    paired i cl3 (length (ep_conns sv)) sv1"
proof -
  let ?i = "length (ep_conns cl)" and ?j = "length (ep_conns sv)"
  let ?syn = "mk_packet ST_SYN s 1 0 []" and ?ack = "mk_packet ST_STATE (s + 1) 0 1 []"
  let ?c = "new_conn STATE_SYN_SENT sa (s + 1) s 1 0"
  let ?d = "new_conn STATE_CONNECTED ca s (s + 1) rnd 1"
  let ?cl1 = "cl\<lparr>ep_mux := (ep_mux cl)\<lparr>mx_conns := (mx_conns (ep_mux cl))(s + 1 \<mapsto> ?i)\<rparr>, ep_conns := ep_conns cl @ [?c]\<rparr>"
  let ?sv1 = "sv\<lparr>ep_mux := (ep_mux sv)\<lparr>mx_conns := (mx_conns (ep_mux sv))(s \<mapsto> ?j)\<rparr>, ep_conns := ep_conns sv @ [?d],
    ep_listeners := (ep_listeners sv)[l := (ep_listeners sv ! l)\<lparr>ln_accept := [?j]\<rparr>]\<rparr>"
  let ?cl2 = "?cl1\<lparr>ep_conns := (ep_conns ?cl1)[?i := enqueue_packet ?ack ?c]\<rparr>"
  let ?cl3 = "?cl2\<lparr>ep_conns := (ep_conns ?cl2)[?i := ?c\<lparr>uc_state := STATE_CONNECTED, uc_ack := 0\<rparr>]\<rparr>"
  obtain d where d: "encode_packet ?syn = Inr d" "encoded ?syn = d"
    by (simp add: encode_packet_def encoded_def Let_def)
  have "dial_start s sa None cl = (?cl1, Inr (?i, SendTo (encoded ?syn) sa))"
    using assms(1) d by (simp add: dial_start_def RegisterConn_def new_conn_def Let_def)
  moreover have "mux_on_datagram rnd (encoded ?syn) ca sv = (?sv1, [SendTo (encoded ?ack) ca])"
    unfolding mux_on_datagram_def if_not_P [OF encoded_not_stun] decode_mk_packet [of ST_SYN, simplified]
    using assms(2-5)
    by (simp add: mk_packet_def accept_syn_def RegisterConn_def chan_offer_def Let_def)
  moreover have "mux_on_datagram rnd' (encoded ?ack) sa ?cl1 = (?cl2, [])"
    by (subst mux_routes [of _ _ _ ?i]) (simp_all add: nth_append)
  moreover have "dial_wait DialPacket ?i ?cl2 = Some (?cl3, Inr ?i)"
    by (simp add: dial_wait_def enqueue_packet_def chan_offer_def mk_packet_def new_conn_def zero_header_def Let_def)
  moreover have "listener_Accept AcceptConn (ep_listeners ?sv1 ! l) =
      Some ((ep_listeners sv ! l)\<lparr>ln_accept := []\<rparr>, Inr ?j)"
    using assms(4) by (simp add: listener_Accept_def)
  moreover have "paired ?i ?cl3 ?j ?sv1" by (simp add: paired_def new_conn_def)
  ultimately show ?thesis by blast
qed

subsection \<open>Two FIN packets\<close>

text \<open>
  Two FIN datagrams crash the process. Whoever knows a connection's ID, from whatever addresses,
  makes its run loop close \<open>closeChan\<close> twice, if both arrive before the first is handled.
\<close>

lemma double_fin_panics:
  assumes "mx_conns (ep_mux ep) cid = Some i" "i < length (ep_conns ep)" "uc_readBuf (ep_conns ep ! i) = []"
    and "mux_on_datagram r1 (encoded (mk_packet ST_FIN cid sq1 ak1 [])) src1 ep = (ep1, es1)"
    and "mux_on_datagram r2 (encoded (mk_packet ST_FIN cid sq2 ak2 [])) src2 ep1 = (ep2, es2)"
    and "endpoint_run RunPacket i ep2 = Some (Inr (ep3, es3))"
  shows "endpoint_run RunPacket i ep3 = Some (Inl (Panic ''close of closed channel''))"
proof -
  let ?p1 = "mk_packet ST_FIN cid sq1 ak1 []" and ?p2 = "mk_packet ST_FIN cid sq2 ak2 []"
  have e1: "ep1 = ep\<lparr>ep_conns := (ep_conns ep)[i := (ep_conns ep ! i)\<lparr>uc_readBuf := [?p1]\<rparr>]\<rparr>"
    using assms(1-4) mux_routes [of ST_FIN ep cid i] by (simp add: enqueue_packet_def chan_offer_def)
  then have "ep2 = ep1\<lparr>ep_conns := (ep_conns ep1)[i := (ep_conns ep1 ! i)\<lparr>uc_readBuf := [?p1, ?p2]\<rparr>]\<rparr>"
    using assms(1,2,5) mux_routes [of ST_FIN ep1 cid i] by (simp add: enqueue_packet_def chan_offer_def)
  with e1 assms(2) have q: "uc_readBuf (ep_conns ep2 ! i) = [?p1, ?p2]" "length (ep_conns ep2) = length (ep_conns ep)"
    by simp_all
  have fin: "h_type (p_header ?p1) = ST_FIN" "h_type (p_header ?p2) = ST_FIN" by (simp_all add: mk_packet_def)
  from assms(6) q fin(1) assms(2) have "uc_readBuf (ep_conns ep3 ! i) = [?p2]" "uc_closeChan (ep_conns ep3 ! i)"
    by (auto simp: endpoint_run_def run_step_def handlePacket_def close_chan_def Let_def split: if_splits)
  with fin(2) show ?thesis by (simp add: endpoint_run_def run_step_def handlePacket_def close_chan_def Let_def)
qed

definition one_conn_endpoint :: endpoint where
  "one_conn_endpoint = \<lparr>ep_mux = NewSocketMux\<lparr>mx_conns := [7 \<mapsto> 0]\<rparr>,
     ep_conns = [new_conn STATE_CONNECTED (UDPAddr ''10.0.0.1'' 80) 7 8 1 1], ep_listeners = []\<rparr>"

end
