(* ===== verification/Utp_Link.thy ===== *)
theory Utp_Link
  imports Utp_Conn "HOL-Library.Sublist"
begin

section \<open>One Write over a lossy link\<close>

text \<open>
  Two connected ends: \<open>A\<close> executes one \<open>Write\<close>, \<open>B\<close> runs its packet loop and may be read at any time.
  Datagrams in flight are lists in each direction; the link may lose any datagram and duplicate any,
  but keeps their order. A datagram that arrives is queued by the multiplexer in \<open>readBuf\<close> (theorem
  \<open>mux_routes\<close>), which drops it when 100 packets wait. \<open>lk_handled\<close> records the packets \<open>B\<close> has
  handled and \<open>lk_read\<close> the bytes its \<open>Read\<close> calls have returned.
\<close>

record link =
  lk_A :: utp_conn
  lk_B :: utp_conn
  lk_ab :: "bytes list"
  lk_ba :: "bytes list"
  lk_w :: write_status
  lk_handled :: "utp_packet list"
  lk_read :: bytes

definition arrive :: "bytes \<Rightarrow> utp_conn \<Rightarrow> utp_conn" where
  "arrive d c = (case decode_packet d of Inl _ \<Rightarrow> c | Inr p \<Rightarrow> enqueue_packet p c)"

definition datagrams :: "utp_effect list \<Rightarrow> bytes list" where
  "datagrams es = concat (map (\<lambda>e. case e of SendTo d _ \<Rightarrow> [d] | Deregister _ \<Rightarrow> []) es)"

inductive link_step :: "bytes \<Rightarrow> link \<Rightarrow> link \<Rightarrow> bool" for b where
  transmit: "lk_w s = WTransmit t p \<Longrightarrow>
    link_step b s (s\<lparr>lk_w := write_sent now None t p (lk_A s), lk_ab := lk_ab s @ [encoded p]\<rparr>)"
| transmit_error: "lk_w s = WTransmit t p \<Longrightarrow>
    link_step b s (s\<lparr>lk_w := write_sent now (Some e) t p (lk_A s)\<rparr>)"
| lose_ab: "lk_ab s = xs @ d # ys \<Longrightarrow> link_step b s (s\<lparr>lk_ab := xs @ ys\<rparr>)"
| lose_ba: "lk_ba s = xs @ d # ys \<Longrightarrow> link_step b s (s\<lparr>lk_ba := xs @ ys\<rparr>)"
| dup_ab: "lk_ab s = xs @ d # ys \<Longrightarrow> link_step b s (s\<lparr>lk_ab := xs @ d # d # ys\<rparr>)"
| dup_ba: "lk_ba s = xs @ d # ys \<Longrightarrow> link_step b s (s\<lparr>lk_ba := xs @ d # d # ys\<rparr>)"
| arrive_b: "lk_ab s = d # ds \<Longrightarrow> link_step b s (s\<lparr>lk_ab := ds, lk_B := arrive d (lk_B s)\<rparr>)"
| arrive_a: "lk_ba s = d # ds \<Longrightarrow> link_step b s (s\<lparr>lk_ba := ds, lk_A := arrive d (lk_A s)\<rparr>)"
| run_b: "uc_readBuf (lk_B s) = p # ps \<Longrightarrow> run_step RunPacket (lk_B s) = Some (Inr (c, es)) \<Longrightarrow>
    link_step b s (s\<lparr>lk_B := c, lk_ba := lk_ba s @ datagrams es, lk_handled := lk_handled s @ [p]\<rparr>)"
| run_a: "run_step RunPacket (lk_A s) = Some (Inr (c, es)) \<Longrightarrow>
    link_step b s (s\<lparr>lk_A := c, lk_ab := lk_ab s @ datagrams es\<rparr>)"
| ack: "lk_w s = WWait t p \<Longrightarrow> write_on_ack b t p (lk_A s) = Some (c, w) \<Longrightarrow>
    link_step b s (s\<lparr>lk_A := c, lk_w := w\<rparr>)"
| timeout: "lk_w s = WWait t p \<Longrightarrow> link_step b s (s\<lparr>lk_w := write_on_timeout t p (lk_A s)\<rparr>)"
| read_b: "utp_Read now ch n (lk_B s) = Some (c, Inr d) \<Longrightarrow>
    link_step b s (s\<lparr>lk_B := c, lk_read := lk_read s @ d\<rparr>)"

text \<open>Both ends connected with nothing queued or in flight, and \<open>Write(b)\<close> called on \<open>A\<close>.\<close>

definition link_start :: "bytes \<Rightarrow> utp_conn \<Rightarrow> utp_conn \<Rightarrow> link" where
  "link_start b A B =
     (let (A1, w) = write_start b A in
      \<lparr>lk_A = A1, lk_B = B, lk_ab = [], lk_ba = [], lk_w = w, lk_handled = [], lk_read = []\<rparr>)"

definition idle :: "utp_conn \<Rightarrow> bool" where
  "idle c \<longleftrightarrow> uc_state c = STATE_CONNECTED \<and> uc_readBuf c = [] \<and> uc_ackChan c = [] \<and> uc_readQueue c = [] \<and>
     uc_unread c = [] \<and> \<not> uc_closeChan c \<and> uc_readDeadline c = None \<and> uc_writeDeadline c = None"

abbreviation link_run :: "bytes \<Rightarrow> link \<Rightarrow> link \<Rightarrow> bool" where
  "link_run b \<equiv> (link_step b)\<^sup>*\<^sup>*"

subsection \<open>Chunks\<close>

definition chunk :: "bytes \<Rightarrow> nat \<Rightarrow> bytes" where
  "chunk b j = take 1400 (drop (1400 * j) b)"

lemma gslice_chunk: "1400 * j < length b \<Longrightarrow> gslice (1400 * j) (chunk_end b (1400 * j)) b = chunk b j"
  by (simp add: gslice_def chunk_end_def chunkSize_def chunk_def min_def)

lemma concat_chunks: "concat (map (chunk b) [0..<n]) = take (1400 * n) b"
proof (induction n)
  case 0
  then show ?case by simp
next
  case (Suc n)
  have "take (1400 * Suc n) b = take (1400 * n) b @ take 1400 (drop (1400 * n) b)"
    by (simp add: take_add [symmetric] add.commute)
  with Suc show ?case by (simp add: chunk_def)
qed

text \<open>The \<open>j\<close>-th sequence number, data packet and ack of a write that starts at connection \<open>A\<close>.\<close>

definition nth_seq :: "utp_conn \<Rightarrow> nat \<Rightarrow> u16" where "nth_seq A j = uc_seq A + of_nat (Suc j)"

definition data_packet :: "bytes \<Rightarrow> utp_conn \<Rightarrow> nat \<Rightarrow> utp_packet" where
  "data_packet b A j = mk_packet ST_DATA (uc_sendID A) (nth_seq A j) (uc_ack A) (chunk b j)"

definition ack_packet :: "utp_conn \<Rightarrow> utp_conn \<Rightarrow> nat \<Rightarrow> utp_packet" where
  "ack_packet A B j = mk_packet ST_STATE (uc_sendID B) 0 (nth_seq A j) []"

lemma nth_seq_Suc: "nth_seq A (Suc j) = nth_seq A j + 1"
  by (simp add: nth_seq_def)

lemma nth_seq_neq: "nth_seq A (Suc j) \<noteq> nth_seq A j"
  by (simp add: nth_seq_Suc)

lemma arrive_data [simp]: "arrive (encoded (data_packet b A j)) c = enqueue_packet (data_packet b A j) c"
  by (simp add: arrive_def data_packet_def decode_mk_packet)

lemma arrive_ack [simp]: "arrive (encoded (ack_packet A B j)) c = enqueue_packet (ack_packet A B j) c"
  by (simp add: arrive_def ack_packet_def decode_mk_packet)

subsection \<open>The stop-and-wait invariant\<close>

text \<open>
  \<open>k\<close> chunks are acknowledged, \<open>m\<close> have been started and \<open>h\<close> different ones handled. The data packets
  on their way to \<open>B\<close> (in flight, then in \<open>readBuf\<close>) are in order and repeat at most the last handled
  chunk; the acks on their way to the writer (in flight, in \<open>readBuf\<close>, in \<open>ackChan\<close>) are in order and
  repeat at most the last acknowledged one.
\<close>

definition pipe :: "nat \<Rightarrow> nat \<Rightarrow> nat list \<Rightarrow> bool" where
  "pipe lo hi xs \<longleftrightarrow> sorted xs \<and> (\<forall>x \<in> set xs. lo \<le> Suc x \<and> x < hi)"

lemma pipe_simps:
  "pipe lo hi []"
  "pipe lo hi (xs @ d # ys) \<Longrightarrow> pipe lo hi (xs @ ys)"
  "pipe lo hi (xs @ d # ys) \<Longrightarrow> pipe lo hi (xs @ d # d # ys)"
  by (auto simp: pipe_def sorted_append)

lemma pipe_snoc: "pipe lo (Suc d) xs \<Longrightarrow> lo \<le> Suc d \<Longrightarrow> pipe lo (Suc d) (xs @ [d])"
  by (auto simp: pipe_def sorted_append)

lemma pipe_weaken: "pipe lo hi xs \<Longrightarrow> hi \<le> hi' \<Longrightarrow> pipe lo hi' xs"
  by (auto simp: pipe_def)

lemma pipe_raise: "pipe lo hi (x # xs) \<Longrightarrow> lo' \<le> Suc x \<Longrightarrow> pipe lo' hi xs"
  by (auto simp: pipe_def)

definition writer_at :: "bytes \<Rightarrow> utp_conn \<Rightarrow> nat \<Rightarrow> nat \<Rightarrow> write_status \<Rightarrow> bool" where
  "writer_at b A0 k m w =
     (case w of
        WTransmit t p \<Rightarrow> t = 1400 * k \<and> t < length b \<and> p = data_packet b A0 k \<and> m = Suc k
      | WWait t p \<Rightarrow> t = 1400 * k \<and> t < length b \<and> p = data_packet b A0 k \<and> m = Suc k
      | WDone t None \<Rightarrow> t = length b \<and> length b \<le> 1400 * k \<and> m = k
      | WDone t (Some e) \<Rightarrow> t = 1400 * k)"

record progress =
  pr_acked :: nat
  pr_started :: nat
  pr_handled :: nat

definition data_inv :: "bytes \<Rightarrow> utp_conn \<Rightarrow> progress \<Rightarrow> link \<Rightarrow> bool" where
  "data_inv b A0 g s \<longleftrightarrow>
     (\<exists>ds1 ds2. uc_readBuf (lk_B s) = map (data_packet b A0) ds1 \<and>
        lk_ab s = map (\<lambda>j. encoded (data_packet b A0 j)) ds2 \<and> pipe (pr_handled g) (pr_started g) (ds1 @ ds2))"

definition ack_inv :: "utp_conn \<Rightarrow> utp_conn \<Rightarrow> progress \<Rightarrow> link \<Rightarrow> bool" where
  "ack_inv A0 B0 g s \<longleftrightarrow>
     (\<exists>as1 as2 as3. uc_ackChan (lk_A s) = map (nth_seq A0) as1 \<and> uc_readBuf (lk_A s) = map (ack_packet A0 B0) as2 \<and>
        lk_ba s = map (\<lambda>j. encoded (ack_packet A0 B0 j)) as3 \<and> pipe (pr_acked g) (pr_handled g) (as1 @ as2 @ as3))"

definition ends_inv :: "utp_conn \<Rightarrow> utp_conn \<Rightarrow> progress \<Rightarrow> link \<Rightarrow> bool" where
  "ends_inv A0 B0 g s \<longleftrightarrow>
     uc_state (lk_A s) = STATE_CONNECTED \<and> uc_sendID (lk_A s) = uc_sendID A0 \<and> uc_ack (lk_A s) = uc_ack A0 \<and>
     uc_seq (lk_A s) = uc_seq A0 + of_nat (pr_started g) \<and>
     uc_sendID (lk_B s) = uc_sendID B0 \<and>
     pr_acked g \<le> pr_handled g \<and> pr_handled g \<le> pr_started g \<and> pr_started g \<le> Suc (pr_acked g)"

definition link_inv :: "bytes \<Rightarrow> utp_conn \<Rightarrow> utp_conn \<Rightarrow> progress \<Rightarrow> link \<Rightarrow> bool" where
  "link_inv b A0 B0 g s \<longleftrightarrow>
     ends_inv A0 B0 g s \<and> writer_at b A0 (pr_acked g) (pr_started g) (lk_w s) \<and>
     data_inv b A0 g s \<and> ack_inv A0 B0 g s \<and>
     remdups_adj (lk_handled s) = map (data_packet b A0) [0..<pr_handled g]"

lemma remdups_adj_snoc:
  "remdups_adj (xs @ [x]) = (if xs \<noteq> [] \<and> last xs = x then remdups_adj xs else remdups_adj xs @ [x])"
  by (induction xs rule: remdups_adj.induct) auto

lemma last_remdups_adj: "xs \<noteq> [] \<Longrightarrow> last (remdups_adj xs) = last xs"
  by (induction xs rule: remdups_adj.induct) auto

lemma enqueue_simps [simp]:
  "uc_state (enqueue_packet p c) = uc_state c" "uc_sendID (enqueue_packet p c) = uc_sendID c"
  "uc_ack (enqueue_packet p c) = uc_ack c" "uc_seq (enqueue_packet p c) = uc_seq c"
  "uc_ackChan (enqueue_packet p c) = uc_ackChan c" "uc_readQueue (enqueue_packet p c) = uc_readQueue c"
  "uc_unread (enqueue_packet p c) = uc_unread c"
  "uc_readBuf (enqueue_packet p c) = chan_offer 100 p (uc_readBuf c)"
  by (simp_all add: enqueue_packet_def)

lemma write_next_at:
  assumes "uc_sendID c = uc_sendID A0" "uc_ack c = uc_ack A0" "uc_seq c = uc_seq A0 + of_nat k"
    and "write_next b (min (1400 * k) (length b)) c = (c', w)"
  shows "(\<exists>m. uc_seq c' = uc_seq A0 + of_nat m \<and> writer_at b A0 k m w \<and> k \<le> m \<and> m \<le> Suc k) \<and>
    uc_state c' = uc_state c \<and> uc_sendID c' = uc_sendID A0 \<and> uc_ack c' = uc_ack A0 \<and>
    uc_ackChan c' = uc_ackChan c \<and> uc_readBuf c' = uc_readBuf c"
proof (cases "1400 * k < length b")
  case True
  then have m: "min (1400 * k) (length b) = 1400 * k" by (rule min_absorb1 [OF less_imp_le])
  have "write_next b (1400 * k) c = (c\<lparr>uc_seq := uc_seq c + 1\<rparr>, WTransmit (1400 * k) (data_packet b A0 k))"
    unfolding write_next_def Let_def gslice_chunk [OF True]
    using True assms(1-3) by (simp add: data_packet_def nth_seq_def ac_simps)
  with assms(4) have c': "c' = c\<lparr>uc_seq := uc_seq c + 1\<rparr>" "w = WTransmit (1400 * k) (data_packet b A0 k)"
    unfolding m by simp_all
  have "uc_seq c' = uc_seq A0 + of_nat (Suc k)" using assms(3) by (simp add: c'(1) ac_simps)
  moreover have "writer_at b A0 k (Suc k) w" using True by (simp add: c'(2) writer_at_def)
  ultimately show ?thesis using assms(1,2) by (intro conjI exI [of _ "Suc k"]) (simp_all add: c'(1))
next
  case False
  then have m: "min (1400 * k) (length b) = length b" by (intro min_absorb2) simp
  with assms(4) have c': "c' = c" "w = WDone (length b) None" by (simp_all add: write_next_def)
  have "writer_at b A0 k k w" using False by (simp add: c'(2) writer_at_def)
  then show ?thesis using assms(1-3) by (intro conjI exI [of _ k]) (simp_all add: c'(1))
qed

lemma link_inv_start:
  assumes "uc_state A0 = STATE_CONNECTED" "uc_readBuf A0 = []" "uc_ackChan A0 = []" "uc_readBuf B0 = []"
  shows "\<exists>g. link_inv b A0 B0 g (link_start b A0 B0)"
proof -
  obtain c w where n: "write_next b 0 A0 = (c, w)" by force
  with write_next_at [of A0 A0 0 b c w] obtain m where m: "uc_seq c = uc_seq A0 + of_nat m" "writer_at b A0 0 m w"
    "m \<le> 1" "uc_state c = uc_state A0" "uc_sendID c = uc_sendID A0" "uc_ack c = uc_ack A0"
    "uc_ackChan c = uc_ackChan A0" "uc_readBuf c = uc_readBuf A0" by auto
  have "link_start b A0 B0 = \<lparr>lk_A = c, lk_B = B0, lk_ab = [], lk_ba = [], lk_w = w, lk_handled = [], lk_read = []\<rparr>"
    using n assms(1) by (simp add: link_start_def write_start_def)
  then have "link_inv b A0 B0 \<lparr>pr_acked = 0, pr_started = m, pr_handled = 0\<rparr> (link_start b A0 B0)"
    using m assms by (simp add: link_inv_def ends_inv_def data_inv_def ack_inv_def pipe_simps)
  then show ?thesis ..
qed

subsection \<open>Every step keeps the invariant\<close>

lemma map_eq_mid:
  "map f zs = xs @ d # ys \<Longrightarrow> \<exists>us j vs. zs = us @ j # vs \<and> xs = map f us \<and> d = f j \<and> ys = map f vs"
  by (auto simp: map_eq_append_conv)

lemma data_invI:
  "uc_readBuf (lk_B s) = map (data_packet b A0) ds1 \<Longrightarrow> lk_ab s = map (\<lambda>j. encoded (data_packet b A0 j)) ds2 \<Longrightarrow>
    pipe (pr_handled g) (pr_started g) (ds1 @ ds2) \<Longrightarrow> data_inv b A0 g s"
  unfolding data_inv_def by blast

lemma ack_invI:
  "uc_ackChan (lk_A s) = map (nth_seq A0) as1 \<Longrightarrow> uc_readBuf (lk_A s) = map (ack_packet A0 B0) as2 \<Longrightarrow>
    lk_ba s = map (\<lambda>j. encoded (ack_packet A0 B0 j)) as3 \<Longrightarrow>
    pipe (pr_acked g) (pr_handled g) (as1 @ as2 @ as3) \<Longrightarrow> ack_inv A0 B0 g s"
  unfolding ack_inv_def by blast

lemma data_inv_cong:
  "uc_readBuf (lk_B s') = uc_readBuf (lk_B s) \<Longrightarrow> lk_ab s' = lk_ab s \<Longrightarrow> data_inv b A0 g s' = data_inv b A0 g s"
  by (simp add: data_inv_def)

lemma ack_inv_cong:
  "uc_ackChan (lk_A s') = uc_ackChan (lk_A s) \<Longrightarrow> uc_readBuf (lk_A s') = uc_readBuf (lk_A s) \<Longrightarrow> lk_ba s' = lk_ba s \<Longrightarrow>
    ack_inv A0 B0 g s' = ack_inv A0 B0 g s"
  by (simp add: ack_inv_def)

lemma data_inv_link:
  assumes "data_inv b A0 g s" "lk_ab s = xs @ d # ys"
  shows "data_inv b A0 g (s\<lparr>lk_ab := xs @ ys\<rparr>)" "data_inv b A0 g (s\<lparr>lk_ab := xs @ d # d # ys\<rparr>)"
proof -
  from assms(1) obtain ds1 ds2 where ds: "uc_readBuf (lk_B s) = map (data_packet b A0) ds1"
    "lk_ab s = map (\<lambda>j. encoded (data_packet b A0 j)) ds2" "pipe (pr_handled g) (pr_started g) (ds1 @ ds2)"
    unfolding data_inv_def by blast
  with assms(2) obtain us j vs where u: "ds2 = us @ j # vs" "xs = map (\<lambda>j. encoded (data_packet b A0 j)) us"
    "d = encoded (data_packet b A0 j)" "ys = map (\<lambda>j. encoded (data_packet b A0 j)) vs"
    using map_eq_mid [of "\<lambda>j. encoded (data_packet b A0 j)" ds2 xs d ys] by auto
  have p: "pipe (pr_handled g) (pr_started g) (ds1 @ us @ vs)" "pipe (pr_handled g) (pr_started g) (ds1 @ us @ j # j # vs)"
    using pipe_simps(2,3) [of _ _ "ds1 @ us" j vs] ds(3) by (simp_all add: u(1))
  show "data_inv b A0 g (s\<lparr>lk_ab := xs @ ys\<rparr>)"
    by (rule data_invI [OF _ _ p(1)]) (simp_all add: ds(1) u)
  show "data_inv b A0 g (s\<lparr>lk_ab := xs @ d # d # ys\<rparr>)"
    by (rule data_invI [OF _ _ p(2)]) (simp_all add: ds(1) u)
qed

lemma ack_inv_link:
  assumes "ack_inv A0 B0 g s" "lk_ba s = xs @ d # ys"
  shows "ack_inv A0 B0 g (s\<lparr>lk_ba := xs @ ys\<rparr>)" "ack_inv A0 B0 g (s\<lparr>lk_ba := xs @ d # d # ys\<rparr>)"
proof -
  let ?e = "\<lambda>j. encoded (ack_packet A0 B0 j)"
  from assms(1) obtain as1 as2 as3 where as: "uc_ackChan (lk_A s) = map (nth_seq A0) as1"
    "uc_readBuf (lk_A s) = map (ack_packet A0 B0) as2" "lk_ba s = map ?e as3"
    "pipe (pr_acked g) (pr_handled g) (as1 @ as2 @ as3)"
    unfolding ack_inv_def by blast
  with assms(2) obtain us j vs where u: "as3 = us @ j # vs" "xs = map ?e us" "d = ?e j" "ys = map ?e vs"
    using map_eq_mid [of ?e as3 xs d ys] by auto
  have p: "pipe (pr_acked g) (pr_handled g) (as1 @ as2 @ us @ vs)"
    "pipe (pr_acked g) (pr_handled g) (as1 @ as2 @ us @ j # j # vs)"
    using pipe_simps(2,3) [of _ _ "as1 @ as2 @ us" j vs] as(4) by (simp_all add: u(1))
  show "ack_inv A0 B0 g (s\<lparr>lk_ba := xs @ ys\<rparr>)"
    by (rule ack_invI [OF _ _ _ p(1)]) (simp_all add: as(1,2) u)
  show "ack_inv A0 B0 g (s\<lparr>lk_ba := xs @ d # d # ys\<rparr>)"
    by (rule ack_invI [OF _ _ _ p(2)]) (simp_all add: as(1,2) u)
qed

lemma chan_offer_map:
  "\<exists>zs. chan_offer n (f j) (map f xs) = map f zs \<and> (zs = xs \<or> zs = xs @ [j])"
  by (cases "length xs < n") (auto simp: chan_offer_def intro: exI [of _ "xs @ [j]"])

lemma pipe_offer:
  "pipe lo hi (ws @ xs @ j # ys) \<Longrightarrow> zs = xs \<or> zs = xs @ [j] \<Longrightarrow> pipe lo hi (ws @ zs @ ys)"
  using pipe_simps(2) [of lo hi "ws @ xs" j ys] by auto

lemma data_inv_arrive:
  assumes "data_inv b A0 g s" "lk_ab s = d # ds"
  shows "data_inv b A0 g (s\<lparr>lk_ab := ds, lk_B := arrive d (lk_B s)\<rparr>)"
proof -
  obtain ds1 j ds2 where e: "uc_readBuf (lk_B s) = map (data_packet b A0) ds1"
    "d = encoded (data_packet b A0 j)" "ds = map (\<lambda>j. encoded (data_packet b A0 j)) ds2"
    "pipe (pr_handled g) (pr_started g) (ds1 @ j # ds2)"
  proof -
    from assms(1) obtain ds1 es where f: "uc_readBuf (lk_B s) = map (data_packet b A0) ds1"
      "lk_ab s = map (\<lambda>j. encoded (data_packet b A0 j)) es" "pipe (pr_handled g) (pr_started g) (ds1 @ es)"
      unfolding data_inv_def by blast
    from f(2) assms(2) obtain j ds2 where "es = j # ds2" "d = encoded (data_packet b A0 j)"
      "ds = map (\<lambda>j. encoded (data_packet b A0 j)) ds2" by (cases es) simp_all
    with f that show ?thesis by simp
  qed
  obtain zs where z: "chan_offer 100 (data_packet b A0 j) (map (data_packet b A0) ds1) = map (data_packet b A0) zs"
    "zs = ds1 \<or> zs = ds1 @ [j]"
    using chan_offer_map [of 100 "data_packet b A0" j ds1] by (elim exE conjE)
  have "pipe (pr_handled g) (pr_started g) (zs @ ds2)" using pipe_offer [of _ _ "[]" ds1 j ds2 zs] e(4) z(2) by simp
  then show ?thesis by (rule data_invI [rotated 2]) (simp_all add: e z(1))
qed

lemma ack_inv_arrive:
  assumes "ack_inv A0 B0 g s" "lk_ba s = d # ds"
  shows "ack_inv A0 B0 g (s\<lparr>lk_ba := ds, lk_A := arrive d (lk_A s)\<rparr>)"
    and "ends_inv A0 B0 g (s\<lparr>lk_ba := ds, lk_A := arrive d (lk_A s)\<rparr>) = ends_inv A0 B0 g s"
proof -
  obtain as1 as2 j as3 where e: "uc_ackChan (lk_A s) = map (nth_seq A0) as1"
    "uc_readBuf (lk_A s) = map (ack_packet A0 B0) as2"
    "d = encoded (ack_packet A0 B0 j)" "ds = map (\<lambda>j. encoded (ack_packet A0 B0 j)) as3"
    "pipe (pr_acked g) (pr_handled g) (as1 @ as2 @ j # as3)"
  proof -
    from assms(1) obtain as1 as2 es where f: "uc_ackChan (lk_A s) = map (nth_seq A0) as1"
      "uc_readBuf (lk_A s) = map (ack_packet A0 B0) as2" "lk_ba s = map (\<lambda>j. encoded (ack_packet A0 B0 j)) es"
      "pipe (pr_acked g) (pr_handled g) (as1 @ as2 @ es)"
      unfolding ack_inv_def by blast
    from f(3) assms(2) obtain j as3 where "es = j # as3" "d = encoded (ack_packet A0 B0 j)"
      "ds = map (\<lambda>j. encoded (ack_packet A0 B0 j)) as3" by (cases es) simp_all
    with f that show ?thesis by simp
  qed
  obtain zs where z: "chan_offer 100 (ack_packet A0 B0 j) (map (ack_packet A0 B0) as2) = map (ack_packet A0 B0) zs"
    "zs = as2 \<or> zs = as2 @ [j]"
    using chan_offer_map [of 100 "ack_packet A0 B0" j as2] by (elim exE conjE)
  have "pipe (pr_acked g) (pr_handled g) (as1 @ zs @ as3)" using pipe_offer [of _ _ as1 as2 j as3 zs] e(5) z(2) by simp
  then show "ack_inv A0 B0 g (s\<lparr>lk_ba := ds, lk_A := arrive d (lk_A s)\<rparr>)"
    by (rule ack_invI [rotated 3]) (simp_all add: e(1-4) z(1))
  show "ends_inv A0 B0 g (s\<lparr>lk_ba := ds, lk_A := arrive d (lk_A s)\<rparr>) = ends_inv A0 B0 g s"
    by (simp add: ends_inv_def e(3))
qed

lemma handle_data_packet:
  "handlePacket (data_packet b A0 j) c =
     Inr (c\<lparr>uc_ack := nth_seq A0 j, uc_readQueue := chan_offer 100 (chunk b j) (uc_readQueue c)\<rparr>,
          [SendTo (encoded (mk_packet ST_STATE (uc_sendID c) 0 (nth_seq A0 j) [])) (uc_remoteAddr c)])"
  by (simp add: handlePacket_def data_packet_def send_ack_def ST_defs Let_def)

lemma handle_ack_packet:
  "uc_state c = STATE_CONNECTED \<Longrightarrow> handlePacket (ack_packet A0 B0 j) c =
     Inr (c\<lparr>uc_ackChan := chan_offer 100 (nth_seq A0 j) (uc_ackChan c)\<rparr>, [])"
  by (simp add: handlePacket_def ack_packet_def ST_defs Let_def)

lemma data_packet_neq: "data_packet b A0 (Suc j) \<noteq> data_packet b A0 j"
  by (simp add: data_packet_def nth_seq_neq)

lemma handled_snoc:
  assumes "remdups_adj hs = map (data_packet b A0) [0..<h]" "j \<le> h" "h \<le> Suc j"
  shows "remdups_adj (hs @ [data_packet b A0 j]) = map (data_packet b A0) [0..<Suc j]"
proof (cases h)
  case 0
  with assms have "remdups_adj hs = []" "j = 0" by simp_all
  then show ?thesis by (simp add: remdups_adj_snoc)
next
  case (Suc i)
  with assms(1) have ne: "hs \<noteq> []" by auto
  then have last: "last hs = data_packet b A0 i"
    using last_remdups_adj [OF ne] assms(1) Suc by simp
  show ?thesis
  proof (cases "j = h")
    case True
    then have "last hs \<noteq> data_packet b A0 j" using last data_packet_neq [of b A0 i] Suc by simp
    then show ?thesis using assms(1) True by (simp add: remdups_adj_snoc)
  next
    case False
    then have "j = i" using assms(2,3) Suc by simp
    then show ?thesis using ne last assms(1) Suc by (simp add: remdups_adj_snoc)
  qed
qed

lemma link_inv_run_b:
  assumes "link_inv b A0 B0 g s" "uc_readBuf (lk_B s) = p # ps"
    and "run_step RunPacket (lk_B s) = Some (Inr (c, es))"
  shows "\<exists>g'. link_inv b A0 B0 g' (s\<lparr>lk_B := c, lk_ba := lk_ba s @ datagrams es, lk_handled := lk_handled s @ [p]\<rparr>)"
    (is "\<exists>g'. link_inv b A0 B0 g' ?s'")
proof -
  from assms(1) have E: "ends_inv A0 B0 g s" and W: "writer_at b A0 (pr_acked g) (pr_started g) (lk_w s)"
    and D: "data_inv b A0 g s" and K: "ack_inv A0 B0 g s"
    and H: "remdups_adj (lk_handled s) = map (data_packet b A0) [0..<pr_handled g]"
    by (simp_all add: link_inv_def)
  from D obtain ds1 ds2 where ds: "uc_readBuf (lk_B s) = map (data_packet b A0) ds1"
    "lk_ab s = map (\<lambda>j. encoded (data_packet b A0 j)) ds2" "pipe (pr_handled g) (pr_started g) (ds1 @ ds2)"
    unfolding data_inv_def by blast
  from ds(1) assms(2) obtain j ds1' where j: "ds1 = j # ds1'" "p = data_packet b A0 j" "ps = map (data_packet b A0) ds1'"
    by (cases ds1) simp_all
  from ds(3) j(1) have js: "pr_handled g \<le> Suc j" "j < pr_started g" by (simp_all add: pipe_def)
  from E js have jh: "j \<le> pr_handled g" "pr_acked g \<le> Suc j" by (simp_all add: ends_inv_def)
  let ?g = "g\<lparr>pr_handled := Suc j\<rparr>"
  have c: "c = (lk_B s)\<lparr>uc_readBuf := ps, uc_ack := nth_seq A0 j, uc_readQueue := chan_offer 100 (chunk b j) (uc_readQueue (lk_B s))\<rparr>"
    "datagrams es = [encoded (ack_packet A0 B0 j)]"
    using assms(2,3) E by (auto simp: run_step_def j(2) handle_data_packet datagrams_def ack_packet_def ends_inv_def)
  have "ends_inv A0 B0 ?g ?s'" using E js jh by (simp add: ends_inv_def c(1))
  moreover have "data_inv b A0 ?g ?s'"
  proof (rule data_invI)
    show "uc_readBuf (lk_B ?s') = map (data_packet b A0) ds1'" by (simp add: c(1) j(3))
    show "lk_ab ?s' = map (\<lambda>j. encoded (data_packet b A0 j)) ds2" by (simp add: ds(2))
    show "pipe (pr_handled ?g) (pr_started ?g) (ds1' @ ds2)"
      using pipe_raise [of _ _ j "ds1' @ ds2" "Suc j"] ds(3) j(1) by simp
  qed
  moreover have "ack_inv A0 B0 ?g ?s'"
  proof -
    from K obtain as1 as2 as3 where as: "uc_ackChan (lk_A s) = map (nth_seq A0) as1"
      "uc_readBuf (lk_A s) = map (ack_packet A0 B0) as2" "lk_ba s = map (\<lambda>j. encoded (ack_packet A0 B0 j)) as3"
      "pipe (pr_acked g) (pr_handled g) (as1 @ as2 @ as3)"
      unfolding ack_inv_def by blast
    have "pipe (pr_acked g) (Suc j) ((as1 @ as2 @ as3) @ [j])"
      by (rule pipe_snoc [OF pipe_weaken [OF as(4) js(1)] jh(2)])
    then show ?thesis by (intro ack_invI [of _ _ as1 _ as2 "as3 @ [j]"]) (simp_all add: as(1-3) c(2))
  qed
  moreover have "remdups_adj (lk_handled ?s') = map (data_packet b A0) [0..<pr_handled ?g]"
    using handled_snoc [OF H jh(1) js(1)] by (simp add: j(2))
  ultimately have "link_inv b A0 B0 ?g ?s'" using W by (simp add: link_inv_def)
  then show ?thesis ..
qed

lemma link_inv_run_a:
  assumes "link_inv b A0 B0 g s" "run_step RunPacket (lk_A s) = Some (Inr (c, es))"
  shows "link_inv b A0 B0 g (s\<lparr>lk_A := c, lk_ab := lk_ab s @ datagrams es\<rparr>)" (is "link_inv b A0 B0 g ?s'")
proof -
  from assms(1) have E: "ends_inv A0 B0 g s" and D: "data_inv b A0 g s" and K: "ack_inv A0 B0 g s"
    by (simp_all add: link_inv_def)
  from K obtain as1 as2 as3 where as: "uc_ackChan (lk_A s) = map (nth_seq A0) as1"
    "uc_readBuf (lk_A s) = map (ack_packet A0 B0) as2" "lk_ba s = map (\<lambda>j. encoded (ack_packet A0 B0 j)) as3"
    "pipe (pr_acked g) (pr_handled g) (as1 @ as2 @ as3)"
    unfolding ack_inv_def by blast
  from as(2) assms(2) obtain j as2' where j: "as2 = j # as2'" by (cases as2) (simp_all add: run_step_def)
  have c: "c = (lk_A s)\<lparr>uc_readBuf := map (ack_packet A0 B0) as2', uc_ackChan := chan_offer 100 (nth_seq A0 j) (uc_ackChan (lk_A s))\<rparr>"
    "datagrams es = []"
    using assms(2) E as(2) by (simp_all add: run_step_def j handle_ack_packet datagrams_def ends_inv_def)
  obtain zs where z: "chan_offer 100 (nth_seq A0 j) (map (nth_seq A0) as1) = map (nth_seq A0) zs"
    "zs = as1 \<or> zs = as1 @ [j]"
    using chan_offer_map [of 100 "nth_seq A0" j as1] by (elim exE conjE)
  have "pipe (pr_acked g) (pr_handled g) (zs @ as2' @ as3)"
    using pipe_offer [of _ _ "[]" as1 j "as2' @ as3" zs] as(4) z(2) j by simp
  then have "ack_inv A0 B0 g ?s'" by (rule ack_invI [rotated 3]) (simp_all add: c(1) as(1,3) z(1))
  moreover have "ends_inv A0 B0 g ?s'" using E by (simp add: ends_inv_def c(1))
  moreover have "data_inv b A0 g ?s'" using D by (simp add: data_inv_def c(2))
  ultimately show ?thesis using assms(1) by (simp add: link_inv_def)
qed

lemma link_inv_ack:
  assumes "link_inv b A0 B0 g s" "lk_w s = WWait t p" "write_on_ack b t p (lk_A s) = Some (c, w)"
  shows "\<exists>g'. link_inv b A0 B0 g' (s\<lparr>lk_A := c, lk_w := w\<rparr>)" (is "\<exists>g'. link_inv b A0 B0 g' ?s'")
proof -
  let ?k = "pr_acked g"
  from assms(1) have E: "ends_inv A0 B0 g s" and W: "writer_at b A0 ?k (pr_started g) (lk_w s)"
    and D: "data_inv b A0 g s" and K: "ack_inv A0 B0 g s"
    and H: "remdups_adj (lk_handled s) = map (data_packet b A0) [0..<pr_handled g]"
    by (simp_all add: link_inv_def)
  from W assms(2) have w: "t = 1400 * ?k" "p = data_packet b A0 ?k" "pr_started g = Suc ?k" "t < length b"
    by (simp_all add: writer_at_def)
  from K obtain as1 as2 as3 where as: "uc_ackChan (lk_A s) = map (nth_seq A0) as1"
    "uc_readBuf (lk_A s) = map (ack_packet A0 B0) as2" "lk_ba s = map (\<lambda>j. encoded (ack_packet A0 B0 j)) as3"
    "pipe (pr_acked g) (pr_handled g) (as1 @ as2 @ as3)"
    unfolding ack_inv_def by blast
  from as(1) assms(3) obtain a as1' where a: "as1 = a # as1'" by (cases as1) (simp_all add: write_on_ack_def)
  from as(4) a have al: "?k \<le> Suc a" "a < pr_handled g" by (simp_all add: pipe_def)
  from E w(3) have h: "pr_handled g \<le> Suc ?k" by (simp add: ends_inv_def)
  let ?c1 = "(lk_A s)\<lparr>uc_ackChan := map (nth_seq A0) as1'\<rparr>"
  show ?thesis
  proof (cases "a = ?k")
    case True
    with al h have hk: "pr_handled g = Suc ?k" by simp
    have "min (1400 * Suc ?k) (length b) = chunk_end b t" by (simp add: w(1) chunk_end_def chunkSize_def min_def)
    moreover have "write_next b (chunk_end b t) ?c1 = (c, w)"
      using assms(3) as(1) a True by (simp add: write_on_ack_def w(2) data_packet_def)
    ultimately have n: "write_next b (min (1400 * Suc ?k) (length b)) ?c1 = (c, w)" by simp
    have "uc_seq ?c1 = uc_seq A0 + of_nat (Suc ?k)" using E w(3) by (simp add: ends_inv_def)
    from write_next_at [OF _ _ this n] E obtain m where m: "uc_seq c = uc_seq A0 + of_nat m"
      "writer_at b A0 (Suc ?k) m w" "Suc ?k \<le> m" "m \<le> Suc (Suc ?k)" "uc_state c = STATE_CONNECTED"
      "uc_sendID c = uc_sendID A0" "uc_ack c = uc_ack A0" "uc_ackChan c = map (nth_seq A0) as1'"
      "uc_readBuf c = uc_readBuf (lk_A s)"
      by (auto simp: ends_inv_def)
    let ?g = "\<lparr>pr_acked = Suc ?k, pr_started = m, pr_handled = Suc ?k\<rparr>"
    have "ends_inv A0 B0 ?g ?s'" using E m by (simp add: ends_inv_def)
    moreover have "data_inv b A0 ?g ?s'"
    proof -
      from D obtain ds1 ds2 where ds: "uc_readBuf (lk_B s) = map (data_packet b A0) ds1"
        "lk_ab s = map (\<lambda>j. encoded (data_packet b A0 j)) ds2" "pipe (pr_handled g) (pr_started g) (ds1 @ ds2)"
        unfolding data_inv_def by blast
      have "pipe (Suc ?k) m (ds1 @ ds2)" using pipe_weaken [OF ds(3), of m] m(3) w(3) hk by simp
      then show ?thesis by (intro data_invI [of _ _ _ ds1 ds2]) (simp_all add: ds(1,2))
    qed
    moreover have "ack_inv A0 B0 ?g ?s'"
    proof -
      have "pipe (Suc ?k) (Suc ?k) (as1' @ as2 @ as3)"
        using pipe_raise [of _ _ a "as1' @ as2 @ as3" "Suc ?k"] as(4) a True hk by simp
      then show ?thesis by (intro ack_invI [of _ _ as1' _ as2 as3]) (simp_all add: m(8,9) as(2,3))
    qed
    ultimately have "link_inv b A0 B0 ?g ?s'" using m(2) H hk by (simp add: link_inv_def)
    then show ?thesis ..
  next
    case False
    with al h have "?k = Suc a" by simp
    then have "nth_seq A0 a \<noteq> nth_seq A0 ?k" using nth_seq_neq [of A0 a] by simp
    then have cw: "c = ?c1" "w = WTransmit t p"
      using assms(3) as(1) a by (simp_all add: write_on_ack_def w(2) data_packet_def Let_def)
    have "pipe (pr_acked g) (pr_handled g) (as1' @ as2 @ as3)"
      using pipe_raise [of _ _ a "as1' @ as2 @ as3" ?k] as(4) a al by simp
    then have "ack_inv A0 B0 g ?s'" by (intro ack_invI [of _ _ as1' _ as2 as3]) (simp_all add: cw as(2,3))
    moreover have "ends_inv A0 B0 g ?s'" using E by (simp add: ends_inv_def cw)
    moreover have "data_inv b A0 g ?s'" using D by (simp add: data_inv_def)
    moreover have "writer_at b A0 ?k (pr_started g) w" using w by (simp add: writer_at_def cw)
    ultimately have "link_inv b A0 B0 g ?s'" using H by (simp add: link_inv_def)
    then show ?thesis ..
  qed
qed

lemma link_inv_step:
  assumes "link_step b s s'" "link_inv b A0 B0 g s"
  shows "\<exists>g'. link_inv b A0 B0 g' s'"
proof -
  have parts: "ends_inv A0 B0 g s" "writer_at b A0 (pr_acked g) (pr_started g) (lk_w s)" "data_inv b A0 g s"
    "ack_inv A0 B0 g s" "remdups_adj (lk_handled s) = map (data_packet b A0) [0..<pr_handled g]"
    using assms(2) by (simp_all add: link_inv_def)
  note keep = link_inv_def ends_inv_def data_inv_cong [of _ s] ack_inv_cong [of _ s] parts(3-5)
  from assms(1) show ?thesis
  proof cases
    case (transmit t p now)
    with parts(2) have w: "t = 1400 * pr_acked g" "t < length b" "p = data_packet b A0 (pr_acked g)"
      "pr_started g = Suc (pr_acked g)" by (simp_all add: writer_at_def)
    from parts(3) obtain ds1 ds2 where ds: "uc_readBuf (lk_B s) = map (data_packet b A0) ds1"
      "lk_ab s = map (\<lambda>j. encoded (data_packet b A0 j)) ds2" "pipe (pr_handled g) (pr_started g) (ds1 @ ds2)"
      unfolding data_inv_def by blast
    have "pr_handled g \<le> Suc (pr_acked g)" using parts(1) w(4) by (simp add: ends_inv_def)
    then have "pipe (pr_handled g) (pr_started g) ((ds1 @ ds2) @ [pr_acked g])"
      using pipe_snoc ds(3) unfolding w(4) by blast
    then have "data_inv b A0 g s'"
      by (intro data_invI [of _ _ _ ds1 "ds2 @ [pr_acked g]"]) (simp_all add: transmit(1) ds(1,2) w(3))
    moreover have "writer_at b A0 (pr_acked g) (pr_started g) (lk_w s')"
      using w by (simp add: transmit(1) write_sent_def writer_at_def split: option.splits)
    ultimately show ?thesis using parts(1) by (intro exI [of _ g]) (simp add: keep transmit(1))
  next
    case (transmit_error t p now e)
    with parts(2) have "writer_at b A0 (pr_acked g) (pr_started g) (lk_w s')"
      by (simp add: writer_at_def write_sent_def)
    then show ?thesis using parts(1) by (intro exI [of _ g]) (simp add: keep transmit_error(1))
  next
    case (lose_ab xs d ys)
    then show ?thesis using assms(2) data_inv_link(1) [OF parts(3) lose_ab(2)]
      by (intro exI [of _ g]) (simp add: keep)
  next
    case (lose_ba xs d ys)
    then show ?thesis using assms(2) ack_inv_link(1) [OF parts(4) lose_ba(2)]
      by (intro exI [of _ g]) (simp add: keep)
  next
    case (dup_ab xs d ys)
    then show ?thesis using assms(2) data_inv_link(2) [OF parts(3) dup_ab(2)]
      by (intro exI [of _ g]) (simp add: keep)
  next
    case (dup_ba xs d ys)
    then show ?thesis using assms(2) ack_inv_link(2) [OF parts(4) dup_ba(2)]
      by (intro exI [of _ g]) (simp add: keep)
  next
    case (arrive_b d ds)
    have "uc_sendID (arrive d (lk_B s)) = uc_sendID (lk_B s)" by (simp add: arrive_def split: sum.split)
    then show ?thesis using assms(2) data_inv_arrive [OF parts(3) arrive_b(2)] arrive_b(1)
      by (intro exI [of _ g]) (simp add: keep)
  next
    case (arrive_a d ds)
    then show ?thesis using assms(2) ack_inv_arrive [OF parts(4) arrive_a(2)]
      by (intro exI [of _ g]) (simp add: link_inv_def data_inv_cong [of _ s] parts(3))
  next
    case (run_b p ps c es)
    from link_inv_run_b [OF assms(2) run_b(2,3)] run_b(1) show ?thesis by simp
  next
    case (run_a c es)
    from link_inv_run_a [OF assms(2) run_a(2)] run_a(1) show ?thesis by blast
  next
    case (ack t p c w)
    from link_inv_ack [OF assms(2) ack(2,3)] ack(1) show ?thesis by simp
  next
    case (timeout t p)
    with parts(1,2) have "writer_at b A0 (pr_acked g) (pr_started g) (lk_w s')"
      by (simp add: writer_at_def write_on_timeout_def ends_inv_def)
    then show ?thesis using parts(1) by (intro exI [of _ g]) (simp add: keep timeout(1))
  next
    case (read_b now ch n c d)
    then have "uc_sendID c = uc_sendID (lk_B s)" "uc_readBuf c = uc_readBuf (lk_B s)"
      by (auto simp: utp_Read_def split: if_splits read_choice.splits list.splits)
    then show ?thesis using assms(2) by (intro exI [of _ g]) (simp add: keep read_b(1))
  qed
qed

lemma link_inv_run:
  "link_run b s s' \<Longrightarrow> link_inv b A0 B0 g s \<Longrightarrow> \<exists>g'. link_inv b A0 B0 g' s'"
proof (induction rule: rtranclp_induct)
  case base
  then show ?case by blast
next
  case (step s1 s2)
  then obtain g1 where "link_inv b A0 B0 g1 s1" by blast
  with link_inv_step [OF step.hyps(2)] show ?case by blast
qed

subsection \<open>What the reader gets\<close>

definition stream_inv :: "link \<Rightarrow> bool" where
  "stream_inv s \<longleftrightarrow> length (uc_readQueue (lk_B s)) \<le> length (lk_handled s) \<and>
     (length (lk_handled s) \<le> 100 \<longrightarrow>
        lk_read s @ uc_unread (lk_B s) @ concat (uc_readQueue (lk_B s)) = concat (map p_payload (lk_handled s)))"

lemma stream_inv_cong:
  "uc_readQueue (lk_B s') = uc_readQueue (lk_B s) \<Longrightarrow> uc_unread (lk_B s') = uc_unread (lk_B s) \<Longrightarrow>
    lk_handled s' = lk_handled s \<Longrightarrow> lk_read s' = lk_read s \<Longrightarrow> stream_inv s' = stream_inv s"
  by (simp add: stream_inv_def)

lemma utp_Read_stream:
  assumes "utp_Read now ch n c = Some (c', Inr d)"
  shows "d @ uc_unread c' @ concat (uc_readQueue c') = uc_unread c @ concat (uc_readQueue c)"
    and "length (uc_readQueue c') \<le> length (uc_readQueue c)"
  using assms by (auto simp: utp_Read_def split: if_splits read_choice.splits list.splits)

lemma stream_inv_step:
  assumes "link_step b s s'" "link_inv b A0 B0 g s" "stream_inv s"
  shows "stream_inv s'"
  using assms(1)
proof cases
  case (run_b p ps c es)
  from assms(2) obtain ds1 where "uc_readBuf (lk_B s) = map (data_packet b A0) ds1"
    by (auto simp: link_inv_def data_inv_def)
  with run_b(2) obtain j where j: "p = data_packet b A0 j" by (cases ds1) auto
  let ?q = "chan_offer 100 (chunk b j) (uc_readQueue (lk_B s))"
  have "p_payload p = chunk b j" by (simp add: j data_packet_def)
  moreover have "uc_readQueue c = ?q" "uc_unread c = uc_unread (lk_B s)"
    using run_b(2,3) by (auto simp: run_step_def j handle_data_packet)
  ultimately have c: "uc_readQueue c = ?q" "uc_unread c = uc_unread (lk_B s)" "p_payload p = chunk b j" by simp_all
  have len: "length ?q \<le> Suc (length (uc_readQueue (lk_B s)))" by (simp add: chan_offer_def)
  show ?thesis
  proof (cases "length (lk_handled s) < 100")
    case True
    with assms(3) have "?q = uc_readQueue (lk_B s) @ [chunk b j]" by (simp add: chan_offer_def stream_inv_def)
    with True assms(3) c show ?thesis by (simp add: stream_inv_def run_b(1) flip: append_assoc)
  next
    case False
    with assms(3) c len show ?thesis by (simp add: stream_inv_def run_b(1))
  qed
next
  case (read_b now ch n c d)
  with assms(3) utp_Read_stream [OF read_b(2)] show ?thesis by (simp add: stream_inv_def)
next
  case (arrive_b d ds)
  have "uc_readQueue (arrive d (lk_B s)) = uc_readQueue (lk_B s)" "uc_unread (arrive d (lk_B s)) = uc_unread (lk_B s)"
    by (simp_all add: arrive_def split: sum.split)
  with assms(3) show ?thesis by (simp add: stream_inv_def arrive_b(1))
qed (use assms(3) in \<open>simp_all add: stream_inv_def\<close>)

lemma link_inv_stream_run:
  assumes "link_run b s s'" "link_inv b A0 B0 g s" "stream_inv s"
  shows "stream_inv s'"
  using assms(1)
proof (induction rule: rtranclp_induct)
  case base
  then show ?case using assms(3) .
next
  case (step s1 s2)
  obtain g1 where "link_inv b A0 B0 g1 s1" using link_inv_run [OF step.hyps(1) assms(2)] by blast
  with stream_inv_step [OF step.hyps(2)] step.IH show ?case by blast
qed

text \<open>The payloads of the handled packets, a packet that was handled again counted once.\<close>

definition delivered :: "link \<Rightarrow> bytes" where
  "delivered s = concat (map p_payload (remdups_adj (lk_handled s)))"

lemma delivered_take: "link_inv b A0 B0 g s \<Longrightarrow> delivered s = take (1400 * pr_handled g) b"
  by (simp add: delivered_def link_inv_def concat_chunks [symmetric] data_packet_def comp_def)

text \<open>
  C17. A write is delivered in order and at least once. Over a link that loses and duplicates
  datagrams, the packets the peer has handled, repetitions of the last one apart, carry a prefix of
  the data; when \<open>Write\<close> returns success it is all of the data, and when it fails after \<open>t\<close> bytes at
  least the first \<open>t\<close>. The reader gets exactly these bytes if no packet was handled twice and at
  most 100 were handled.
\<close>

theorem utp_write_at_least_once:
  assumes "idle A" "idle B" "link_run b (link_start b A B) s"
  shows "prefix (delivered s) b \<and>
    (lk_w s = WDone t None \<longrightarrow> t = length b \<and> delivered s = b) \<and>
    (lk_w s = WDone t (Some e) \<longrightarrow> prefix (take t b) (delivered s)) \<and>
    (distinct (lk_handled s) \<and> length (lk_handled s) \<le> 100 \<longrightarrow>
       lk_read s @ uc_unread (lk_B s) @ concat (uc_readQueue (lk_B s)) = delivered s)"
proof -
  from assms(1,2) obtain g0 where g0: "link_inv b A B g0 (link_start b A B)"
    using link_inv_start [of A B b] unfolding idle_def by blast
  have "stream_inv (link_start b A B)"
    using assms(2) by (simp add: stream_inv_def link_start_def idle_def split: prod.split)
  with link_inv_stream_run [OF assms(3) g0] have stream: "stream_inv s" by blast
  from link_inv_run [OF assms(3) g0] obtain g where g: "link_inv b A B g s" by blast
  then have d: "delivered s = take (1400 * pr_handled g) b" by (rule delivered_take)
  from g have w: "writer_at b A (pr_acked g) (pr_started g) (lk_w s)" and h: "pr_acked g \<le> pr_handled g"
    by (simp_all add: link_inv_def ends_inv_def)
  have "prefix (delivered s) b" unfolding d by (rule take_is_prefix)
  moreover have "lk_w s = WDone t None \<longrightarrow> t = length b \<and> delivered s = b"
    using w h d by (auto simp: writer_at_def)
  moreover have "lk_w s = WDone t (Some e) \<longrightarrow> prefix (take t b) (delivered s)"
  proof
    assume "lk_w s = WDone t (Some e)"
    then have "take t b = take t (delivered s)" using w h d by (simp add: writer_at_def min_def)
    then show "prefix (take t b) (delivered s)" by (simp add: take_is_prefix)
  qed
  moreover have "distinct (lk_handled s) \<and> length (lk_handled s) \<le> 100 \<longrightarrow>
       lk_read s @ uc_unread (lk_B s) @ concat (uc_readQueue (lk_B s)) = delivered s"
    using stream by (simp add: stream_inv_def delivered_def remdups_adj_distinct)
  ultimately show ?thesis by blast
qed

subsection \<open>Runs\<close>

text \<open>One chunk sent, handled and acknowledged without loss.\<close>

definition quiet :: "link \<Rightarrow> bool" where
  "quiet s \<longleftrightarrow> lk_ab s = [] \<and> lk_ba s = [] \<and> uc_readBuf (lk_A s) = [] \<and> uc_ackChan (lk_A s) = [] \<and>
     uc_readBuf (lk_B s) = [] \<and> uc_state (lk_A s) = STATE_CONNECTED \<and> uc_writeDeadline (lk_A s) = None"

lemma step_run: "link_step b s s' \<Longrightarrow> link_run b s' s'' \<Longrightarrow> link_run b s s''"
  by (rule converse_rtranclp_into_rtranclp)

lemma arrive_mk:
  "ty \<in> {ST_DATA, ST_FIN, ST_STATE, ST_SYN} \<Longrightarrow>
    arrive (encoded (mk_packet ty cid sq ak pl)) c = enqueue_packet (mk_packet ty cid sq ak pl) c"
  by (simp add: arrive_def decode_mk_packet)

lemma link_round:
  assumes "quiet s" "lk_w s = WTransmit t (mk_packet ST_DATA cid sq ak pl)"
    and "write_next b (chunk_end b t) (lk_A s) = (c, w)"
  shows "link_run b s (s\<lparr>lk_A := c, lk_w := w, lk_handled := lk_handled s @ [mk_packet ST_DATA cid sq ak pl],
    lk_B := (lk_B s)\<lparr>uc_ack := sq, uc_readQueue := chan_offer 100 pl (uc_readQueue (lk_B s))\<rparr>\<rparr>)"
proof -
  let ?p = "mk_packet ST_DATA cid sq ak pl" and ?a = "mk_packet ST_STATE (uc_sendID (lk_B s)) 0 sq []"
  let ?B = "(lk_B s)\<lparr>uc_ack := sq, uc_readQueue := chan_offer 100 pl (uc_readQueue (lk_B s))\<rparr>"
  have q: "lk_ab s = []" "lk_ba s = []" "uc_readBuf (lk_A s) = []" "uc_ackChan (lk_A s) = []"
    "uc_readBuf (lk_B s) = []" "uc_state (lk_A s) = STATE_CONNECTED" "uc_writeDeadline (lk_A s) = None"
    using assms(1) by (simp_all add: quiet_def)
  have same: "(lk_A s)\<lparr>uc_readBuf := []\<rparr> = lk_A s" "(lk_A s)\<lparr>uc_ackChan := []\<rparr> = lk_A s"
    "(lk_B s)\<lparr>uc_readBuf := []\<rparr> = lk_B s"
    using q(3-5) by (cases "lk_A s", cases "lk_B s", simp)+
  define hs rd where "hs = lk_handled s" and "rd = lk_read s"
  have s: "s = \<lparr>lk_A = lk_A s, lk_B = lk_B s, lk_ab = [], lk_ba = [],
      lk_w = WTransmit t ?p, lk_handled = hs, lk_read = rd\<rparr>"
    using q(1,2) assms(2) by (simp add: hs_def rd_def)
  let ?s1 = "\<lparr>lk_A = lk_A s, lk_B = lk_B s, lk_ab = [encoded ?p], lk_ba = [], lk_w = WWait t ?p,
    lk_handled = hs, lk_read = rd\<rparr>"
  let ?s2 = "\<lparr>lk_A = lk_A s, lk_B = (lk_B s)\<lparr>uc_readBuf := [?p]\<rparr>, lk_ab = [], lk_ba = [], lk_w = WWait t ?p,
    lk_handled = hs, lk_read = rd\<rparr>"
  let ?s3 = "\<lparr>lk_A = lk_A s, lk_B = ?B, lk_ab = [], lk_ba = [encoded ?a], lk_w = WWait t ?p,
    lk_handled = hs @ [?p], lk_read = rd\<rparr>"
  let ?s4 = "\<lparr>lk_A = (lk_A s)\<lparr>uc_readBuf := [?a]\<rparr>, lk_B = ?B, lk_ab = [], lk_ba = [], lk_w = WWait t ?p,
    lk_handled = hs @ [?p], lk_read = rd\<rparr>"
  let ?s5 = "\<lparr>lk_A = (lk_A s)\<lparr>uc_ackChan := [sq]\<rparr>, lk_B = ?B, lk_ab = [], lk_ba = [], lk_w = WWait t ?p,
    lk_handled = hs @ [?p], lk_read = rd\<rparr>"
  let ?s6 = "\<lparr>lk_A = c, lk_B = ?B, lk_ab = [], lk_ba = [], lk_w = w,
    lk_handled = hs @ [?p], lk_read = rd\<rparr>"
  have "link_step b s ?s1"
    using link_step.transmit [OF assms(2), of b 0] q(7) by (subst (asm) (1 2) s) (simp add: write_sent_def)
  moreover have "link_step b ?s1 ?s2"
    using link_step.arrive_b [of ?s1 "encoded ?p" "[]" b] q(5)
    by (simp add: arrive_mk enqueue_packet_def chan_offer_def)
  moreover have "link_step b ?s2 ?s3"
  proof -
    have "run_step RunPacket (lk_B ?s2) = Some (Inr (?B, [SendTo (encoded ?a) (uc_remoteAddr (lk_B s))]))"
      using q(5) by (simp add: run_step_def handlePacket_def send_ack_def ST_defs Let_def)
    from link_step.run_b [OF _ this, of ?p "[]" b] show ?thesis using q(2) by (simp add: datagrams_def)
  qed
  moreover have "link_step b ?s3 ?s4"
    using link_step.arrive_a [of ?s3 "encoded ?a" "[]" b] q(3)
    by (simp add: arrive_mk enqueue_packet_def chan_offer_def)
  moreover have "link_step b ?s4 ?s5"
  proof -
    have "run_step RunPacket (lk_A ?s4) = Some (Inr ((lk_A s)\<lparr>uc_ackChan := [sq]\<rparr>, []))"
      using q(3,4,6) by (simp add: run_step_def handlePacket_def ST_defs Let_def chan_offer_def)
    from link_step.run_a [OF this, of b] show ?thesis by (simp add: datagrams_def)
  qed
  moreover have "link_step b ?s5 ?s6"
  proof -
    have "write_on_ack b t ?p (lk_A ?s5) = Some (c, w)"
      using assms(3) same(2) by (simp add: write_on_ack_def)
    from link_step.ack [OF _ this] show ?thesis by simp
  qed
  ultimately have "link_run b s ?s6" by (meson step_run rtranclp.rtrancl_refl)
  moreover have "s\<lparr>lk_A := c, lk_w := w, lk_handled := lk_handled s @ [?p], lk_B := ?B\<rparr> = ?s6"
    using q(1,2) by (simp add: hs_def rd_def)
  ultimately show ?thesis by simp
qed

lemma chan_offer_take: "chan_offer n x (take n xs) = take n (xs @ [x])"
  by (simp add: chan_offer_def)

lemma write_next_keeps:
  assumes "write_next b t c = (c', w)"
  shows "uc_readBuf c' = uc_readBuf c" "uc_ackChan c' = uc_ackChan c" "uc_state c' = uc_state c"
    "uc_writeDeadline c' = uc_writeDeadline c"
  using assms by (auto simp: write_next_def Let_def split: if_splits)

lemma link_lossless:
  assumes "quiet s" "write_next b (min (1400 * k) (length b)) c0 = (lk_A s, lk_w s)"
    and "uc_readQueue (lk_B s) = take 100 (map (chunk b) [0..<k])"
  shows "\<exists>s' n. link_run b s s' \<and> quiet s' \<and> lk_w s' = WDone (length b) None \<and> length b \<le> 1400 * n \<and>
    uc_readQueue (lk_B s') = take 100 (map (chunk b) [0..<n])"
  using assms
proof (induction "length b - 1400 * k" arbitrary: s k c0 rule: less_induct)
  case less
  show ?case
  proof (cases "1400 * k < length b")
    case False
    then have "min (1400 * k) (length b) = length b" by (intro min_absorb2) simp
    with less.prems(2) have "lk_w s = WDone (length b) None" by (simp add: write_next_def)
    with False less.prems(1,3) show ?thesis by (intro exI [of _ s] exI [of _ k]) simp
  next
    case True
    then have m: "min (1400 * k) (length b) = 1400 * k" by (rule min_absorb1 [OF less_imp_le])
    obtain cid sq ak where w: "lk_w s = WTransmit (1400 * k) (mk_packet ST_DATA cid sq ak (chunk b k))"
      using less.prems(2) [symmetric] True unfolding m write_next_def Let_def gslice_chunk [OF True] by auto
    obtain c w' where n: "write_next b (chunk_end b (1400 * k)) (lk_A s) = (c, w')" by force
    have e: "chunk_end b (1400 * k) = min (1400 * Suc k) (length b)"
      by (simp add: chunk_end_def chunkSize_def min_def)
    let ?s1 = "s\<lparr>lk_A := c, lk_w := w', lk_handled := lk_handled s @ [mk_packet ST_DATA cid sq ak (chunk b k)],
      lk_B := (lk_B s)\<lparr>uc_ack := sq, uc_readQueue := chan_offer 100 (chunk b k) (uc_readQueue (lk_B s))\<rparr>\<rparr>"
    have r: "link_run b s ?s1" by (rule link_round [OF less.prems(1) w n])
    have q: "quiet ?s1" using less.prems(1) write_next_keeps [OF n] by (simp add: quiet_def)
    have "length b - 1400 * Suc k < length b - 1400 * k" using True by simp
    moreover have "write_next b (min (1400 * Suc k) (length b)) (lk_A s) = (lk_A ?s1, lk_w ?s1)"
      using n e by simp
    moreover have "uc_readQueue (lk_B ?s1) = take 100 (map (chunk b) [0..<Suc k])"
      using less.prems(3) by (simp add: chan_offer_take)
    ultimately obtain s' n' where "link_run b ?s1 s'" "quiet s'" "lk_w s' = WDone (length b) None"
      "length b \<le> 1400 * n'" "uc_readQueue (lk_B s') = take 100 (map (chunk b) [0..<n'])"
      using less.hyps [of "Suc k" ?s1 "lk_A s"] q by blast
    with r show ?thesis by (meson rtranclp_trans)
  qed
qed


definition sample_conn :: "u16 \<Rightarrow> u16 \<Rightarrow> utp_conn" where
  "sample_conn recvID sendID = new_conn STATE_CONNECTED (UDPAddr ''10.0.0.1'' 80) recvID sendID 1 0"

lemma sample_idle: "idle (sample_conn x y)"
  by (simp add: idle_def sample_conn_def new_conn_def)


text \<open>A link state at \<open>B\<close>'s queue and buffer contents, and the retransmission of its only chunk.\<close>

abbreviation link_at :: "utp_conn \<Rightarrow> utp_conn \<Rightarrow> bytes list \<Rightarrow> bytes list \<Rightarrow> write_status \<Rightarrow> utp_packet list \<Rightarrow> bytes \<Rightarrow> link" where
  "link_at A B ab ba w hs rd \<equiv> \<lparr>lk_A = A, lk_B = B, lk_ab = ab, lk_ba = ba, lk_w = w, lk_handled = hs, lk_read = rd\<rparr>"

abbreviation B_at :: "utp_conn \<Rightarrow> u16 \<Rightarrow> bytes list \<Rightarrow> utp_packet list \<Rightarrow> utp_conn" where
  "B_at B sq q rb \<equiv> B\<lparr>uc_readBuf := rb, uc_ack := sq, uc_readQueue := q\<rparr>"

lemma run_data:
  assumes "uc_readBuf Bc = mk_packet ST_DATA cid sq ak b # rb" "length (uc_readQueue Bc) < 100"
  shows "link_step c (link_at A Bc ab ba w hs rd)
    (link_at A (Bc\<lparr>uc_readBuf := rb, uc_ack := sq, uc_readQueue := uc_readQueue Bc @ [b]\<rparr>) ab
      (ba @ [encoded (mk_packet ST_STATE (uc_sendID Bc) 0 sq [])]) w (hs @ [mk_packet ST_DATA cid sq ak b]) rd)"
proof -
  have "run_step RunPacket Bc = Some (Inr (Bc\<lparr>uc_readBuf := rb, uc_ack := sq, uc_readQueue := uc_readQueue Bc @ [b]\<rparr>,
      [SendTo (encoded (mk_packet ST_STATE (uc_sendID Bc) 0 sq [])) (uc_remoteAddr Bc)]))"
    using assms by (simp add: run_step_def handlePacket_def send_ack_def ST_defs Let_def chan_offer_def)
  with assms(1) show ?thesis
    using link_step.run_b [of "link_at A Bc ab ba w hs rd" "mk_packet ST_DATA cid sq ak b" rb _ _ c]
    by (simp add: datagrams_def)
qed

lemma sent_twice:
  fixes b :: bytes and cid sq ak :: u16
  assumes "uc_readBuf B = []" "uc_readQueue B = []" "uc_state A = STATE_CONNECTED" "uc_writeDeadline A = None"
  defines "p \<equiv> mk_packet ST_DATA cid sq ak b" and "f \<equiv> encoded (mk_packet ST_STATE (uc_sendID B) 0 sq [])"
  shows "link_run c (link_at A B [] [] (WTransmit 0 p) [] []) (link_at A (B_at B sq [b, b] []) [] [f, f] (WWait 0 p) [p, p] [])"
proof -
  let ?w = "WWait 0 p" and ?e = "encoded p"
  have tx: "link_step c (link_at A B ab [] (WTransmit 0 p) [] []) (link_at A B (ab @ [?e]) [] ?w [] [])" for ab
    using link_step.transmit [of "link_at A B ab [] (WTransmit 0 p) [] []" 0 p c 0] assms(4)
    by (simp add: write_sent_def)
  have to: "link_step c (link_at A B [?e] [] ?w [] []) (link_at A B [?e] [] (WTransmit 0 p) [] [])"
    using link_step.timeout [of "link_at A B [?e] [] ?w [] []" 0 p c] assms(3) by (simp add: write_on_timeout_def)
  have ar: "link_step c (link_at A (B\<lparr>uc_readBuf := rb\<rparr>) (?e # ab) [] ?w [] []) (link_at A (B\<lparr>uc_readBuf := rb @ [p]\<rparr>) ab [] ?w [] [])"
    if "length rb < 100" for rb ab
    using link_step.arrive_b [of "link_at A (B\<lparr>uc_readBuf := rb\<rparr>) (?e # ab) [] ?w [] []" ?e ab c] that
    by (simp add: p_def arrive_mk enqueue_packet_def chan_offer_def)
  have B: "B\<lparr>uc_readBuf := []\<rparr> = B" using assms(1) by (cases B) simp
  have 6: "link_step c (link_at A (B\<lparr>uc_readBuf := [p, p]\<rparr>) [] [] ?w [] []) (link_at A (B_at B sq [b] [p]) [] [f] ?w [p] [])"
    using run_data [of "B\<lparr>uc_readBuf := [p, p]\<rparr>" cid sq ak b "[p]" c A "[]" "[]" ?w "[]" "[]"] assms(2) by (simp add: p_def f_def)
  have 7: "link_step c (link_at A (B_at B sq [b] [p]) [] [f] ?w [p] []) (link_at A (B_at B sq [b, b] []) [] [f, f] ?w [p, p] [])"
    using run_data [of "B_at B sq [b] [p]" cid sq ak b "[]" c A "[]" "[f]" ?w "[p]" "[]"] by (simp add: p_def f_def)
  show ?thesis
    using tx [of "[]"] to tx [of "[?e]"] ar [of "[]" "[?e]"] ar [of "[p]" "[]"] 6 7 unfolding B
    by (auto intro: step_run)
qed

lemma ack_and_read:
  fixes b :: bytes and cid sq ak sid :: u16
  assumes "uc_readBuf A = []" "uc_ackChan A = []" "uc_state A = STATE_CONNECTED" "length b \<le> 1400"
    and "uc_unread B = []" "uc_readDeadline B = None"
  defines "p \<equiv> mk_packet ST_DATA cid sq ak b" and "f \<equiv> encoded (mk_packet ST_STATE sid 0 sq [])"
  shows "\<exists>A' B'. link_run b (link_at A (B_at B sq [b, b] []) [] [f, f] (WWait 0 p) hs [])
    (link_at A' B' [] [f] (WDone (length b) None) hs (b @ b))"
proof -
  let ?w = "WWait 0 p" and ?a = "mk_packet ST_STATE sid 0 sq []" and ?B = "B_at B sq"
  have e: "chunk_end b 0 = length b" using assms(4) by (simp add: chunk_end_def chunkSize_def)
  have 1: "link_step b (link_at A (?B [b, b] []) [] [f, f] ?w hs []) (link_at (A\<lparr>uc_readBuf := [?a]\<rparr>) (?B [b, b] []) [] [f] ?w hs [])"
    using link_step.arrive_a [of "link_at A (?B [b, b] []) [] [f, f] ?w hs []" f "[f]" b] assms(1)
    by (simp add: f_def arrive_mk enqueue_packet_def chan_offer_def)
  have "run_step RunPacket (A\<lparr>uc_readBuf := [?a]\<rparr>) = Some (Inr (A\<lparr>uc_readBuf := [], uc_ackChan := [sq]\<rparr>, []))"
    using assms(2,3) by (simp add: run_step_def handlePacket_def ST_defs Let_def chan_offer_def)
  then have 2: "link_step b (link_at (A\<lparr>uc_readBuf := [?a]\<rparr>) (?B [b, b] []) [] [f] ?w hs [])
      (link_at (A\<lparr>uc_readBuf := [], uc_ackChan := [sq]\<rparr>) (?B [b, b] []) [] [f] ?w hs [])"
    using link_step.run_a [of "link_at (A\<lparr>uc_readBuf := [?a]\<rparr>) (?B [b, b] []) [] [f] ?w hs []" _ _ b]
    by (simp add: datagrams_def)
  let ?A = "A\<lparr>uc_readBuf := [], uc_ackChan := []\<rparr>"
  have "write_on_ack b 0 p (A\<lparr>uc_readBuf := [], uc_ackChan := [sq]\<rparr>) = Some (?A, WDone (length b) None)"
    by (simp add: p_def write_on_ack_def e write_next_def)
  then have 3: "link_step b (link_at (A\<lparr>uc_readBuf := [], uc_ackChan := [sq]\<rparr>) (?B [b, b] []) [] [f] ?w hs [])
      (link_at ?A (?B [b, b] []) [] [f] (WDone (length b) None) hs [])"
    using link_step.ack [of "link_at (A\<lparr>uc_readBuf := [], uc_ackChan := [sq]\<rparr>) (?B [b, b] []) [] [f] ?w hs []" 0 p b]
    by simp
  have rd: "utp_Read 0 ReadQueue (length b) (?B (b # q) []) = Some (?B q [], Inr b)" for q
    using assms(5,6) by (simp add: utp_Read_def)
  have 4: "link_step b (link_at ?A (?B (b # q) []) [] [f] (WDone (length b) None) hs r)
      (link_at ?A (?B q []) [] [f] (WDone (length b) None) hs (r @ b))" for q r
    using link_step.read_b [of 0 ReadQueue "length b" "link_at ?A (?B (b # q) []) [] [f] (WDone (length b) None) hs r" _ b b] rd
    by simp
  show ?thesis using 1 2 3 4 [of "[b]" "[]"] 4 [of "[]" b] by simp (meson step_run rtranclp.rtrancl_refl)
qed

text \<open>
  A late ack duplicates data. When the ack of a chunk takes longer than the retransmission
  timeout, without any loss or duplication by the link, the peer queues the chunk twice, so that its
  reader gets \<open>b\<close> followed by \<open>b\<close> although \<open>b\<close> was written once, successfully.
\<close>

lemma late_ack_duplicates_data:
  assumes "idle A" "idle B" "b \<noteq> []" "length b \<le> 1400"
  shows "\<exists>s. link_run b (link_start b A B) s \<and> lk_w s = WDone (length b) None \<and> lk_read s = b @ b"
proof -
  let ?A = "A\<lparr>uc_seq := uc_seq A + 1\<rparr>" and ?p = "mk_packet ST_DATA (uc_sendID A) (uc_seq A + 1) (uc_ack A) b"
  have A: "uc_readBuf ?A = []" "uc_ackChan ?A = []" "uc_state ?A = STATE_CONNECTED" "uc_writeDeadline ?A = None"
    and B: "uc_readBuf B = []" "uc_readQueue B = []" "uc_unread B = []" "uc_readDeadline B = None"
    using assms(1,2) by (simp_all add: idle_def)
  have "chunk_end b 0 = length b" using assms(4) by (simp add: chunk_end_def chunkSize_def)
  then have "write_next b 0 A = (?A, WTransmit 0 ?p)"
    using assms(3) by (simp add: write_next_def gslice_full)
  then have "link_start b A B = link_at ?A B [] [] (WTransmit 0 ?p) [] []"
    using A(3) by (simp add: link_start_def write_start_def)
  with sent_twice [OF B(1,2) A(3,4)] ack_and_read [OF A(1-3) assms(4) B(3,4)] show ?thesis
    by simp (meson link.select_convs rtranclp_trans)
qed

lemma sample_write:
  "\<exists>s. link_run [1, 2, 3] (link_start [1, 2, 3] (sample_conn 8 7) (sample_conn 7 8)) s \<and> lk_w s = WDone 3 None"
  using link_lossless [of "link_start [1, 2, 3] (sample_conn 8 7) (sample_conn 7 8)" "[1, 2, 3]" 0 "sample_conn 8 7"]
  by (auto simp: link_start_def write_start_def quiet_def sample_conn_def new_conn_def write_next_def Let_def)

theorem utp_write_at_least_once_witness:
  "\<exists>s. link_run [1, 2, 3] (link_start [1, 2, 3] (sample_conn 8 7) (sample_conn 7 8)) s \<and>
    lk_w s = WDone 3 None \<and> delivered s = [1, 2, 3]"
proof -
  obtain s where s: "link_run [1, 2, 3] (link_start [1, 2, 3] (sample_conn 8 7) (sample_conn 7 8)) s"
    "lk_w s = WDone 3 None" using sample_write by blast
  from utp_write_at_least_once [OF sample_idle sample_idle s(1), of 3 EOF] s(2) have "delivered s = [1, 2, 3]" by blast
  with s show ?thesis by blast
qed

end
