(* ===== verification/Utp_Turn.thy ===== *)
theory Utp_Turn
  imports Utp_Conn
begin

section \<open>STUN and TURN messages and the relay dial (pkg/utp/stun.go, turn.go, conn.go)\<close>

text \<open>
  Builders fill a zeroed buffer; their result is the concatenation of its fields. The random
  transaction ID is an argument, or the error of the random source. Parsers walk a list of
  attributes by offset; the walk is a loop over an explicit offset, with the run-time checks of the
  slice expressions, and is shown equal to a recursive reading of the attribute bytes.
\<close>

type_synonym ip = bytes

definition attrXorPeerAddress :: u16 where "attrXorPeerAddress = 0x0012"
definition attrData :: u16 where "attrData = 0x0013"
definition attrXorRelayedAddress :: u16 where "attrXorRelayedAddress = 0x0016"
definition attrRequestedTransport :: u16 where "attrRequestedTransport = 0x0019"
definition attrMappedAddr :: u16 where "attrMappedAddr = 0x0001"
definition attrXorMapped :: u16 where "attrXorMapped = 0x0020"

text \<open>\<open>stunMagicCookie >> 16\<close>, a constant of the type of the port it is combined with.\<close>

definition cookie_port :: u16 where "cookie_port = ucast (drop_bit 16 stunMagicCookie)"

text \<open>\<open>net.IP.To4\<close>: four bytes, or the IPv4-mapped form of sixteen.\<close>

definition To4 :: "ip \<Rightarrow> ip option" where
  "To4 a = (if length a = 4 then Some a
            else if length a = 16 \<and> take 10 a = replicate 10 0 \<and> a ! 10 = 0xff \<and> a ! 11 = 0xff then Some (drop 12 a)
            else None)"

text \<open>\<open>(n + 3) &^ 3\<close> on a non-negative \<open>int\<close>.\<close>

definition pad4 :: "nat \<Rightarrow> nat" where "pad4 n = (n + 3) div 4 * 4"

definition stun_header :: "u16 \<Rightarrow> u16 \<Rightarrow> bytes \<Rightarrow> bytes" where
  "stun_header ty len txID = put_u16 ty @ put_u16 len @ put_u32 stunMagicCookie @ txID"

definition xor_peer_address :: "ip \<Rightarrow> int \<Rightarrow> bytes" where
  "xor_peer_address ipv4 port =
     put_u16 attrXorPeerAddress @ put_u16 8 @ [0, 1] @ put_u16 (of_int port XOR cookie_port) @
     put_u32 (be_dec ipv4 XOR stunMagicCookie)"

subsection \<open>Builders\<close>

definition BuildSTUNBindingRequest :: "bytes result \<Rightarrow> (bytes \<times> bytes) result" where
  "BuildSTUNBindingRequest rnd =
     (case rnd of Inl e \<Rightarrow> Inl e | Inr txID \<Rightarrow> Inr (stun_header 0x0001 0x0000 txID, txID))"

definition BuildTURNAllocateRequest :: "bytes result \<Rightarrow> (bytes \<times> bytes) result" where
  "BuildTURNAllocateRequest rnd =
     (case rnd of Inl e \<Rightarrow> Inl e
      | Inr txID \<Rightarrow>
          Inr (stun_header 0x0003 0x0008 txID @ put_u16 attrRequestedTransport @ put_u16 0x0004 @ [17, 0, 0, 0], txID))"

definition BuildTURNCreatePermissionRequest :: "bytes result \<Rightarrow> ip \<Rightarrow> int \<Rightarrow> (bytes \<times> bytes) result" where
  "BuildTURNCreatePermissionRequest rnd peerIP peerPort =
     (case rnd of Inl e \<Rightarrow> Inl e
      | Inr txID \<Rightarrow>
          (case To4 peerIP of
             None \<Rightarrow> Inl (ErrNew ''only IPv4 peers are currently supported for permissions'')
           | Some ipv4 \<Rightarrow> Inr (stun_header 0x0008 12 txID @ xor_peer_address ipv4 peerPort, txID)))"

definition BuildTURNSendIndication :: "bytes \<Rightarrow> ip \<Rightarrow> int \<Rightarrow> bytes \<Rightarrow> bytes result" where
  "BuildTURNSendIndication txID peerIP peerPort payload =
     (case To4 peerIP of
        None \<Rightarrow> Inl (ErrNew ''only IPv4 peers are supported for Send Indication'')
      | Some ipv4 \<Rightarrow>
          let paddedPayloadLen = pad4 (length payload);
              attrLen = 12 + 4 + paddedPayloadLen
          in Inr (stun_header 0x0016 (of_nat attrLen) txID @ xor_peer_address ipv4 peerPort @
                  put_u16 attrData @ put_u16 (of_nat (length payload)) @
                  payload @ replicate (paddedPayloadLen - length payload) 0))"

subsection \<open>The attribute loop\<close>

text \<open>
  One iteration: \<open>None\<close> is the end of the loop, by its condition or a \<open>break\<close>, otherwise the type,
  the value and the next offset.
\<close>

definition next_attr :: "bytes \<Rightarrow> nat \<Rightarrow> nat \<Rightarrow> (u16 \<times> bytes \<times> nat) option result" where
  "next_attr data lim offset =
     (if \<not> offset < lim \<or> offset + 4 > lim then Inr None
      else case go_slice (int offset) (int offset + 2) data of Inl e \<Rightarrow> Inl e
        | Inr ty \<Rightarrow> (case go_slice (int offset + 2) (int offset + 4) data of Inl e \<Rightarrow> Inl e
        | Inr lb \<Rightarrow>
            let attrLen = unat (be_dec lb :: u16); offset' = offset + 4 in
            if offset' + attrLen > lim then Inr None
            else (case go_slice (int offset') (int offset' + int attrLen) data of Inl e \<Rightarrow> Inl e
              | Inr attrValue \<Rightarrow> Inr (Some (be_dec ty, attrValue, offset' + pad4 attrLen)))))"

lemma next_attr_advances: "next_attr data lim offset = Inr (Some (ty, v, o')) \<Longrightarrow> offset < o' \<and> offset < lim"
  by (auto simp: next_attr_def Let_def split: if_splits sum.splits)

text \<open>
  The loop of each parser: \<open>f\<close> is its treatment of one attribute, which returns from the parser
  (\<open>Inl\<close>) or goes on with new values of the local variables.
\<close>

function attr_loop ::
  "(u16 \<Rightarrow> bytes \<Rightarrow> 's \<Rightarrow> 'r + 's) \<Rightarrow> bytes \<Rightarrow> nat \<Rightarrow> nat \<Rightarrow> 's \<Rightarrow> ('r + 's) result" where
  "attr_loop f data lim offset s =
     (case next_attr data lim offset of Inl e \<Rightarrow> Inl e
      | Inr None \<Rightarrow> Inr (Inr s)
      | Inr (Some (ty, v, offset')) \<Rightarrow>
          (case f ty v s of Inl r \<Rightarrow> Inr (Inl r) | Inr s' \<Rightarrow> attr_loop f data lim offset' s'))"
  by pat_completeness auto
termination
  by (relation "measure (\<lambda>(f, data, lim, offset, s). lim - offset)") (auto dest!: next_attr_advances)

declare attr_loop.simps [simp del]

subsection \<open>Parsers\<close>

definition xor_ipv4 :: "bytes \<Rightarrow> ip" where
  "xor_ipv4 attrValue = put_u32 (be_dec (gslice 4 8 attrValue) XOR stunMagicCookie)"

definition xor_ipv6 :: "bytes \<Rightarrow> bytes \<Rightarrow> ip" where
  "xor_ipv6 txID attrValue = map2 (XOR) (gslice 4 20 attrValue) (put_u32 stunMagicCookie @ txID)"

definition xor_port :: "bytes \<Rightarrow> nat" where
  "xor_port attrValue = unat (be_dec (gslice 2 4 attrValue) XOR cookie_port :: u16)"

definition xor_address :: "bytes \<Rightarrow> bytes \<Rightarrow> (ip \<times> nat) option" where
  "xor_address txID attrValue =
     (if length attrValue < 8 then None
      else let family = attrValue ! 1; port = xor_port attrValue in
        if family = 1 then Some (xor_ipv4 attrValue, port)
        else if family = 2 \<and> 20 \<le> length attrValue then Some (xor_ipv6 txID attrValue, port)
        else None)"

definition mapped_address :: "bytes \<Rightarrow> (ip \<times> nat) option" where
  "mapped_address attrValue =
     (if length attrValue < 8 then None
      else let family = attrValue ! 1; port = unat (be_dec (gslice 2 4 attrValue) :: u16) in
        if family = 1 then Some (gslice 4 8 attrValue, port)
        else if family = 2 \<and> 20 \<le> length attrValue then Some (gslice 4 20 attrValue, port)
        else None)"

definition stun_address :: "bytes \<Rightarrow> u16 \<times> bytes \<Rightarrow> (ip \<times> nat) option" where
  "stun_address txID = (\<lambda>(ty, v). if ty = attrMappedAddr then mapped_address v
     else if ty = attrXorMapped then xor_address txID v else None)"

definition relayed_address :: "bytes \<Rightarrow> u16 \<times> bytes \<Rightarrow> (ip \<times> nat) option" where
  "relayed_address txID = (\<lambda>(ty, v). if ty = attrXorRelayedAddress then xor_address txID v else None)"

definition stun_attr :: "bytes \<Rightarrow> u16 \<Rightarrow> bytes \<Rightarrow> unit \<Rightarrow> (ip \<times> nat) + unit" where
  "stun_attr txID ty v s = (case stun_address txID (ty, v) of Some r \<Rightarrow> Inl r | None \<Rightarrow> Inr s)"

definition relayed_attr :: "bytes \<Rightarrow> u16 \<Rightarrow> bytes \<Rightarrow> unit \<Rightarrow> (ip \<times> nat) + unit" where
  "relayed_attr txID ty v s = (case relayed_address txID (ty, v) of Some r \<Rightarrow> Inl r | None \<Rightarrow> Inr s)"

text \<open>The header checks of the two responses; the comparison of the ID is byte by byte in the code.\<close>

definition check_response :: "string \<Rightarrow> string \<Rightarrow> u16 \<Rightarrow> bytes \<Rightarrow> bytes \<Rightarrow> nat result" where
  "check_response name kind ty data expectedTxID =
     (if length data < 20 then Inl (ErrNew (name @ '' packet too short''))
      else let msgType = be_dec (gslice 0 2 data) :: u16;
               len = unat (be_dec (gslice 2 4 data) :: u16);
               cookie = be_dec (gslice 4 8 data) :: u32 in
        if msgType \<noteq> ty then Inl (ErrNew (''not a '' @ kind @ '' success response''))
        else if cookie \<noteq> stunMagicCookie then Inl (ErrNew ''invalid STUN magic cookie'')
        else if gslice 8 20 data \<noteq> expectedTxID then Inl (ErrNew (name @ '' transaction ID mismatch''))
        else if length data < 20 + len then Inl (ErrNew (name @ '' packet attribute length mismatch''))
        else Inr len)"

definition ParseSTUNBindingResponse :: "bytes \<Rightarrow> bytes \<Rightarrow> (ip \<times> nat) result" where
  "ParseSTUNBindingResponse data expectedTxID =
     (case check_response ''STUN'' ''STUN'' 0x0101 data expectedTxID of Inl e \<Rightarrow> Inl e
      | Inr len \<Rightarrow>
          (case attr_loop (stun_attr expectedTxID) data (20 + len) 20 () of Inl e \<Rightarrow> Inl e
           | Inr (Inl r) \<Rightarrow> Inr r
           | Inr (Inr _) \<Rightarrow> Inl (ErrNew ''no mapped address found in STUN response'')))"

definition ParseTURNAllocateResponse :: "bytes \<Rightarrow> bytes \<Rightarrow> (ip \<times> nat) result" where
  "ParseTURNAllocateResponse data expectedTxID =
     (case check_response ''TURN'' ''TURN Allocate'' 0x0103 data expectedTxID of Inl e \<Rightarrow> Inl e
      | Inr len \<Rightarrow>
          (case attr_loop (relayed_attr expectedTxID) data (20 + len) 20 () of Inl e \<Rightarrow> Inl e
           | Inr (Inl r) \<Rightarrow> Inr r
           | Inr (Inr _) \<Rightarrow> Inl (ErrNew ''no relayed address found in TURN response'')))"

text \<open>The local variables \<open>peerIP\<close> (\<open>nil\<close> is empty), \<open>peerPort\<close> and \<open>payload\<close>; no attribute ends the loop.\<close>

definition indication_attr :: "u16 \<Rightarrow> bytes \<Rightarrow> ip \<times> nat \<times> bytes \<Rightarrow> unit + (ip \<times> nat \<times> bytes)" where
  "indication_attr ty v s =
     (let (peerIP, peerPort, payload) = s in
      if ty = attrXorPeerAddress then
        if length v < 8 then Inr s
        else Inr (if v ! 1 = 1 then xor_ipv4 v else peerIP, xor_port v, payload)
      else if ty = attrData then Inr (peerIP, peerPort, v)
      else Inr s)"

definition ParseTURNDataIndication :: "bytes \<Rightarrow> (ip \<times> nat \<times> bytes) result" where
  "ParseTURNDataIndication data =
     (if length data < 20 then Inl (ErrNew ''TURN indication packet too short'')
      else let msgType = be_dec (gslice 0 2 data) :: u16;
               len = unat (be_dec (gslice 2 4 data) :: u16);
               cookie = be_dec (gslice 4 8 data) :: u32 in
        if msgType \<noteq> 0x0017 then Inl (ErrNew ''not a TURN Data Indication'')
        else if cookie \<noteq> stunMagicCookie then Inl (ErrNew ''invalid STUN magic cookie'')
        else if length data < 20 + len then Inl (ErrNew ''TURN packet length mismatch'')
        else case attr_loop indication_attr data (20 + len) 20 ([], 0, []) of Inl e \<Rightarrow> Inl e
          | Inr (Inl _) \<Rightarrow> Inl (ErrNew ''unreachable'')
          | Inr (Inr (peerIP, peerPort, payload)) \<Rightarrow>
              if payload = [] then Inl (ErrNew ''no DATA attribute in indication'')
              else Inr (peerIP, peerPort, payload))"

subsection \<open>The loop reads the attribute list\<close>

text \<open>The attributes of a message body, read recursively without offsets, up to a truncated one.\<close>

function attributes :: "bytes \<Rightarrow> (u16 \<times> bytes) list" where
  "attributes r =
     (if length r < 4 then []
      else let n = unat (be_dec (gslice 2 4 r) :: u16) in
        if length r < 4 + n then []
        else (be_dec (gslice 0 2 r), gslice 4 (4 + n) r) # attributes (drop (4 + pad4 n) r))"
  by pat_completeness auto
termination
  by (relation "measure length") (auto simp: Let_def)

declare attributes.simps [simp del]

fun fold_until :: "('a \<Rightarrow> 's \<Rightarrow> 'r + 's) \<Rightarrow> 'a list \<Rightarrow> 's \<Rightarrow> 'r + 's" where
  "fold_until f [] s = Inr s"
| "fold_until f (x # xs) s = (case f x s of Inl r \<Rightarrow> Inl r | Inr s' \<Rightarrow> fold_until f xs s')"

lemma attributes_short: "length r < 4 \<Longrightarrow> attributes r = []"
  by (simp add: attributes.simps [of r])

lemma gslice_gslice: "j + offset \<le> lim \<Longrightarrow> gslice i j (gslice offset lim xs) = gslice (offset + i) (offset + j) xs"
  by (simp add: gslice_def drop_take ac_simps)

lemma drop_gslice: "drop k (gslice offset lim xs) = gslice (offset + k) lim xs"
  by (simp add: gslice_def drop_take ac_simps)

lemma go_slice_at:
  "a = int i \<Longrightarrow> b = int j \<Longrightarrow> i \<le> j \<Longrightarrow> j \<le> length xs \<Longrightarrow> go_slice a b xs = Inr (gslice i j xs)"
  by (simp add: go_slice_def)

lemma next_attr_body:
  assumes "lim \<le> length data" "r = gslice offset lim data" "n = unat (be_dec (gslice 2 4 r) :: u16)"
  shows "next_attr data lim offset =
    Inr (if length r < 4 \<or> length r < 4 + n then None
         else Some (be_dec (gslice 0 2 r), gslice 4 (4 + n) r, offset + 4 + pad4 n))"
proof (cases "offset + 4 \<le> lim")
  case False
  have "length r < 4" using assms(1,2) False by (simp add: gslice_def)
  with False show ?thesis by (simp add: next_attr_def)
next
  case True
  have lr: "length r = lim - offset" using assms(1,2) by (simp add: gslice_def)
  have g: "go_slice (int offset) (int offset + 2) data = Inr (gslice 0 2 r)"
    "go_slice (int offset + 2) (int offset + 4) data = Inr (gslice 2 4 r)"
    unfolding assms(2) by (subst go_slice_at [of _ offset _ "offset + 2"] go_slice_at [of _ "offset + 2" _ "offset + 4"];
        use True assms(1) in \<open>simp add: gslice_gslice\<close>)+
  show ?thesis
  proof (cases "offset + 4 + n \<le> lim")
    case False
    then have "length r < 4 + n" using lr by linarith
    with False True g assms(3) show ?thesis by (simp add: next_attr_def)
  next
    case fits: True
    have "go_slice (int (offset + 4)) (int (offset + 4 + n)) data = Inr (gslice 4 (4 + n) r)"
      using go_slice_at [of _ "offset + 4" _ "offset + 4 + n" data, OF refl refl] fits assms(1,2)
      by (simp add: gslice_gslice add.assoc)
    then have "go_slice (int (offset + 4)) (int (offset + 4) + int n) data = Inr (gslice 4 (4 + n) r)" by simp
    moreover have "\<not> length r < 4" "\<not> length r < 4 + n" using fits lr by linarith+
    ultimately show ?thesis using True fits g assms(3) [symmetric] by (simp add: next_attr_def Let_def)
  qed
qed

lemma attr_loop_attributes:
  assumes "lim \<le> length data"
  shows "attr_loop f data lim offset s = Inr (fold_until (\<lambda>(ty, v). f ty v) (attributes (gslice offset lim data)) s)"
proof (induction "lim - offset" arbitrary: offset s rule: less_induct)
  case less
  define r where "r = gslice offset lim data"
  define n where "n = unat (be_dec (gslice 2 4 r) :: u16)"
  have na: "next_attr data lim offset = Inr (if length r < 4 \<or> length r < 4 + n then None
      else Some (be_dec (gslice 0 2 r), gslice 4 (4 + n) r, offset + 4 + pad4 n))"
    by (rule next_attr_body [OF assms r_def n_def])
  have at: "attributes r = (if length r < 4 \<or> length r < 4 + n then []
      else (be_dec (gslice 0 2 r), gslice 4 (4 + n) r) # attributes (drop (4 + pad4 n) r))"
    by (subst attributes.simps) (simp add: Let_def n_def)
  show ?case
  proof (cases "length r < 4 \<or> length r < 4 + n")
    case True
    then show ?thesis using na at by (subst attr_loop.simps) (simp add: r_def)
  next
    case False
    have dr: "drop (4 + pad4 n) r = gslice (offset + 4 + pad4 n) lim data"
      by (simp add: r_def drop_gslice add.assoc)
    have lt: "lim - (offset + 4 + pad4 n) < lim - offset" using False assms by (auto simp: r_def gslice_def)
    have ih: "attr_loop f data lim (offset + 4 + pad4 n) s' =
        Inr (fold_until (\<lambda>(ty, v). f ty v) (attributes (drop (4 + pad4 n) r)) s')" for s'
      using less [OF lt] by (simp add: dr)
    show ?thesis using False na at ih by (subst attr_loop.simps) (simp add: r_def [symmetric] split: sum.split)
  qed
qed

text \<open>The padding is the one the code computes with \<open>&^\<close> on 64-bit integers.\<close>

lemma and_not_3: "(w :: 64 word) AND NOT 3 = push_bit 2 (drop_bit 2 w)"
proof -
  have "w AND NOT (mask 2) = push_bit 2 (drop_bit 2 w)"
    by (rule bit_word_eqI) (auto simp: bit_and_iff bit_not_iff bit_mask_iff bit_push_bit_iff bit_drop_bit_eq simp del: add_2_eq_Suc add_2_eq_Suc')
  moreover have m: "(mask 2 :: 64 word) = 3" by (simp add: mask_eq_exp_minus_1)
  ultimately show ?thesis by (simp only: m)
qed

lemma unat_plus_3: assumes "n < 2 ^ 63" shows "unat (of_nat n + 3 :: 64 word) = n + 3"
proof -
  have "n + 3 < 2 ^ 64" using assms by simp
  then have "unat (of_nat (n + 3) :: 64 word) = n + 3" by (simp add: unat_of_nat take_bit_nat_eq_self del: of_nat_add)
  then show ?thesis by simp
qed

lemma unat_shift_2: "unat (push_bit 2 (drop_bit 2 (w :: 64 word))) = unat w div 4 * 4"
proof -
  have "unat w < 2 ^ 64" using unsigned_less [of w, where 'a = nat] by simp
  then have "push_bit 2 (drop_bit 2 (unat w)) < 2 ^ 64"
     by (simp add: drop_bit_eq_div push_bit_eq_mult less_mult_imp_div_less)
  then show ?thesis by (simp only: unsigned_push_bit_eq unsigned_drop_bit_eq) 
    (simp add: take_bit_nat_eq_self drop_bit_eq_div push_bit_eq_mult)
qed

lemma pad4_word: "n < 2 ^ 63 \<Longrightarrow> unat ((of_nat n + 3 :: 64 word) AND NOT 3) = pad4 n"
  by (simp only: and_not_3 unat_plus_3 unat_shift_2 pad4_def)

lemma attributes_Cons:
  assumes "length v < 2 ^ 16" "length z = pad4 (length v) - length v"
  shows "attributes (put_u16 ty @ put_u16 (of_nat (length v)) @ v @ z @ rest) = (ty, v) # attributes rest"
proof -
  have n: "unat (of_nat (length v) :: u16) = length v" using assms(1) by (simp add: unat_of_nat take_bit_eq_mod)
  have p: "length v \<le> pad4 (length v)" by (simp add: pad4_def)
  show ?thesis
    using assms(2) p by (subst attributes.simps) (simp_all add: gslice_append1 gslice_append2 gslice_full n Let_def)
qed

lemmas attributes_last = attributes_Cons [where rest = "[]", simplified]

lemma cookie_port_cancel: "(w XOR cookie_port) XOR cookie_port = w"
  by (simp add: xor.assoc)

lemma xor_peer_attribute:
  assumes "length ipv4 = 4"
  shows "attributes (xor_peer_address ipv4 port @ rest) =
    (attrXorPeerAddress, [0, 1] @ put_u16 (of_int port XOR cookie_port) @ put_u32 (be_dec ipv4 XOR stunMagicCookie)) # attributes rest"
  using attributes_Cons [where v = "[0, 1] @ put_u16 (of_int port XOR cookie_port) @ put_u32 (be_dec ipv4 XOR stunMagicCookie)"
      and z = "[]" and ty = attrXorPeerAddress and rest = rest]
  by (simp add: xor_peer_address_def pad4_def)

lemma xor_peer_value:
  assumes "length ipv4 = 4" "v = [0, 1] @ put_u16 (of_int port XOR cookie_port) @ put_u32 (be_dec ipv4 XOR stunMagicCookie)"
  shows "length v = 8" "v ! 1 = 1" "xor_ipv4 v = ipv4" "xor_port v = unat (of_int port :: u16)"
  using assms
  by (simp_all add: xor_ipv4_def xor_port_def gslice_append1 gslice_append2 gslice_full gslice_Cons cookie_port_cancel
      xor.assoc put_be_dec)

lemma fold_until_first:
  assumes "\<And>x. f x () = (case P x of Some r \<Rightarrow> Inl r | None \<Rightarrow> Inr ())"
  shows "fold_until f xs () = (case List.map_filter P xs of r # _ \<Rightarrow> Inl r | [] \<Rightarrow> Inr ())"
  by (induction xs) (simp_all add: assms List.map_filter_simps split: option.split)

lemma fold_until_indication:
  "\<exists>ip port. fold_until (\<lambda>(ty, v). indication_attr ty v) as (ip0, port0, pay) =
    Inr (ip, port, last (pay # map snd (filter (\<lambda>(ty, v). ty = attrData) as)))"
proof (induction as arbitrary: ip0 port0 pay)
  case Nil
  then show ?case by simp
next
  case (Cons a as)
  obtain ty v where a: "a = (ty, v)" by force
  have d: "attrData \<noteq> attrXorPeerAddress" by (simp add: attrData_def attrXorPeerAddress_def)
  have "\<exists>ip1 port1. indication_attr ty v (ip0, port0, pay) = Inr (ip1, port1, if ty = attrData then v else pay)"
    using d by (auto simp: indication_attr_def)
  then obtain ip1 port1 where "indication_attr ty v (ip0, port0, pay) = Inr (ip1, port1, if ty = attrData then v else pay)"
    by blast
  with Cons.IH [of ip1 port1 "if ty = attrData then v else pay"] a show ?case by (cases "ty = attrData") simp_all
qed

definition first_or_error :: "string \<Rightarrow> (ip \<times> nat) list \<Rightarrow> (ip \<times> nat) result" where
  "first_or_error msg rs = (case rs of r # _ \<Rightarrow> Inr r | [] \<Rightarrow> Inl (ErrNew msg))"

lemma check_response_length: "check_response nm k ty data t = Inr len \<Longrightarrow> 20 + len \<le> length data"
  by (auto simp: check_response_def Let_def split: if_splits)

lemma check_response_no_panic: "check_response nm k ty data t = Inl e \<Longrightarrow> \<not> is_panic (Inl e)"
  by (auto simp: check_response_def Let_def split: if_splits)


subsection \<open>What is relayed\<close>

text \<open>
  The relay answers a Send Indication with a Data Indication of the same attributes towards the
  other side (RFC 5766, section 10.3): only the message type differs when both ends use the address
  the attribute names.
\<close>

definition as_data_indication :: "bytes \<Rightarrow> bytes" where
  "as_data_indication pkt = put_u16 0x0017 @ drop 2 pkt"

lemma send_indication_body:
  assumes "length payload < 2 ^ 16" "length ipv4 = 4"
  shows "attributes (xor_peer_address ipv4 port @ put_u16 attrData @ put_u16 (of_nat (length payload)) @ payload @
      replicate (pad4 (length payload) - length payload) 0) =
    [(attrXorPeerAddress, [0, 1] @ put_u16 (of_int port XOR cookie_port) @ put_u32 (be_dec ipv4 XOR stunMagicCookie)),
     (attrData, payload)]"
  using attributes_last [of payload "replicate (pad4 (length payload) - length payload) 0" attrData] assms(1)
  by (simp add: xor_peer_attribute assms(2) attributes_short)

lemma data_indication_of_attributes:
  assumes "length txID = 12" "length body < 2 ^ 16"
  shows "ParseTURNDataIndication (stun_header 0x0017 (of_nat (length body)) txID @ body @ rest) =
    (case fold_until (\<lambda>(ty, v). indication_attr ty v) (attributes body) ([], 0, []) of Inl e \<Rightarrow> Inl (ErrNew ''unreachable'')
     | Inr (ip, port, pay) \<Rightarrow>
         if pay = [] then Inl (ErrNew ''no DATA attribute in indication'') else Inr (ip, port, pay))"
proof -
  let ?d = "stun_header 0x0017 (of_nat (length body)) txID @ body @ rest"
  have len: "unat (of_nat (length body) :: u16) = length body" using assms(2) by (simp add: unat_of_nat take_bit_eq_mod)
  have g: "gslice 0 2 ?d = put_u16 0x0017" "gslice 2 4 ?d = put_u16 (of_nat (length body))"
    "gslice 4 8 ?d = put_u32 stunMagicCookie" "gslice 20 (20 + length body) ?d = body"
    using assms(1) by (simp_all add: stun_header_def gslice_append1 gslice_append2 gslice_full)
  have l: "length ?d = 20 + length body + length rest" using assms(1) by (simp add: stun_header_def)
  show ?thesis
    unfolding ParseTURNDataIndication_def Let_def g len be_dec_put
    by (simp only: attr_loop_attributes l g) (simp split: sum.split)
qed

text \<open>
  What is relayed arrives. A Send Indication for an IPv4 peer with a payload of at most 65516
  bytes is read back, as the Data Indication with the same attributes, as that peer's address, its
  port modulo 65536 and that payload, whatever follows in the datagram.
\<close>

lemma send_indication_roundtrip:
  assumes "To4 ip = Some ipv4" "length txID = 12" "payload \<noteq> []" "length payload \<le> 65516"
  shows "\<exists>pkt. BuildTURNSendIndication txID ip port payload = Inr pkt \<and>
    ParseTURNDataIndication (as_data_indication pkt @ rest) = Inr (ipv4, unat (of_int port :: u16), payload)"
proof -
  define body where "body = xor_peer_address ipv4 port @ put_u16 attrData @ put_u16 (of_nat (length payload)) @ payload @
      replicate (pad4 (length payload) - length payload) 0"
  let ?v = "[0, 1] @ put_u16 (of_int port XOR cookie_port) @ put_u32 (be_dec ipv4 XOR stunMagicCookie)"
  have i: "length ipv4 = 4" using assms(1) by (auto simp: To4_def split: if_splits)
  have p: "length payload \<le> pad4 (length payload)" "pad4 (length payload) \<le> 65516" "length payload < 2 ^ 16"
    using assms(4) by (simp_all add: pad4_def)
  have lb: "length body = 16 + pad4 (length payload)" using p(1) by (simp add: body_def xor_peer_address_def)
  have lt: "length body < 2 ^ 16" using p(2) unfolding lb by simp
  have b: "BuildTURNSendIndication txID ip port payload = Inr (stun_header 0x0016 (of_nat (length body)) txID @ body)"
    by (simp add: BuildTURNSendIndication_def assms(1) Let_def lb) (simp add: body_def)
  have d: "attrData \<noteq> attrXorPeerAddress" by (simp add: attrData_def attrXorPeerAddress_def)
  have "fold_until (\<lambda>(ty, v). indication_attr ty v) (attributes body) ([], 0, []) = Inr (xor_ipv4 ?v, xor_port ?v, payload)"
    unfolding body_def send_indication_body [OF p(3) i] using d xor_peer_value(1,2) [OF i refl, of port]
    by (simp add: indication_attr_def)
  moreover have "as_data_indication (stun_header 0x0016 (of_nat (length body)) txID @ body) @ rest =
      stun_header 0x0017 (of_nat (length body)) txID @ body @ rest"
    by (simp add: as_data_indication_def stun_header_def)
  ultimately show ?thesis
    using b data_indication_of_attributes [OF assms(2) lt, of rest] xor_peer_value(3,4) [OF i refl, of port] assms(3)
    by simp
qed

text \<open>
  From 65517 bytes on the message length of the Send Indication wraps: the packet is built without an
  error and its DATA attribute lies outside the announced length.
\<close>

lemma long_send_indication_is_cut:
  assumes "To4 ip = Some ipv4" "length txID = 12" "65517 \<le> length payload" "length payload \<le> 65520"
  shows "\<exists>pkt. BuildTURNSendIndication txID ip port payload = Inr pkt \<and>
    ParseTURNDataIndication (as_data_indication pkt) = Inl (ErrNew ''no DATA attribute in indication'')"
proof -
  have p: "pad4 (length payload) = 65520" using assms(3,4) by (simp add: pad4_def)
  have w: "(of_nat (12 + 4 + 65520) :: u16) = 0" by simp
  have "ParseTURNDataIndication (stun_header 0x0017 0 txID @ rest) = Inl (ErrNew ''no DATA attribute in indication'')" for rest
    using data_indication_of_attributes [OF assms(2), of "[]" rest] by (simp add: attributes_short)
  moreover have "as_data_indication (stun_header 0x0016 0 txID @ rest) = stun_header 0x0017 0 txID @ rest" for rest
    by (simp add: as_data_indication_def stun_header_def)
  ultimately show ?thesis unfolding BuildTURNSendIndication_def assms(1) Let_def p w by simp
qed

subsection \<open>DialUTPWithTimeoutAndRelay\<close>

text \<open>
  The direct dial: start, whatever the other goroutines do to the endpoint meanwhile, wait. It blocks
  (\<open>None\<close>) only as \<open>dial_wait\<close> does.
\<close>

definition dialUTPWithTimeout ::
  "u16 \<Rightarrow> error option \<Rightarrow> (endpoint \<Rightarrow> endpoint) \<Rightarrow> dial_choice \<Rightarrow> net_addr \<Rightarrow> endpoint \<Rightarrow>
     (endpoint \<times> nat result) option" where
  "dialUTPWithTimeout s write_err meanwhile ch addr ep =
     (case dial_start s addr write_err ep of (ep1, Inl e) \<Rightarrow> Some (ep1, Inl e)
      | (ep1, Inr (i, _)) \<Rightarrow> dial_wait ch i (meanwhile ep1))"

text \<open>
  What the relay path meets: name resolution, the random source, the two sends, the messages taken
  from \<open>stunChan\<close> before the deadline in each of the two waits, and the bytes of an address's IP.
\<close>

record relay_env =
  rl_resolve :: "string \<Rightarrow> net_addr result"
  rl_rand1 :: "bytes result"
  rl_rand2 :: "bytes result"
  rl_write1 :: "error option"
  rl_write2 :: "error option"
  rl_stun1 :: "bytes list"
  rl_stun2 :: "bytes list"
  rl_ip :: "string \<Rightarrow> ip"

definition allocate_wait :: "bytes \<Rightarrow> bytes list \<Rightarrow> bool" where
  "allocate_wait txID resps \<longleftrightarrow> list_ex (\<lambda>resp. \<not> isl (ParseTURNAllocateResponse resp txID)) resps"

definition permission_response :: "bytes \<Rightarrow> bytes \<Rightarrow> bool" where
  "permission_response permTxID resp \<longleftrightarrow>
     20 \<le> length resp \<and> be_dec (gslice 0 2 resp) = (0x0108 :: u16) \<and> gslice 8 20 resp = permTxID"

definition request_permission :: "relay_env \<Rightarrow> net_addr \<Rightarrow> (bytes list \<times> nat result)" where
  "request_permission R addr =
     (case addr of
        OtherAddr _ \<Rightarrow> ([], Inl (Panic ''interface conversion''))
      | UDPAddr ipstr port \<Rightarrow>
          (case BuildTURNCreatePermissionRequest (rl_rand2 R) (rl_ip R ipstr) (int port) of
             Inl e \<Rightarrow> ([], Inl e)
           | Inr (permReq, permTxID) \<Rightarrow>
               (case rl_write2 R of Some e \<Rightarrow> ([], Inl e)
                | None \<Rightarrow>
                    ([permReq],
                     if list_ex (permission_response permTxID) (rl_stun2 R)
                     then Inl (ErrNew ''uTP connection handshake timed out over relay'')
                     else Inl (ErrNew ''TURN CreatePermission timed out'')))))"

definition relay_path :: "relay_env \<Rightarrow> net_addr \<Rightarrow> error \<Rightarrow> string \<Rightarrow> bytes list \<times> nat result" where
  "relay_path R addr err relay =
     (if relay = [] then ([], Inl err)
      else case rl_resolve R relay of Inl e \<Rightarrow> ([], Inl e)
        | Inr relayAddr \<Rightarrow>
            (case BuildTURNAllocateRequest (rl_rand1 R) of Inl e \<Rightarrow> ([], Inl e)
             | Inr (req, txID) \<Rightarrow>
                 (case rl_write1 R of Some e \<Rightarrow> ([], Inl e)
                  | None \<Rightarrow>
                      if \<not> allocate_wait txID (rl_stun1 R) then ([req], Inl (ErrNew ''TURN allocation timed out''))
                      else (let (sent, res) = request_permission R addr in (req # sent, res)))))"

definition DialUTPWithTimeoutAndRelay ::
  "relay_env \<Rightarrow> u16 \<Rightarrow> error option \<Rightarrow> (endpoint \<Rightarrow> endpoint) \<Rightarrow> dial_choice \<Rightarrow> net_addr \<Rightarrow> endpoint \<Rightarrow>
     (endpoint \<times> bytes list \<times> nat result) option" where
  "DialUTPWithTimeoutAndRelay R s write_err meanwhile ch addr ep =
     (case dialUTPWithTimeout s write_err meanwhile ch addr ep of None \<Rightarrow> None
      | Some (ep1, Inr c) \<Rightarrow> Some (ep1, [], Inr c)
      | Some (ep1, Inl err) \<Rightarrow> Some (ep1, relay_path R addr err (mx_relayServer (ep_mux ep1))))"

lemma relay_path_fails: "\<exists>sent e. relay_path R addr err relay = (sent, Inl e)"
proof -
  have "\<exists>sent e. request_permission R addr = (sent, Inl e)"
    by (auto simp: request_permission_def split: net_addr.split sum.split option.split)
  then show ?thesis
    by (auto simp: relay_path_def Let_def split: sum.split option.split)
qed

text \<open>
  C33. The relay is never used. A dial with relay fallback returns a connection exactly when the
  direct dial returns it, with no relay message sent; otherwise it returns an error whatever the relay
  answers, also after the relay has allocated an address and granted the permission.
\<close>

theorem relay_never_connects:
  "DialUTPWithTimeoutAndRelay R s write_err meanwhile ch addr ep = Some (ep1, sent, Inr c) \<longleftrightarrow>
    sent = [] \<and> dialUTPWithTimeout s write_err meanwhile ch addr ep = Some (ep1, Inr c)"
  using relay_path_fails [of R addr]
  by (auto simp: DialUTPWithTimeoutAndRelay_def split: option.split sum.split) (metis Inl_Inr_False prod.inject)+

end
