(* ===== verification/Utp_Control.thy ===== *)
theory Utp_Control
  imports Utp_Packet
begin

section \<open>Retransmission queue, timeout and congestion window (pkg/utp/reliability.go, ledbat.go)\<close>

text \<open>
  A \<open>time.Duration\<close> and an \<open>int\<close> are signed 64-bit integers, here 64-bit words compared by their
  signed value. The results of the floating-point expressions, converted back to integers, are
  parameters: the bounds below hold for any value they may take.
\<close>

type_synonym i64 = "64 word"

definition sless :: "i64 \<Rightarrow> i64 \<Rightarrow> bool" where "sless a b \<longleftrightarrow> sint a < sint b"

definition millisecond :: i64 where "millisecond = 1000000"

subsection \<open>Sequence numbers\<close>

text \<open>\<open>int16(s1-s2) <= 0\<close>: the difference wraps and is read as a signed 16-bit integer.\<close>

definition seqLessOrEqual :: "u16 \<Rightarrow> u16 \<Rightarrow> bool" where
  "seqLessOrEqual s1 s2 \<longleftrightarrow> sint (s1 - s2) \<le> 0"

subsection \<open>RetransmitQueue\<close>

record retransmit_queue =
  rq_packets :: "utp_packet list"
  rq_dupAckCount :: "u16 \<Rightarrow> i64 option"

definition NewRetransmitQueue :: retransmit_queue where
  "NewRetransmitQueue = \<lparr>rq_packets = [], rq_dupAckCount = (\<lambda>_. None)\<rparr>"

definition queue_Add :: "utp_packet \<Rightarrow> retransmit_queue \<Rightarrow> retransmit_queue" where
  "queue_Add p q = q\<lparr>rq_packets := rq_packets q @ [p]\<rparr>"

definition queue_Len :: "retransmit_queue \<Rightarrow> nat" where
  "queue_Len q = length (rq_packets q)"

definition packet_acked :: "u16 \<Rightarrow> utp_packet \<Rightarrow> bool" where
  "packet_acked ackNum p \<longleftrightarrow> seqLessOrEqual (h_seq_num (p_header p)) ackNum"

definition queue_Ack :: "u16 \<Rightarrow> retransmit_queue \<Rightarrow> retransmit_queue \<times> utp_packet list" where
  "queue_Ack ackNum q =
     (q\<lparr>rq_packets := filter (\<lambda>p. \<not> packet_acked ackNum p) (rq_packets q),
        rq_dupAckCount := (\<lambda>s. if seqLessOrEqual s ackNum then None else rq_dupAckCount q s)\<rparr>,
      filter (packet_acked ackNum) (rq_packets q))"

definition HandleDupAck :: "u16 \<Rightarrow> retransmit_queue \<Rightarrow> retransmit_queue \<times> bool" where
  "HandleDupAck ackNum q =
     (let n = (case rq_dupAckCount q ackNum of None \<Rightarrow> 0 | Some n \<Rightarrow> n) + 1
      in (q\<lparr>rq_dupAckCount := (rq_dupAckCount q)(ackNum \<mapsto> n)\<rparr>, n = 3))"

subsection \<open>RTOCalculator\<close>

record rto_calculator =
  rto_srtt :: i64
  rto_rttvar :: i64
  rto_rto :: i64
  rto_initialized :: bool

definition NewRTOCalculator :: rto_calculator where
  "NewRTOCalculator = \<lparr>rto_srtt = 0, rto_rttvar = 0, rto_rto = 500 * millisecond, rto_initialized = False\<rparr>"

text \<open>
  \<open>smooth_var v d\<close> is \<open>time.Duration(0.75*float64(v) + 0.25*float64(d))\<close>, and \<open>smooth_rtt\<close> the
  average of the round trip. Integer division by two truncates towards zero.
\<close>

definition RTO_Update ::
  "(i64 \<Rightarrow> i64 \<Rightarrow> i64) \<Rightarrow> (i64 \<Rightarrow> i64 \<Rightarrow> i64) \<Rightarrow> i64 \<Rightarrow> rto_calculator \<Rightarrow> rto_calculator" where
  "RTO_Update smooth_var smooth_rtt rtt c =
     (let c1 = (if \<not> rto_initialized c
                then c\<lparr>rto_srtt := rtt, rto_rttvar := word_of_int (sint rtt div 2 + (if sint rtt < 0 \<and> odd (sint rtt) then 1 else 0)),
                       rto_initialized := True\<rparr>
                else let diff = rto_srtt c - rtt; diff = (if sless diff 0 then - diff else diff)
                     in c\<lparr>rto_rttvar := smooth_var (rto_rttvar c) diff, rto_srtt := smooth_rtt (rto_srtt c) rtt\<rparr>);
          rto = rto_srtt c1 + 4 * rto_rttvar c1;
          rto = (if sless rto (200 * millisecond) then 200 * millisecond else rto);
          rto = (if sless (60000 * millisecond) rto then 60000 * millisecond else rto)
      in c1\<lparr>rto_rto := rto\<rparr>)"

definition GetRTO :: "rto_calculator \<Rightarrow> i64" where "GetRTO c = rto_rto c"

subsection \<open>LEDBATController\<close>

definition TARGET :: i64 where "TARGET = 100 * millisecond"
definition MIN_CWND :: i64 where "MIN_CWND = 3000"
definition MAX_CWND :: i64 where "MAX_CWND = 1024 * 1024"

record ledbat =
  lb_mss :: i64
  lb_cwnd :: i64
  lb_baseDelay :: i64
  lb_lastDelay :: i64

definition NewLEDBATController :: "i64 \<Rightarrow> ledbat" where
  "NewLEDBATController mss = \<lparr>lb_mss = mss, lb_cwnd = 4 * mss, lb_baseDelay = 0, lb_lastDelay = 0\<rparr>"

definition GetCwnd :: "ledbat \<Rightarrow> i64" where "GetCwnd c = lb_cwnd c"

definition UpdateDelay :: "i64 \<Rightarrow> ledbat \<Rightarrow> ledbat" where
  "UpdateDelay d c =
     c\<lparr>lb_lastDelay := d, lb_baseDelay := (if lb_baseDelay c = 0 \<or> sless d (lb_baseDelay c) then d else lb_baseDelay c)\<rparr>"

text \<open>\<open>adjustment mss offTarget cwnd\<close> is the window change computed in floating point, as an \<open>int\<close>.\<close>

definition off_target :: "ledbat \<Rightarrow> i64" where
  "off_target c =
     (let queuingDelay = lb_lastDelay c - lb_baseDelay c;
          queuingDelay = (if sless queuingDelay 0 then 0 else queuingDelay)
      in TARGET - queuingDelay)"

definition OnACK :: "(i64 \<Rightarrow> i64 \<Rightarrow> i64 \<Rightarrow> i64) \<Rightarrow> ledbat \<Rightarrow> ledbat" where
  "OnACK adjustment c =
     (if lb_baseDelay c = 0 then c
      else let cwnd = lb_cwnd c + adjustment (lb_mss c) (off_target c) (lb_cwnd c);
               cwnd = (if sless cwnd MIN_CWND then MIN_CWND else cwnd);
               cwnd = (if sless MAX_CWND cwnd then MAX_CWND else cwnd)
           in c\<lparr>lb_cwnd := cwnd\<rparr>)"

subsection \<open>The queue is a sliding window\<close>

lemma seqLessOrEqual_iff:
  assumes "a < b + 2 ^ 15" "b \<le> a + 2 ^ 15"
  shows "seqLessOrEqual (of_nat a) (of_nat b) \<longleftrightarrow> a \<le> b"
proof -
  let ?d = "int a - int b"
  have d: "- (2 ^ 15) \<le> ?d" "?d < 2 ^ 15" using assms by auto
  have "(of_nat a - of_nat b :: u16) = word_of_int ?d" by simp
  then have "sint (of_nat a - of_nat b :: u16) = signed_take_bit 15 ?d"
    using signed_of_int [where 'b = 16 and 'a = int, of ?d] by (simp del: of_int_diff)
  also have "\<dots> = ?d" using d by (intro signed_take_bit_int_eq_self) auto
  finally show ?thesis by (simp add: seqLessOrEqual_def)
qed

text \<open>
  Runs of a sender that numbers its packets consecutively: \<open>lo\<close> is the number of the first packet not
  acknowledged and \<open>hi\<close> that of the next packet. At most \<open>2 ^ 15\<close> packets are in flight, and an
  acknowledgement, possibly an old one, names one of the last \<open>2 ^ 15\<close> packets.
\<close>

inductive queue_run :: "(nat \<Rightarrow> utp_packet) \<Rightarrow> nat \<Rightarrow> nat \<Rightarrow> retransmit_queue \<Rightarrow> utp_packet list \<Rightarrow> bool"
  for pk :: "nat \<Rightarrow> utp_packet" where
  start: "queue_run pk 0 0 NewRetransmitQueue []"
| send: "queue_run pk lo hi q out \<Longrightarrow> hi < lo + 2 ^ 15 \<Longrightarrow> queue_run pk lo (Suc hi) (queue_Add (pk hi) q) out"
| ack: "queue_run pk lo hi q out \<Longrightarrow> k < hi \<Longrightarrow> hi \<le> k + 2 ^ 15 \<Longrightarrow>
    queue_run pk (max lo (Suc k)) hi (fst (queue_Ack (of_nat k) q)) (out @ snd (queue_Ack (of_nat k) q))"
| dup_ack: "queue_run pk lo hi q out \<Longrightarrow> queue_run pk lo hi (fst (HandleDupAck s q)) out"

lemma filter_upt_le:
  "filter (\<lambda>a. a \<le> k) [lo..<hi] = [lo..<min hi (Suc k)]" "filter (\<lambda>a. \<not> a \<le> k) [lo..<hi] = [max lo (Suc k)..<hi]"
proof -
  show "filter (\<lambda>a. a \<le> k) [lo..<hi] = [lo..<min hi (Suc k)]" by (induction hi) (auto simp: min_def le_Suc_eq)
  show "filter (\<lambda>a. \<not> a \<le> k) [lo..<hi] = [max lo (Suc k)..<hi]" by (induction hi) (auto simp: max_def)
qed

lemma ack_window:
  assumes "\<And>n. h_seq_num (p_header (pk n)) = of_nat n" "rq_packets q = map pk [lo..<hi]"
    and "k < hi" "hi \<le> k + 2 ^ 15" "hi \<le> lo + 2 ^ 15"
  shows "snd (queue_Ack (of_nat k) q) = map pk [lo..<Suc k]"
    and "rq_packets (fst (queue_Ack (of_nat k) q)) = map pk [max lo (Suc k)..<hi]"
proof -
  have p: "packet_acked (of_nat k) (pk a) \<longleftrightarrow> a \<le> k" if "a \<in> set [lo..<hi]" for a
    using seqLessOrEqual_iff [of a k] that assms(3-5) by (simp add: packet_acked_def assms(1))
  have "filter (packet_acked (of_nat k)) (map pk [lo..<hi]) = map pk (filter (\<lambda>a. a \<le> k) [lo..<hi])"
    unfolding filter_map comp_def by (rule arg_cong [where f = "map pk"], rule filter_cong) (use p in simp_all)
  then show "snd (queue_Ack (of_nat k) q) = map pk [lo..<Suc k]"
    using assms(2,3) by (simp add: queue_Ack_def filter_upt_le min_absorb2 Suc_leI del: upt_Suc)
  have "filter (\<lambda>x. \<not> packet_acked (of_nat k) x) (map pk [lo..<hi]) = map pk (filter (\<lambda>a. \<not> a \<le> k) [lo..<hi])"
    unfolding filter_map comp_def by (rule arg_cong [where f = "map pk"], rule filter_cong) (use p in simp_all)
  then show "rq_packets (fst (queue_Ack (of_nat k) q)) = map pk [max lo (Suc k)..<hi]"
    using assms(2) by (simp add: queue_Ack_def filter_upt_le)
qed

text \<open>
  The retransmission queue is a sliding window. Over any run of sends, acknowledgements and
  duplicate acknowledgements in which at most half of the 16-bit number space is in flight, the
  packets returned as acknowledged are, in order and each once, those before the window, and the
  queue holds exactly those in the window, however often the numbers have wrapped.
\<close>

lemma retransmit_queue_window:
  assumes "queue_run pk lo hi q out" "\<And>n. h_seq_num (p_header (pk n)) = of_nat n"
  shows "out = map pk [0..<lo] \<and> rq_packets q = map pk [lo..<hi] \<and> queue_Len q = hi - lo \<and> lo \<le> hi \<and> hi \<le> lo + 2 ^ 15"
  using assms(1)
proof induction
  case start
  then show ?case by (simp add: NewRetransmitQueue_def queue_Len_def)
next
  case (send lo hi q out)
  then show ?case by (auto simp: queue_Add_def queue_Len_def)
next
  case (ack lo hi q out k)
  have w: "snd (queue_Ack (of_nat k) q) = map pk [lo..<Suc k]"
    "rq_packets (fst (queue_Ack (of_nat k) q)) = map pk [max lo (Suc k)..<hi]"
    using ack_window [OF assms(2)] ack by blast+
  have "[0..<lo] @ [lo..<Suc k] = [0..<max lo (Suc k)]"
  proof (cases "lo \<le> Suc k")
    case True
    then show ?thesis using upt_add_eq_append [of 0 lo "Suc k - lo"] by (simp add: max_def del: upt_Suc)
  qed (simp add: max_def)
  then have "out @ snd (queue_Ack (of_nat k) q) = map pk [0..<max lo (Suc k)]"
    using ack.IH w(1) by (simp flip: map_append del: upt_Suc)
  with ack w(2) show ?case by (auto simp: queue_Len_def max_def)
next
  case (dup_ack lo hi q out s)
  then show ?case by (simp add: HandleDupAck_def queue_Len_def Let_def)
qed

definition numbered_packet :: "nat \<Rightarrow> utp_packet" where
  "numbered_packet n = \<lparr>p_header = zero_header\<lparr>h_seq_num := of_nat n\<rparr>, p_payload = []\<rparr>"

text \<open>Fast retransmit is triggered by the third duplicate of an acknowledgement and by no other.\<close>

lemma dup_ack_count:
  assumes "rq_dupAckCount q s = None" "n < 2 ^ 64"
  shows "rq_dupAckCount (((\<lambda>q. fst (HandleDupAck s q)) ^^ n) q) s = (if n = 0 then None else Some (of_nat n))"
  using assms(1) by (induction n) (auto simp: HandleDupAck_def Let_def)

lemma fast_retransmit_once:
  assumes "rq_dupAckCount q s = None" "n < 2 ^ 63"
  shows "snd (HandleDupAck s (((\<lambda>q. fst (HandleDupAck s q)) ^^ n) q)) \<longleftrightarrow> n = 2"
proof -
  have "n < 2 ^ 64" using assms(2) by simp
  have "(of_nat n + 1 :: i64) = of_nat (Suc n)" by simp
  moreover have "(of_nat (Suc n) :: i64) = 3 \<longleftrightarrow> Suc n = 3"
    using assms(2) word_of_nat_eq_iff [where 'a = 64, of "Suc n" 3] by (simp add: take_bit_nat_eq_self del: of_nat_Suc)
  ultimately show ?thesis using dup_ack_count [OF assms(1) \<open>n < 2 ^ 64\<close>]
    by (auto simp: HandleDupAck_def Let_def)
qed

subsection \<open>Bounds of the timeout and the window\<close>

text \<open>What drives the two controllers: a measured delay or round trip, and an acknowledgement.\<close>

datatype control_event = DelayMeasured i64 | PacketAcked

fun control_step :: "(i64 \<Rightarrow> i64 \<Rightarrow> i64 \<Rightarrow> i64) \<Rightarrow> control_event \<Rightarrow> ledbat \<Rightarrow> ledbat" where
  "control_step adj (DelayMeasured d) c = UpdateDelay d c"
| "control_step adj PacketAcked c = OnACK adj c"

definition delays :: "control_event list \<Rightarrow> i64 list" where
  "delays evs = concat (map (\<lambda>ev. case ev of DelayMeasured d \<Rightarrow> [d] | PacketAcked \<Rightarrow> []) evs)"

lemma delays_simps [simp]:
  "delays [] = []" "delays (evs @ [DelayMeasured d]) = delays evs @ [d]" "delays (evs @ [PacketAcked]) = delays evs"
  by (simp_all add: delays_def)

lemma OnACK_simps [simp]:
  "lb_baseDelay (OnACK adj c) = lb_baseDelay c" "lb_lastDelay (OnACK adj c) = lb_lastDelay c" "lb_mss (OnACK adj c) = lb_mss c"
  by (simp_all add: OnACK_def Let_def)

lemma const_sint:
  "sint MIN_CWND = 3000" "sint MAX_CWND = 1048576" "sint TARGET = 100000000"
  "sint (200 * millisecond) = 200000000" "sint (60000 * millisecond) = 60000000000" "sint (500 * millisecond) = 500000000"
  by (simp_all add: MIN_CWND_def MAX_CWND_def TARGET_def millisecond_def)

lemma OnACK_cwnd:
  assumes "lb_baseDelay c \<noteq> 0"
  shows "sint MIN_CWND \<le> sint (lb_cwnd (OnACK adj c)) \<and> sint (lb_cwnd (OnACK adj c)) \<le> sint MAX_CWND"
  using assms by (auto simp: OnACK_def Let_def sless_def const_sint)

text \<open>The base delay is the least of the delays measured, all of them positive.\<close>

definition delay_state :: "i64 list \<Rightarrow> ledbat \<Rightarrow> bool" where
  "delay_state ds c \<longleftrightarrow>
     (if ds = [] then lb_baseDelay c = 0 \<and> lb_lastDelay c = 0
      else lb_lastDelay c = last ds \<and> lb_baseDelay c \<in> set ds \<and> (\<forall>d\<in>set ds. sint (lb_baseDelay c) \<le> sint d))"

lemma delay_state_step:
  assumes "delay_state ds c" "\<forall>d\<in>set (ds @ [d]). 0 < sint d"
  shows "delay_state (ds @ [d]) (UpdateDelay d c)"
proof (cases "ds = []")
  case True
  then show ?thesis using assms by (simp add: delay_state_def UpdateDelay_def)
next
  case False
  then have "lb_baseDelay c \<in> set ds" "\<forall>x\<in>set ds. sint (lb_baseDelay c) \<le> sint x"
    using assms(1) by (simp_all add: delay_state_def)
  moreover have "lb_baseDelay c \<noteq> 0" using calculation(1) assms(2) by force
  ultimately show ?thesis
    by (auto simp: delay_state_def UpdateDelay_def sless_def)
qed

lemma delay_run:
  "\<forall>d\<in>set (delays evs). 0 < sint d \<Longrightarrow>
     delay_state (delays evs) (fold (control_step adj) evs (NewLEDBATController mss))"
proof (induction evs rule: rev_induct)
  case Nil
  then show ?case by (simp add: delay_state_def NewLEDBATController_def)
next
  case (snoc ev evs)
  let ?c = "fold (control_step adj) evs (NewLEDBATController mss)"
  show ?case
  proof (cases ev)
    case (DelayMeasured d)
    then show ?thesis using snoc delay_state_step [of "delays evs" ?c d] by simp
  next
    case PacketAcked
    then show ?thesis using snoc by (simp add: delay_state_def)
  qed
qed

lemma sint_minus_exact:
  assumes "- (2 ^ 63) \<le> sint a - sint b" "sint a - sint b < 2 ^ 63"
  shows "sint (a - b :: i64) = sint a - sint b"
proof -
  have "a - b = word_of_int (sint a - sint b)" by simp
  then have "sint (a - b) = signed_take_bit 63 (sint a - sint b)"
    using signed_of_int [where 'b = 64 and 'a = int, of "sint a - sint b"] by (simp del: of_int_diff)
  also have "\<dots> = sint a - sint b" using assms by (intro signed_take_bit_int_eq_self)
  finally show ?thesis .
qed

lemma off_target_exact:
  assumes "delay_state ds c" "ds \<noteq> []" "\<forall>d\<in>set ds. 0 < sint d"
  shows "sint (off_target c) = 100000000 - (sint (last ds) - sint (lb_baseDelay c))"
proof -
  let ?l = "last ds" and ?b = "lb_baseDelay c"
  have lb: "lb_lastDelay c = ?l" "sint ?b \<le> sint ?l" "0 < sint ?b" "sint ?l < 2 ^ 63"
    using assms sint_lt [of ?l] by (auto simp: delay_state_def)
  have q: "sint (?l - ?b) = sint ?l - sint ?b" using lb by (intro sint_minus_exact) auto
  have "sint (TARGET - (?l - ?b)) = 100000000 - (sint ?l - sint ?b)"
    using sint_minus_exact [of TARGET "?l - ?b"] lb unfolding q const_sint by auto
  then show ?thesis using lb(1,2) q by (simp add: off_target_def sless_def Let_def)
qed



end
