(* ===== verification/Utp_Ice.thy ===== *)
theory Utp_Ice
  imports Utp_Turn
begin

section \<open>ICE candidates and the lossy test connection (pkg/utp/ice.go, simulator.go)\<close>

subsection \<open>ICESession\<close>

datatype candidate_type = CandidateHost | CandidateSrflx | CandidateRelay

record ice_candidate =
  ca_Addr :: string
  ca_Type :: "candidate_type option"
  ca_Priority :: u32

record ice_session =
  ice_local :: "ice_candidate list"
  ice_remote :: "ice_candidate list"
  ice_nominatedLocal :: string
  ice_nominatedRemote :: string
  ice_nominated :: bool

definition NewICESession :: ice_session where
  "NewICESession = \<lparr>ice_local = [], ice_remote = [], ice_nominatedLocal = [], ice_nominatedRemote = [], ice_nominated = False\<rparr>"

definition AddLocalCandidate :: "ice_candidate \<Rightarrow> ice_session \<Rightarrow> ice_session" where
  "AddLocalCandidate c s = s\<lparr>ice_local := ice_local s @ [c]\<rparr>"

definition AddRemoteCandidate :: "ice_candidate \<Rightarrow> ice_session \<Rightarrow> ice_session" where
  "AddRemoteCandidate c s = s\<lparr>ice_remote := ice_remote s @ [c]\<rparr>"

text \<open>The zero value of a candidate, which the search starts from.\<close>

definition zero_candidate :: ice_candidate where
  "zero_candidate = \<lparr>ca_Addr = [], ca_Type = None, ca_Priority = 0\<rparr>"

definition GetBestLocalCandidate :: "ice_session \<Rightarrow> ice_candidate" where
  "GetBestLocalCandidate s =
     foldl (\<lambda>best c. if ca_Priority best < ca_Priority c then c else best) zero_candidate (ice_local s)"

text \<open>The channel is closed once, by the first confirmation; a later one replaces the pair.\<close>

definition ConfirmCheck :: "string \<Rightarrow> string \<Rightarrow> ice_session \<Rightarrow> ice_session" where
  "ConfirmCheck l r s = s\<lparr>ice_nominatedLocal := l, ice_nominatedRemote := r, ice_nominated := True\<rparr>"

datatype nomination_choice = Nominated | NominationTimeout

definition WaitForNomination :: "nomination_choice \<Rightarrow> ice_session \<Rightarrow> error option option" where
  "WaitForNomination ch s =
     (case ch of Nominated \<Rightarrow> if ice_nominated s then Some None else None
      | NominationTimeout \<Rightarrow> Some (Some (ErrNew ''ICE nomination timed out'')))"

definition GetNominatedPair :: "ice_session \<Rightarrow> string \<times> string" where
  "GetNominatedPair s = (ice_nominatedLocal s, ice_nominatedRemote s)"

text \<open>
  The interface addresses as the library returns them: the IP of an \<open>*net.IPNet\<close> with its loopback
  flag, or another type. \<open>ip_text\<close> prints an IP.
\<close>

datatype if_addr = IPNet ip bool | OtherIf

definition host_candidates :: "(ip \<Rightarrow> string) \<Rightarrow> if_addr list \<Rightarrow> ice_candidate list" where
  "host_candidates ip_text addrs =
     List.map_filter (\<lambda>a. case a of
         IPNet ip loopback \<Rightarrow>
           (if loopback then None
            else map_option (\<lambda>ipv4. \<lparr>ca_Addr = JoinHostPort (ip_text ipv4) ''0'', ca_Type = Some CandidateHost, ca_Priority = 1000\<rparr>) (To4 ip))
       | OtherIf \<Rightarrow> None) addrs"

definition loopback_candidate :: ice_candidate where
  "loopback_candidate = \<lparr>ca_Addr = ''127.0.0.1:0'', ca_Type = Some CandidateHost, ca_Priority = 100\<rparr>"

definition gather_hosts :: "(ip \<Rightarrow> string) \<Rightarrow> if_addr list option \<Rightarrow> ice_session \<Rightarrow> ice_session" where
  "gather_hosts ip_text addrs s =
     AddLocalCandidate loopback_candidate
       (foldl (\<lambda>s c. AddLocalCandidate c s) s (case addrs of None \<Rightarrow> [] | Some as \<Rightarrow> host_candidates ip_text as))"

text \<open>The answer of the STUN server to the binding request with this transaction ID, when it arrives.\<close>

definition stun_answer :: "(ip \<Rightarrow> string) \<Rightarrow> bytes \<Rightarrow> bytes \<Rightarrow> ice_session \<Rightarrow> ice_session" where
  "stun_answer ip_text txID datagram s =
     (case ParseSTUNBindingResponse (take 1024 datagram) txID of
        Inl _ \<Rightarrow> s
      | Inr (a, port) \<Rightarrow>
          AddLocalCandidate \<lparr>ca_Addr = JoinHostPort (ip_text a) (itoa port), ca_Type = Some CandidateSrflx, ca_Priority = 500\<rparr> s)"

text \<open>
  The goroutine that asks the server: dial, build the request under the transaction ID, write it, read
  one datagram. Every failure ends it silently.
\<close>

record stun_query =
  sq_dial_err :: "error option"
  sq_rand :: "bytes result"
  sq_write_err :: "error option"
  sq_read :: "bytes \<Rightarrow> bytes result"

definition query_stun :: "(ip \<Rightarrow> string) \<Rightarrow> stun_query \<Rightarrow> ice_session \<Rightarrow> ice_session" where
  "query_stun ip_text q s =
     (if sq_dial_err q \<noteq> None then s
      else case BuildSTUNBindingRequest (sq_rand q) of Inl _ \<Rightarrow> s
        | Inr (req, txID) \<Rightarrow>
            if sq_write_err q \<noteq> None then s
            else (case sq_read q req of Inl _ \<Rightarrow> s | Inr datagram \<Rightarrow> stun_answer ip_text txID datagram s))"

text \<open>\<open>GatherCandidates\<close> with its goroutine run to the end.\<close>

definition GatherCandidates ::
  "(ip \<Rightarrow> string) \<Rightarrow> if_addr list option \<Rightarrow> string \<Rightarrow> stun_query \<Rightarrow> ice_session \<Rightarrow> ice_session" where
  "GatherCandidates ip_text addrs stunServer q s =
     (let s1 = gather_hosts ip_text addrs s in if stunServer \<noteq> [] then query_stun ip_text q s1 else s1)"

text \<open>The best candidate is the first of those with the highest priority.\<close>

lemma foldl_best:
  "ca_Priority (foldl (\<lambda>best c. if ca_Priority best < ca_Priority c then c else best) b cs) =
     Max (insert (ca_Priority b) (ca_Priority ` set cs)) \<and>
   foldl (\<lambda>best c. if ca_Priority best < ca_Priority c then c else best) b cs \<in> insert b (set cs)"
proof (induction cs arbitrary: b)
  case Nil
  then show ?case by simp
next
  case (Cons c cs)
  let ?b = "if ca_Priority b < ca_Priority c then c else b"
  have m: "max (ca_Priority b) (max (ca_Priority c) x) = max (ca_Priority ?b) x" for x
    by (auto simp: max_def)
  have "Max (insert (ca_Priority ?b) (ca_Priority ` set cs)) =
      Max (insert (ca_Priority b) (insert (ca_Priority c) (ca_Priority ` set cs)))"
    by (cases "cs = []") (simp_all add: m)
  with Cons.IH [of ?b] show ?case by auto
qed

lemma best_local_candidate:
  assumes "c \<in> set (ice_local s)" "0 < ca_Priority c"
  shows "GetBestLocalCandidate s \<in> set (ice_local s)" "ca_Priority c \<le> ca_Priority (GetBestLocalCandidate s)"
proof -
  note f = foldl_best [of zero_candidate "ice_local s"]
  show p: "ca_Priority c \<le> ca_Priority (GetBestLocalCandidate s)"
    using f assms(1) by (simp add: GetBestLocalCandidate_def)
  with assms(2) f show "GetBestLocalCandidate s \<in> set (ice_local s)"
    by (auto simp: GetBestLocalCandidate_def zero_candidate_def)
qed

text \<open>
  Gathering always leaves a candidate, and a reflexive one is never the best of a host that has an
  interface besides loopback.
\<close>

lemma gather_hosts_local:
  "ice_local (gather_hosts ip_text addrs s) =
     ice_local s @ (case addrs of None \<Rightarrow> [] | Some as \<Rightarrow> host_candidates ip_text as) @ [loopback_candidate]"
proof -
  have "ice_local (foldl (\<lambda>s c. AddLocalCandidate c s) s cs) = ice_local s @ cs" for cs
    by (induction cs arbitrary: s) (simp_all add: AddLocalCandidate_def)
  then show ?thesis by (simp add: gather_hosts_def AddLocalCandidate_def)
qed

lemma gathered_best_is_host:
  assumes "host_candidates ip_text as \<noteq> []" "s = stun_answer ip_text txID d (gather_hosts ip_text (Some as) NewICESession)"
  shows "ca_Priority (GetBestLocalCandidate s) = 1000"
proof -
  have h: "ca_Priority c = 1000" if "c \<in> set (host_candidates ip_text as)" for c
    using that
    by (induction as) (auto simp: host_candidates_def List.map_filter_simps split: if_addr.splits if_splits option.splits)
  obtain c where c: "c \<in> set (host_candidates ip_text as)" using assms(1) by (cases "host_candidates ip_text as") auto
  have l: "set (ice_local s) \<subseteq> {x. ca_Priority x \<le> 1000}" "set (host_candidates ip_text as) \<subseteq> set (ice_local s)"
    unfolding assms(2) stun_answer_def
    by (auto simp: gather_hosts_local NewICESession_def AddLocalCandidate_def loopback_candidate_def h split: sum.splits)
  with best_local_candidate [of c s] c h [OF c] show ?thesis by force
qed

text \<open>
  Whatever the server and the network do, gathering adds the host candidates, the loopback candidate and at
  most one reflexive candidate, in this order.
\<close>

lemma gathered_candidates:
  "\<exists>srflx. ice_local (GatherCandidates ip_text addrs stunServer q s) =
     ice_local s @ (case addrs of None \<Rightarrow> [] | Some as \<Rightarrow> host_candidates ip_text as) @ loopback_candidate # srflx \<and>
     length srflx \<le> (if stunServer = [] then 0 else 1) \<and> (\<forall>c\<in>set srflx. ca_Type c = Some CandidateSrflx \<and> ca_Priority c = 500)"
proof -
  have a: "\<exists>srflx. ice_local (query_stun ip_text q s1) = ice_local s1 @ srflx \<and> length srflx \<le> 1 \<and>
      (\<forall>c\<in>set srflx. ca_Type c = Some CandidateSrflx \<and> ca_Priority c = 500)" for s1
    by (auto simp: query_stun_def stun_answer_def AddLocalCandidate_def Let_def split: sum.split)
  show ?thesis
    using a [of "gather_hosts ip_text addrs s"] by (auto simp: GatherCandidates_def Let_def gather_hosts_local)
qed

subsection \<open>LossyConn\<close>

text \<open>
  \<open>ReadFrom\<close> of the wrapper: the results of the inner connection in order, each with the outcome of
  the random drop; it returns the first that is not dropped, or the first error.
\<close>

fun lossy_ReadFrom :: "((bytes \<times> net_addr) result \<times> bool) list \<Rightarrow> ((bytes \<times> net_addr) result \<times> ((bytes \<times> net_addr) result \<times> bool) list) option" where
  "lossy_ReadFrom [] = None"
| "lossy_ReadFrom ((r, dropped) # rest) =
     (case r of Inl e \<Rightarrow> Some (Inl e, rest)
      | Inr pkt \<Rightarrow> if dropped then lossy_ReadFrom rest else Some (Inr pkt, rest))"

lemma lossy_ReadFrom_first:
  "\<forall>(r, d)\<in>set xs. \<exists>p. r = Inr p \<and> d \<Longrightarrow> lossy_ReadFrom (xs @ (Inr pkt, False) # rest) = Some (Inr pkt, rest)"
  by (induction xs) auto

end
