(* ===== verification/Net_Peers.thy ===== *)
theory Net_Peers
  imports Hyper_Replicate Utp_Turn
begin

section \<open>The peer manager (pkg/network/tcp.go)\<close>

text \<open>
  The manager runs one sync session per connection, all on the one storage and block repository of
  the process, and keeps a connection and a session per peer key in two maps. A handler is the
  goroutine of one connection; the maps hold its index. The steps are the sections between the
  blocking points: the handshake done (the session is registered), one frame received, the session
  ended (the deferred functions run), and the manager's own methods.
\<close>

record 'r peer_handler =
  ph_key :: string
  ph_session :: "'r session"
  ph_running :: bool
  ph_closed :: bool

text \<open>What \<open>Addr\<close> can return: the address types of Go's \<open>net\<close> and the wrapper of the uTP listener.\<close>

datatype go_addr = GoTCPAddr string nat | GoUDPAddr string nat | UtpAddr go_addr

record 'r peer_manager =
  pm_localPriv :: bytes
  pm_storage :: storage
  pm_blockRepo :: "('r block_repo \<times> 'r) option"
  pm_feedKey :: string
  pm_listener :: "go_addr option"
  pm_conns :: "string \<Rightarrow> nat option"
  pm_sessions :: "string \<Rightarrow> nat option"
  pm_cancelled :: bool
  pm_listenerClosed :: bool
  pm_relayServer :: string
  pm_stunServer :: string
  pm_handlers :: "'r peer_handler list"

definition NewPeerManager ::
  "bytes \<Rightarrow> storage \<Rightarrow> ('r block_repo \<times> 'r) option \<Rightarrow> string \<Rightarrow> 'r peer_manager" where
  "NewPeerManager localPriv st repo feedKey =
     \<lparr>pm_localPriv = localPriv, pm_storage = st, pm_blockRepo = repo, pm_feedKey = feedKey,
      pm_listener = None, pm_conns = (\<lambda>_. None), pm_sessions = (\<lambda>_. None), pm_cancelled = False,
      pm_listenerClosed = False, pm_relayServer = [], pm_stunServer = [], pm_handlers = []\<rparr>"

definition pm_SetRelayServer :: "string \<Rightarrow> 'r peer_manager \<Rightarrow> 'r peer_manager" where
  "pm_SetRelayServer addr pm = pm\<lparr>pm_relayServer := addr\<rparr>"

definition pm_SetStunServer :: "string \<Rightarrow> 'r peer_manager \<Rightarrow> 'r peer_manager" where
  "pm_SetStunServer addr pm = pm\<lparr>pm_stunServer := addr\<rparr>"

text \<open>
  \<open>bound\<close> is the result of resolving the address and binding the UDP socket: the socket's local
  address. The multiplexer gets the relay server, and the listener's address is wrapped.
\<close>

definition StartListener ::
  "go_addr result \<Rightarrow> 'r peer_manager \<Rightarrow> ('r peer_manager \<times> socket_mux) \<times> error option" where
  "StartListener bound pm =
     (case bound of Inl e \<Rightarrow> ((pm, NewSocketMux), Some e)
      | Inr localAddr \<Rightarrow>
          let mux = (if pm_relayServer pm \<noteq> [] then SetRelayServer (pm_relayServer pm) NewSocketMux else NewSocketMux)
          in ((pm\<lparr>pm_listener := Some (UtpAddr localAddr)\<rparr>, mux), None))"

definition pm_Addr :: "'r peer_manager \<Rightarrow> go_addr option" where
  "pm_Addr pm = pm_listener pm"

subsection \<open>Handlers\<close>

text \<open>
  The two kinds of handler after a successful handshake with a peer that presented \<open>remotePub\<close>.
\<close>

definition peer_connected :: "bytes \<Rightarrow> 'r peer_manager \<Rightarrow> 'r peer_manager \<times> nat" where
  "peer_connected remotePub pm =
     (let i = length (pm_handlers pm);
          session = NewSyncSession (pm_storage pm) (pm_blockRepo pm) (pm_feedKey pm) (pm_localPriv pm) remotePub;
          peerKey = hex_EncodeToString remotePub
      in (pm\<lparr>pm_conns := (pm_conns pm)(peerKey \<mapsto> i), pm_sessions := (pm_sessions pm)(peerKey \<mapsto> i),
             pm_handlers := pm_handlers pm @ [\<lparr>ph_key = peerKey, ph_session = session, ph_running = True, ph_closed = False\<rparr>]\<rparr>, i))"

text \<open>
  \<open>secure b\<close> is the outcome of \<open>NewSecureConnection\<close> on the connection with the role \<open>b\<close> (initiator): the
  key that the peer presented. A failed handshake closes the connection and leaves the manager alone.
\<close>

definition handleIncoming :: "(bool \<Rightarrow> bytes result) \<Rightarrow> 'r peer_manager \<Rightarrow> 'r peer_manager \<times> nat option" where
  "handleIncoming secure pm =
     (case secure False of Inl _ \<Rightarrow> (pm, None)
      | Inr remotePub \<Rightarrow> (let (pm', i) = peer_connected remotePub pm in (pm', Some i)))"

definition handleOutgoing :: "(bool \<Rightarrow> bytes result) \<Rightarrow> 'r peer_manager \<Rightarrow> 'r peer_manager \<times> nat option" where
  "handleOutgoing secure pm =
     (case secure True of Inl _ \<Rightarrow> (pm, None)
      | Inr remotePub \<Rightarrow> (let (pm', i) = peer_connected remotePub pm in (pm', Some i)))"

text \<open>One pass of the accept loop; the second component says whether the loop goes on.\<close>

datatype accepted = AcceptFails error | AcceptedConn "bool \<Rightarrow> bytes result"

definition accept_pass :: "accepted \<Rightarrow> 'r peer_manager \<Rightarrow> 'r peer_manager \<times> bool" where
  "accept_pass a pm =
     (case a of AcceptFails _ \<Rightarrow> (pm, \<not> pm_cancelled pm)
      | AcceptedConn secure \<Rightarrow> (fst (handleIncoming secure pm), True))"

fun accept_loop :: "accepted list \<Rightarrow> 'r peer_manager \<Rightarrow> 'r peer_manager \<times> bool" where
  "accept_loop [] pm = (pm, True)"
| "accept_loop (a # as) pm =
     (case accept_pass a pm of (pm', True) \<Rightarrow> accept_loop as pm' | (pm', False) \<Rightarrow> (pm', False))"

text \<open>The session has returned: the maps' entries of its key go, and the connection is closed.\<close>

definition peer_ended :: "nat \<Rightarrow> 'r peer_manager \<Rightarrow> 'r peer_manager" where
  "peer_ended i pm =
     (let h = pm_handlers pm ! i; peerKey = ph_key h
      in pm\<lparr>pm_conns := (pm_conns pm)(peerKey := None), pm_sessions := (pm_sessions pm)(peerKey := None),
            pm_handlers := (pm_handlers pm)[i := h\<lparr>ph_running := False, ph_closed := True\<rparr>]\<rparr>)"

text \<open>A session works on the shared storage and repository.\<close>

definition attach :: "'r peer_manager \<Rightarrow> nat \<Rightarrow> 'r session" where
  "attach pm i = (ph_session (pm_handlers pm ! i))\<lparr>ss_storage := pm_storage pm, ss_repo := pm_blockRepo pm\<rparr>"

definition detach :: "nat \<Rightarrow> 'r session \<Rightarrow> 'r peer_manager \<Rightarrow> 'r peer_manager" where
  "detach i s pm =
     pm\<lparr>pm_storage := ss_storage s, pm_blockRepo := ss_repo s,
        pm_handlers := (pm_handlers pm)[i := (pm_handlers pm ! i)\<lparr>ph_session := s\<rparr>]\<rparr>"

text \<open>One frame of connection \<open>i\<close>, handled without another handler in between.\<close>

definition peer_frame :: "sync_env \<Rightarrow> nat \<Rightarrow> bytes \<Rightarrow> 'r peer_manager \<Rightarrow> 'r peer_manager" where
  "peer_frame E i b pm =
     (if i < length (pm_handlers pm) \<and> ph_running (pm_handlers pm ! i)
      then (case handle_frame E None None (attach pm i) b of
              (s, None) \<Rightarrow> detach i s pm
            | (s, Some _) \<Rightarrow> peer_ended i (detach i s pm))
      else pm)"

text \<open>The order of the sessions is that of a Go map; each session's write is its own.\<close>

definition BroadcastHave :: "u64 \<Rightarrow> 'r peer_manager \<Rightarrow> 'r peer_manager" where
  "BroadcastHave len pm =
     pm\<lparr>pm_handlers := map (\<lambda>i. let h = pm_handlers pm ! i in
          if pm_sessions pm (ph_key h) = Some i then h\<lparr>ph_session := fst (NotifyHave (ph_session h) len)\<rparr> else h)
          [0..<length (pm_handlers pm)]\<rparr>"

definition ConnCount :: "'r peer_manager \<Rightarrow> nat" where
  "ConnCount pm = card (dom (pm_conns pm))"

text \<open>\<open>Close\<close> up to the wait for the goroutines.\<close>

definition pm_Close :: "'r peer_manager \<Rightarrow> 'r peer_manager" where
  "pm_Close pm =
     pm\<lparr>pm_cancelled := True, pm_listenerClosed := (pm_listener pm \<noteq> None),
        pm_handlers := map (\<lambda>i. let h = pm_handlers pm ! i in
          if pm_conns pm (ph_key h) = Some i then h\<lparr>ph_closed := True\<rparr> else h) [0..<length (pm_handlers pm)]\<rparr>"

subsection \<open>Dialling a peer\<close>

text \<open>
  \<open>DialPeer\<close> opens a socket and a multiplexer of its own, dials, and starts \<open>handleOutgoing\<close> on the
  connection; the result is the endpoint with the connection's index.
\<close>

definition DialPeer ::
  "relay_env \<Rightarrow> u16 \<Rightarrow> error option \<Rightarrow> (endpoint \<Rightarrow> endpoint) \<Rightarrow> dial_choice \<Rightarrow>
     net_addr result \<Rightarrow> error option \<Rightarrow> 'r peer_manager \<Rightarrow> (endpoint option \<times> nat result) option" where
  "DialPeer R s write_err meanwhile ch resolved listen_err pm =
     (case resolved of Inl e \<Rightarrow> Some (None, Inl e)
      | Inr udpAddr \<Rightarrow>
          (case listen_err of Some e \<Rightarrow> Some (None, Inl e)
           | None \<Rightarrow>
               let mux = (if pm_relayServer pm \<noteq> [] then SetRelayServer (pm_relayServer pm) NewSocketMux else NewSocketMux)
               in (case DialUTPWithTimeoutAndRelay R s write_err meanwhile ch udpAddr
                     \<lparr>ep_mux = mux, ep_conns = [], ep_listeners = []\<rparr> of
                     None \<Rightarrow> None
                   | Some (ep, _, Inl e) \<Rightarrow> Some (Some (ep\<lparr>ep_mux := mux_Stop (ep_mux ep)\<rparr>), Inl e)
                   | Some (ep, _, Inr c) \<Rightarrow> Some (Some ep, Inr c))))"

text \<open>\<open>clientUTPConn.Close\<close> after the connection's own \<open>Close\<close>: the multiplexer stops.\<close>

definition clientUTPConn_Close :: "endpoint \<Rightarrow> endpoint" where
  "clientUTPConn_Close ep = ep\<lparr>ep_mux := mux_Stop (ep_mux ep)\<rparr>"

subsection \<open>A received block in two steps\<close>

text \<open>
  The Data handler holds no lock between reading the length and appending: \<open>data_check\<close> is its part
  up to the verified signature, \<open>data_commit\<close> the rest. Without another handler in between they are
  \<open>handle_data\<close>.
\<close>

definition data_check :: "sync_env \<Rightarrow> 'r session \<Rightarrow> bytes \<Rightarrow> error option + (hc_data \<times> bytes)" where
  "data_check E s b =
     (case DecodeData b of Inl e \<Rightarrow> Inl (Some (Wrap ''decode data'' e)) | Inr m \<Rightarrow>
     (case received_value E s (data_value m) of Inl e \<Rightarrow> Inl (Some e) | Inr value \<Rightarrow>
      (let expectedIndex = storage_len (ss_storage s) in
       if data_index m \<noteq> expectedIndex then Inl None
       else case load_blocks (ss_storage s) (unat expectedIndex) of
         Inl e \<Rightarrow> Inl (Some (Wrap ''read local block for signature verification'' e))
       | Inr blocks \<Rightarrow>
         (case ComputeRootHash (blake2b E) (blocks @ [value]) of
            Inl e \<Rightarrow> Inl (Some (Wrap ''compute root hash for block'' e))
          | Inr rootHash \<Rightarrow>
            if VerifySignature E (ss_remotePub s) rootHash (data_signature m) then Inr (m, value)
            else Inl (Some (ErrNew ''cryptographic verification failed for block''))))))"

definition data_commit ::
  "write_fault \<Rightarrow> write_fault \<Rightarrow> 'r session \<Rightarrow> hc_data \<times> bytes \<Rightarrow> 'r session \<times> error option" where
  "data_commit fd fi s mv =
     (let (m, value) = mv in
      case storage_append fd fi (ss_storage s) value of
        (st, Some e) \<Rightarrow> (s\<lparr>ss_storage := st\<rparr>, Some (Wrap ''append block'' e))
      | (st, None) \<Rightarrow>
          let repo' = (case ss_repo s of None \<Rightarrow> None
                | Some (R, r) \<Rightarrow> Some (R, fst (PutBlock R r (ss_feedKey s) (data_index m) value (Some (data_signature m)))))
          in (s\<lparr>ss_storage := st, ss_repo := repo',
                ss_appended := ss_appended s @ [(data_index m, value)]\<rparr>, None))"

lemma handle_data_split:
  "handle_data E fd fi s b =
     (case data_check E s b of Inl e \<Rightarrow> (s, e) | Inr mv \<Rightarrow> data_commit fd fi s mv)"
  by (auto simp: handle_data_def data_check_def data_commit_def Let_def split: sum.splits)

lemma data_check_verified:
  assumes "data_check E s b = Inr (m, v)" "storage_inv (ss_storage s)"
  shows "data_index m = storage_len (ss_storage s)"
    and "\<exists>root. ComputeRootHash (blake2b E) (blocks_of (ss_storage s) @ [v]) = Inr root \<and>
      VerifySignature E (ss_remotePub s) root (data_signature m)"
  using assms(1) load_all_blocks [OF assms(2)]
  by (auto simp: data_check_def Let_def split: sum.splits if_splits)

subsection \<open>Handlers that take turns share one log\<close>

lemma storage_append_reliable: "storage_inv st \<Longrightarrow> snd (storage_append None None st b) = None"
  by (auto elim!: storage_invE simp: storage_append_def write_opt_def file_write_end Let_def)

lemma handle_frame_remotePub [simp]: "ss_remotePub (fst (handle_frame E fd fi s b)) = ss_remotePub s"
proof -
  have "ss_remotePub (fst (handle_data E fd fi s b)) = ss_remotePub s"
    unfolding handle_data_split by (auto simp: data_commit_def Let_def split: sum.split prod.split option.split)
  then show ?thesis
    using handle_have_same_log [of s b] handle_want_same_log [of s E b] handle_request_same_log [of s E b]
    by (simp add: handle_frame_def same_log_def)
qed

lemma handle_frame_reliable:
  assumes "handle_frame E None None s b = (t, r)" "storage_inv (ss_storage s)" "within_limits (ss_storage t)"
  shows "storage_inv (ss_storage t) \<and> (\<exists>new. blocks_of (ss_storage t) = blocks_of (ss_storage s) @ new \<and>
    verified_chain E (ss_remotePub s) (blocks_of (ss_storage s)) new)"
proof -
  from assms(1) consider "same_log s t" | "handle_data E None None s b = (t, r)"
    using handle_have_same_log [of s b] handle_want_same_log [of s E b] handle_request_same_log [of s E b]
    by (auto simp: handle_frame_def split: if_splits)
  then show ?thesis
  proof cases
    case 1
    then show ?thesis using assms(2) by (auto simp: same_log_def intro: exI [where x = "[]"])
  next
    case 2
    show ?thesis
    proof (cases "data_check E s b")
      case (Inl e)
      with 2 have "t = s" by (simp add: handle_data_split)
      with assms(2) show ?thesis by (auto intro: exI [where x = "[]"])
    next
      case (Inr mv)
      obtain m v where mv: "mv = (m, v)" by force
      obtain st where st: "storage_append None None (ss_storage s) v = (st, None)"
        using storage_append_reliable [OF assms(2), of v] by (metis prod.collapse)
      with 2 Inr mv have t: "ss_storage t = st" by (auto simp: handle_data_split data_commit_def Let_def)
      have "storage_inv st \<and> blocks_of st = blocks_of (ss_storage s) @ [v]"
        using storage_append_room [OF assms(2) st] assms(3) t by (simp add: within_limits_def)
      moreover have "verified_chain E (ss_remotePub s) (blocks_of (ss_storage s)) [v]"
        using data_check_verified(2) [OF Inr [unfolded mv] assms(2)] by auto
      ultimately show ?thesis using t by blast
    qed
  qed
qed

lemma peer_frame_storage:
  assumes "i < length (pm_handlers pm)" "ph_running (pm_handlers pm ! i)"
    "handle_frame E None None (attach pm i) b = (t, r)"
  shows "pm_storage (peer_frame E i b pm) = ss_storage t"
  using assms by (auto simp: peer_frame_def detach_def peer_ended_def Let_def split: option.split)

lemma attach_simps [simp]:
  "ss_storage (attach pm i) = pm_storage pm" "ss_remotePub (attach pm i) = ss_remotePub (ph_session (pm_handlers pm ! i))"
  by (simp_all add: attach_def)

definition peer_pubs :: "'r peer_manager \<Rightarrow> bytes list" where
  "peer_pubs pm = map (\<lambda>h. ss_remotePub (ph_session h)) (pm_handlers pm)"

lemma peer_frame_pubs [simp]: "peer_pubs (peer_frame E i b pm) = peer_pubs pm"
proof (cases "i < length (pm_handlers pm) \<and> ph_running (pm_handlers pm ! i)")
  case True
  obtain t r where h: "handle_frame E None None (attach pm i) b = (t, r)" by force
  have pub: "ss_remotePub t = ss_remotePub (ph_session (pm_handlers pm ! i))"
    using handle_frame_remotePub [of E None None "attach pm i" b] h by simp
  have "peer_pubs (detach i t pm) = peer_pubs pm"
    using True pub by (simp add: peer_pubs_def detach_def map_update list_update_same_conv)
  moreover have "peer_pubs (peer_ended i pm') = peer_pubs pm'" if "i < length (pm_handlers pm')" for pm' :: "'a peer_manager"
    using that by (simp add: peer_pubs_def peer_ended_def Let_def map_update list_update_same_conv)
  ultimately show ?thesis using True h by (auto simp: peer_frame_def detach_def split: option.split)
qed (auto simp: peer_frame_def)

definition frames_run :: "sync_env \<Rightarrow> (nat \<times> bytes) list \<Rightarrow> 'r peer_manager \<Rightarrow> 'r peer_manager" where
  "frames_run E fs pm = fold (\<lambda>(i, b). peer_frame E i b) fs pm"

lemma peer_frame_grows: "grows (pm_storage pm) (pm_storage (peer_frame E i b pm))"
proof (cases "i < length (pm_handlers pm) \<and> ph_running (pm_handlers pm ! i)")
  case True
  obtain t r where "handle_frame E None None (attach pm i) b = (t, r)" by force
  with peer_frame_storage [of i pm E b t r] True handle_frame_grows [of "attach pm i" E None None b] show ?thesis by simp
qed (auto simp: peer_frame_def)

lemma frames_run_grows: "grows (pm_storage pm) (pm_storage (frames_run E fs pm))"
proof (induction fs arbitrary: pm)
  case Nil
  then show ?case by (simp add: frames_run_def)
next
  case (Cons x fs)
  obtain i b where "x = (i, b)" by force
  with Cons.IH [of "peer_frame E i b pm"] peer_frame_grows [of pm E i b] show ?case
    by (auto simp: frames_run_def intro: grows_trans)
qed

lemma peer_frame_extends:
  assumes "storage_inv (pm_storage pm)" "within_limits (pm_storage (peer_frame E i b pm))"
  shows "storage_inv (pm_storage (peer_frame E i b pm)) \<and>
    (\<exists>new pub. blocks_of (pm_storage (peer_frame E i b pm)) = blocks_of (pm_storage pm) @ new \<and>
       (new = [] \<or> pub \<in> set (peer_pubs pm)) \<and> verified_chain E pub (blocks_of (pm_storage pm)) new)"
proof (cases "i < length (pm_handlers pm) \<and> ph_running (pm_handlers pm ! i)")
  case True
  obtain t r where h: "handle_frame E None None (attach pm i) b = (t, r)" by force
  have st: "pm_storage (peer_frame E i b pm) = ss_storage t" using peer_frame_storage True h by blast
  have "ss_remotePub (ph_session (pm_handlers pm ! i)) \<in> set (peer_pubs pm)" using True by (auto simp: peer_pubs_def)
  with handle_frame_reliable [OF h] assms st show ?thesis by auto
next
  case False
  then show ?thesis using assms by (auto simp: peer_frame_def intro!: exI [where x = "[]"])
qed

lemma frames_run_Cons: "frames_run E ((i, b) # fs) pm = frames_run E fs (peer_frame E i b pm)"
  by (simp add: frames_run_def)

lemma frames_run_extends:
  "storage_inv (pm_storage pm) \<Longrightarrow> within_limits (pm_storage (frames_run E fs pm)) \<Longrightarrow>
     prefix (blocks_of (pm_storage pm)) (blocks_of (pm_storage (frames_run E fs pm)))"
proof (induction fs arbitrary: pm)
  case Nil
  then show ?case by (simp add: frames_run_def)
next
  case (Cons x fs)
  obtain i b where x: "x = (i, b)" by force
  have "within_limits (pm_storage (peer_frame E i b pm))"
    using Cons.prems(2) frames_run_grows [of "peer_frame E i b pm" E fs] within_limits_back
    unfolding x frames_run_Cons by blast
  from peer_frame_extends [OF Cons.prems(1) this] Cons.IH [of "peer_frame E i b pm"] Cons.prems(2)
  show ?case by (auto simp: x frames_run_Cons append_prefixD)
qed

text \<open>
  C7. Sessions share one faithful log. However the frames of any number of peers are interleaved,
  each frame handled without another in between and whatever it contains, the shared log only grows,
  and if every peer's key only ever signed roots of prefixes of the author's feed and the hash does
  not collide on the strings hashed, a log that was a prefix of the feed stays one.
\<close>

theorem shared_log_is_prefix_of_feed:
  assumes "storage_inv (pm_storage pm)" "within_limits (pm_storage (frames_run E fs pm))"
    and "prefix (blocks_of (pm_storage pm)) feed"
    and "\<And>x. length (blake2b E x) = 32"
    and "\<And>pub root sig. pub \<in> set (peer_pubs pm) \<Longrightarrow> VerifySignature E pub root sig \<Longrightarrow>
      \<exists>p. prefix p feed \<and> p \<noteq> [] \<and> ComputeRootHash (blake2b E) p = Inr root"
    and "\<And>p q. prefix p (blocks_of (pm_storage (frames_run E fs pm))) \<Longrightarrow> prefix q feed \<Longrightarrow>
      inj_on (blake2b E) (set (hash_calls (blake2b E) p) \<union> set (hash_calls (blake2b E) q))"
  shows "prefix (blocks_of (pm_storage pm)) (blocks_of (pm_storage (frames_run E fs pm))) \<and>
    prefix (blocks_of (pm_storage (frames_run E fs pm))) feed"
  using assms(1-3,5,6)
proof (induction fs arbitrary: pm)
  case Nil
  then show ?case by (simp add: frames_run_def)
next
  case (Cons x fs)
  obtain i b where x: "x = (i, b)" by force
  let ?pm = "peer_frame E i b pm"
  have run: "frames_run E (x # fs) pm = frames_run E fs ?pm" by (simp add: frames_run_Cons x)
  have "within_limits (pm_storage ?pm)"
    using Cons.prems(2) frames_run_grows [of ?pm E fs] within_limits_back unfolding run by blast
  from peer_frame_extends [OF Cons.prems(1) this] obtain new pub where
    inv: "storage_inv (pm_storage ?pm)" and new: "blocks_of (pm_storage ?pm) = blocks_of (pm_storage pm) @ new"
    "new = [] \<or> pub \<in> set (peer_pubs pm)" "verified_chain E pub (blocks_of (pm_storage pm)) new" by blast
  have ext: "prefix (blocks_of (pm_storage ?pm)) (blocks_of (pm_storage (frames_run E fs ?pm)))"
    by (rule frames_run_extends [OF inv]) (use Cons.prems(2) in \<open>simp add: run\<close>)
  have "prefix (blocks_of (pm_storage ?pm)) feed"
  proof (cases "new = []")
    case True
    with new Cons.prems(3) show ?thesis by simp
  next
    case False
    then have "pub \<in> set (peer_pubs pm)" using new(2) by simp
    from verified_chain_authentic [OF assms(4) Cons.prems(4) [OF this] new(3) Cons.prems(3)] Cons.prems(5) ext
    show ?thesis unfolding new(1) run by (meson prefix_order.trans)
  qed
  then have "prefix (blocks_of (pm_storage ?pm)) (blocks_of (pm_storage (frames_run E fs ?pm))) \<and>
      prefix (blocks_of (pm_storage (frames_run E fs ?pm))) feed"
    by (intro Cons.IH [OF inv]) (use Cons.prems(2,4,5) in \<open>simp_all add: run\<close>)
  with ext new(1) show ?case unfolding run by (metis append_prefixD)
qed

definition toy_manager :: "unit peer_manager" where
  "toy_manager = fst (peer_connected [7] (NewPeerManager [] empty_storage None ''feed''))"

definition toy_root :: hash where
  "toy_root = root_or_zero (toy_env only_signed) [[1]]"

definition toy_block :: bytes where
  "toy_block = [5] @ put_u64 0 @ write_bytes [1] @ write_bytes (take 64 toy_root)"

lemma toy_check:
  assumes "ss_storage s = empty_storage" "\<not> ss_deflate s"
  shows "data_check (toy_env only_signed) s toy_block =
    Inr (\<lparr>data_index = 0, data_value = [1], data_signature = take 64 toy_root\<rparr>, [1])"
proof -
  obtain root where r: "ComputeRootHash toy_hash [[1]] = Inr root" using root_exists by blast
  then have root: "toy_root = root" "only_signed root"
    by (simp_all add: toy_root_def root_or_zero_def toy_env_def only_signed_def)
  have "DecodeData toy_block = Inr \<lparr>data_index = 0, data_value = [1], data_signature = take 64 toy_root\<rparr>"
    by (simp add: DecodeData_def toy_block_def fits_def MaxMessageSize_def)
  moreover have "storage_len empty_storage = 0" by (simp add: storage_len_def empty_storage_def)
  ultimately show ?thesis
    using assms r root by (simp add: data_check_def received_value_def toy_env_def VerifySignature_def)
qed

lemma toy_manager_frame:
  "pm_storage (frames_run (toy_env only_signed) [(0, toy_block)] toy_manager) = one_block"
proof -
  let ?s = "attach toy_manager 0"
  have s: "ss_storage ?s = empty_storage" "\<not> ss_deflate ?s"
    by (simp_all add: attach_def toy_manager_def peer_connected_def NewPeerManager_def NewSyncSession_def Let_def)
  have b: "toy_block \<noteq> []" "toy_block ! 0 = 5" by (simp_all add: toy_block_def)
  obtain st where st: "storage_append None None empty_storage [1] = (st, None)"
    using storage_append_reliable [OF empty_storage_inv, of "[1]"] by (metis prod.collapse)
  have "handle_frame (toy_env only_signed) None None ?s toy_block = data_commit None None ?s
      (\<lparr>data_index = 0, data_value = [1], data_signature = take 64 toy_root\<rparr>, [1])"
    using b by (simp add: handle_frame_def handle_data_split toy_check [OF s])
  moreover obtain t r where "handle_frame (toy_env only_signed) None None ?s toy_block = (t, r)" by force
  ultimately have "handle_frame (toy_env only_signed) None None ?s toy_block = (t, r)" "ss_storage t = st"
    using st s(1) by (auto simp: data_commit_def Let_def)
  with peer_frame_storage [of 0 toy_manager "toy_env only_signed" toy_block t r] st show ?thesis
    by (simp add: frames_run_def toy_manager_def peer_connected_def NewPeerManager_def Let_def one_block_def
        storage_append_all_def)
qed

theorem shared_log_is_prefix_of_feed_witness:
  "blocks_of (pm_storage (frames_run (toy_env only_signed) [(0, toy_block)] toy_manager)) = [[1]] \<and>
   prefix (blocks_of (pm_storage (frames_run (toy_env only_signed) [(0, toy_block)] toy_manager))) [[1]]"
proof -
  have "prefix (blocks_of (pm_storage (frames_run (toy_env only_signed) [(0, toy_block)] toy_manager))) [[1]]"
    by (rule conjunct2 [OF shared_log_is_prefix_of_feed])
      (simp_all add: toy_manager_frame one_block storage_inv_within_limits only_signed_root toy_no_collision,
       simp_all add: toy_manager_def peer_connected_def NewPeerManager_def Let_def empty_storage_inv blocks_empty
         toy_env_def toy_hash_def)
  then show ?thesis by (simp add: toy_manager_frame one_block)
qed

text \<open>
  Without taking turns a block is appended twice. If two sessions have both verified a block for
  the next index before either appends, both append: the second lands one index later than
  the one it was verified for, and both report it under the same index.
\<close>

lemma concurrent_blocks_break_log:
  assumes "storage_inv st" "ss_storage s1 = st" "ss_storage s2 = st"
    and "data_check E s1 b1 = Inr (m1, v1)" "data_check E s2 b2 = Inr (m2, v2)"
    and "data_commit None None s1 (m1, v1) = (t1, r1)"
    and "data_commit None None (s2\<lparr>ss_storage := ss_storage t1\<rparr>) (m2, v2) = (t2, r2)"
    and "within_limits (ss_storage t2)"
  shows "r1 = None \<and> r2 = None \<and> blocks_of (ss_storage t2) = blocks_of st @ [v1, v2] \<and>
    ss_appended t1 = ss_appended s1 @ [(storage_len st, v1)] \<and> ss_appended t2 = ss_appended s2 @ [(storage_len st, v2)]"
proof -
  have idx: "data_index m1 = storage_len st" "data_index m2 = storage_len st"
    using data_check_verified(1) assms(1-5) by metis+
  obtain st1 where a1: "storage_append None None st v1 = (st1, None)"
    using storage_append_reliable [OF assms(1), of v1] by (metis prod.collapse)
  with assms(2,6) have t1: "ss_storage t1 = st1" "r1 = None" "ss_appended t1 = ss_appended s1 @ [(data_index m1, v1)]"
    by (auto simp: data_commit_def Let_def)
  have g: "grows st1 (ss_storage t2)"
    using assms(7) storage_append_grows [of st1 None None v2]
    by (auto simp: data_commit_def t1(1) Let_def split: prod.splits option.splits)
  have st1: "storage_inv st1" "blocks_of st1 = blocks_of st @ [v1]"
    using storage_append_room [OF assms(1) a1] within_limits_back [OF g assms(8)] by (simp_all add: within_limits_def)
  obtain st2 where a2: "storage_append None None st1 v2 = (st2, None)"
    using storage_append_reliable [OF st1(1), of v2] by (metis prod.collapse)
  with assms(7) t1(1) have t2: "ss_storage t2 = st2" "r2 = None" "ss_appended t2 = ss_appended s2 @ [(data_index m2, v2)]"
    by (auto simp: data_commit_def Let_def)
  have "blocks_of st2 = blocks_of st1 @ [v2]"
    using storage_append_room [OF st1(1) a2] assms(8) t2(1) by (simp add: within_limits_def)
  with st1(2) t1 t2 idx show ?thesis by simp
qed

subsection \<open>The maps of connections\<close>

text \<open>
  Steps of the manager: a connection completes its handshake, a frame arrives, a session ends. Each
  key that is connected at most once at a time is in both maps exactly while its session runs.
\<close>

datatype peer_event = Connected bytes | FrameReceived nat bytes | Ended nat

fun peer_step :: "sync_env \<Rightarrow> peer_event \<Rightarrow> 'r peer_manager \<Rightarrow> 'r peer_manager" where
  "peer_step E (Connected pub) pm = fst (peer_connected pub pm)"
| "peer_step E (FrameReceived i b) pm = peer_frame E i b pm"
| "peer_step E (Ended i) pm = (if i < length (pm_handlers pm) \<and> ph_running (pm_handlers pm ! i) then peer_ended i pm else pm)"

definition live :: "'r peer_manager \<Rightarrow> string \<Rightarrow> nat set" where
  "live pm k = {i. i < length (pm_handlers pm) \<and> ph_running (pm_handlers pm ! i) \<and> ph_key (pm_handlers pm ! i) = k}"

definition one_connection_each :: "'r peer_manager \<Rightarrow> bool" where
  "one_connection_each pm \<longleftrightarrow>
     pm_sessions pm = pm_conns pm \<and> (\<forall>k. live pm k = set_option (pm_conns pm k)) \<and>
     (\<forall>i < length (pm_handlers pm). ph_closed (pm_handlers pm ! i) = (\<not> ph_running (pm_handlers pm ! i)))"

lemma one_connection_connected:
  assumes "one_connection_each pm" "live pm (hex_EncodeToString pub) = {}"
  shows "one_connection_each (fst (peer_connected pub pm))"
proof -
  have "live (fst (peer_connected pub pm)) k =
      (if k = hex_EncodeToString pub then insert (length (pm_handlers pm)) (live pm k) else live pm k)" for k
    by (auto simp: live_def peer_connected_def Let_def nth_append)
  then show ?thesis using assms
    by (auto simp: one_connection_each_def peer_connected_def Let_def nth_append)
qed

lemma one_connection_ended:
  assumes "one_connection_each pm" "i < length (pm_handlers pm)" "ph_running (pm_handlers pm ! i)"
  shows "one_connection_each (peer_ended i pm)"
proof -
  let ?k = "ph_key (pm_handlers pm ! i)"
  have "i \<in> live pm ?k" using assms(2,3) by (simp add: live_def)
  then have one: "live pm ?k = {i}" "pm_conns pm ?k = Some i"
    using assms(1) by (cases "pm_conns pm ?k"; auto simp: one_connection_each_def)+
  have "live (peer_ended i pm) k = live pm k - {i}" for k
    using assms(2) by (auto simp: live_def peer_ended_def Let_def nth_list_update)
  moreover have "i \<notin> live pm k" if "k \<noteq> ?k" for k using that by (simp add: live_def)
  ultimately show ?thesis using assms(1,2) one(1)
    by (auto simp: one_connection_each_def peer_ended_def Let_def nth_list_update)
qed

lemma one_connection_detach:
  "one_connection_each pm \<Longrightarrow> one_connection_each (detach i s pm)"
proof -
  assume a: "one_connection_each pm"
  have h: "ph_running (pm_handlers (detach i s pm) ! j) = ph_running (pm_handlers pm ! j)"
    "ph_key (pm_handlers (detach i s pm) ! j) = ph_key (pm_handlers pm ! j)"
    "ph_closed (pm_handlers (detach i s pm) ! j) = ph_closed (pm_handlers pm ! j)" if "j < length (pm_handlers pm)" for j
    using that by (cases "j = i"; simp add: detach_def)+
  have "live (detach i s pm) k = live pm k" for k using h by (auto simp: live_def detach_def)
  with a h show ?thesis by (simp add: one_connection_each_def detach_def)
qed

lemma one_connection_frame:
  assumes "one_connection_each pm"
  shows "one_connection_each (peer_frame E i b pm)"
proof (cases "i < length (pm_handlers pm) \<and> ph_running (pm_handlers pm ! i)")
  case True
  obtain t r where h: "handle_frame E None None (attach pm i) b = (t, r)" by force
  have d: "one_connection_each (detach i t pm)" by (rule one_connection_detach [OF assms])
  have "one_connection_each (peer_ended i (detach i t pm))"
    by (rule one_connection_ended [OF d]) (use True in \<open>simp_all add: detach_def\<close>)
  with d True h show ?thesis by (auto simp: peer_frame_def split: option.split)
qed (use assms in \<open>auto simp: peer_frame_def\<close>)

text \<open>No key connects while it has a running session.\<close>

fun connects_once :: "sync_env \<Rightarrow> peer_event list \<Rightarrow> 'r peer_manager \<Rightarrow> bool" where
  "connects_once E [] pm = True"
| "connects_once E (ev # evs) pm =
     ((case ev of Connected pub \<Rightarrow>
         list_all (\<lambda>h. ph_running h \<longrightarrow> ph_key h \<noteq> hex_EncodeToString pub) (pm_handlers pm) | _ \<Rightarrow> True) \<and>
      connects_once E evs (peer_step E ev pm))"

definition events_run :: "sync_env \<Rightarrow> peer_event list \<Rightarrow> 'r peer_manager \<Rightarrow> 'r peer_manager" where
  "events_run E evs pm = fold (peer_step E) evs pm"

lemma one_connection_run:
  "one_connection_each pm \<Longrightarrow> connects_once E evs pm \<Longrightarrow> one_connection_each (events_run E evs pm)"
proof (induction evs arbitrary: pm)
  case Nil
  then show ?case by (simp add: events_run_def)
next
  case (Cons ev evs)
  have "one_connection_each (peer_step E ev pm)"
  proof (cases ev)
    case (Connected pub)
    then have "live pm (hex_EncodeToString pub) = {}"
      using Cons.prems(2) by (auto simp: live_def list_all_length)
    with Connected Cons.prems(1) show ?thesis by (simp add: one_connection_connected)
  qed (use Cons.prems(1) in \<open>auto simp: one_connection_frame one_connection_ended\<close>)
  with Cons show ?case by (simp add: events_run_def)
qed

lemma one_connection_new: "one_connection_each (NewPeerManager priv st repo feedKey)"
  by (simp add: one_connection_each_def NewPeerManager_def live_def)

lemma one_connection_index:
  assumes "one_connection_each pm" "i < length (pm_handlers pm)"
  shows "pm_conns pm (ph_key (pm_handlers pm ! i)) = Some i \<longleftrightarrow> ph_running (pm_handlers pm ! i)"
proof -
  have "i \<in> live pm (ph_key (pm_handlers pm ! i)) \<longleftrightarrow> ph_running (pm_handlers pm ! i)"
    using assms(2) by (simp add: live_def)
  with assms(1) show ?thesis
    by (cases "pm_conns pm (ph_key (pm_handlers pm ! i))") (auto simp: one_connection_each_def)
qed

lemma one_connection_count:
  assumes "one_connection_each pm"
  shows "ConnCount pm = card {i. i < length (pm_handlers pm) \<and> ph_running (pm_handlers pm ! i)}"
proof -
  let ?L = "{i. i < length (pm_handlers pm) \<and> ph_running (pm_handlers pm ! i)}"
  have key: "pm_conns pm k = Some i \<longleftrightarrow> i \<in> ?L \<and> ph_key (pm_handlers pm ! i) = k" for k i
  proof -
    have "pm_conns pm k = Some i \<longleftrightarrow> i \<in> live pm k"
      using assms by (cases "pm_conns pm k") (auto simp: one_connection_each_def)
    then show ?thesis by (auto simp: live_def)
  qed
  have "dom (pm_conns pm) = (\<lambda>i. ph_key (pm_handlers pm ! i)) ` ?L"
    using key by (auto simp: dom_def image_def)
  moreover have "inj_on (\<lambda>i. ph_key (pm_handlers pm ! i)) ?L"
    by (rule inj_onI) (metis key option.inject)
  ultimately show ?thesis by (simp add: ConnCount_def card_image)
qed



text \<open>
  The accept loop keeps the manager's log and maps: each connection it takes in after a handshake is one
  more running session under the peer's key, and the loop ends with the first failure of \<open>Accept\<close> after
  \<open>Close\<close>, however many fail before.
\<close>

lemma accept_loop_keeps:
  "accept_loop as pm = (pm', on) \<Longrightarrow>
     pm_storage pm' = pm_storage pm \<and> pm_cancelled pm' = pm_cancelled pm \<and>
     (\<exists>hs. pm_handlers pm' = pm_handlers pm @ hs \<and> list_all ph_running hs \<and> length hs \<le> length as \<and>
        (pm_cancelled pm \<longrightarrow> on \<longrightarrow> list_all (\<lambda>a. \<exists>secure. a = AcceptedConn secure) as)) \<and>
     (\<not> pm_cancelled pm \<longrightarrow> on)"
proof (induction as arbitrary: pm)
  case Nil
  then show ?case by simp
next
  case (Cons a as)
  show ?case
  proof (cases a)
    case (AcceptFails e)
    show ?thesis
    proof (cases "pm_cancelled pm")
      case True
      with Cons.prems AcceptFails show ?thesis by (auto simp: accept_pass_def)
    next
      case False
      then have "accept_loop as pm = (pm', on)" using Cons.prems AcceptFails by (simp add: accept_pass_def)
      from Cons.IH [OF this] False show ?thesis by auto
    qed
  next
    case (AcceptedConn secure)
    let ?pm1 = "fst (handleIncoming secure pm)"
    obtain hs1 where h1: "pm_handlers ?pm1 = pm_handlers pm @ hs1" "list_all ph_running hs1" "length hs1 \<le> 1"
      "pm_storage ?pm1 = pm_storage pm" "pm_cancelled ?pm1 = pm_cancelled pm"
      by (cases "secure False") (auto simp: handleIncoming_def peer_connected_def Let_def)
    have "accept_loop as ?pm1 = (pm', on)" using Cons.prems AcceptedConn by (simp add: accept_pass_def)
    from Cons.IH [OF this] obtain hs where "pm_handlers pm' = pm_handlers ?pm1 @ hs" "list_all ph_running hs" "length hs \<le> length as"
      "pm_cancelled pm \<longrightarrow> on \<longrightarrow> list_all (\<lambda>a. \<exists>secure. a = AcceptedConn secure) as"
      "pm_storage pm' = pm_storage ?pm1" "pm_cancelled pm' = pm_cancelled ?pm1" "\<not> pm_cancelled ?pm1 \<longrightarrow> on"
      by (auto simp: h1(5))
    with h1 AcceptedConn show ?thesis by (intro conjI exI [of _ "hs1 @ hs"]) auto
  qed
qed

lemma one_connection_accepted:
  assumes "one_connection_each pm" "\<And>pub. secure False = Inr pub \<Longrightarrow> live pm (hex_EncodeToString pub) = {}"
  shows "one_connection_each (fst (accept_pass (AcceptedConn secure) pm))"
  using assms(1) one_connection_connected [OF assms(1) assms(2)]
  by (cases "secure False") (simp_all add: accept_pass_def handleIncoming_def split_def Let_def)

text \<open>
  A key that connects again: the end of its first session removes the entry of the second, which then
  runs on uncounted, gets no Have and survives \<open>Close\<close>.
\<close>

lemma reconnection_is_lost:
  assumes "fst (peer_connected pub pm) = pm1" "fst (peer_connected pub pm1) = pm2"
    and "i = length (pm_handlers pm)" "pm' = peer_ended i pm2"
  shows "pm_conns pm' (hex_EncodeToString pub) = None"
    and "ph_running (pm_handlers pm' ! Suc i)" "\<not> ph_closed (pm_handlers (pm_Close pm') ! Suc i)"
    and "pm_handlers (BroadcastHave len pm') ! Suc i = pm_handlers pm' ! Suc i"
  using assms
  by (auto simp: peer_connected_def peer_ended_def pm_Close_def BroadcastHave_def Let_def nth_append nth_list_update)

end
