(* ===== verification/Go_Base64.thy ===== *)
theory Go_Base64
  imports Go_Net
begin

section \<open>Standard base64 (encoding/base64)\<close>

text \<open>
  \<open>base64.StdEncoding\<close> as the gateway uses it: \<open>EncodeToString\<close>, and \<open>DecodeString\<close>, which skips
  line breaks, demands padding, and on a corrupt input returns the bytes decoded before it together
  with an error (here \<open>False\<close>).
\<close>

definition b64_alphabet :: string where
  "b64_alphabet = ''ABCDEFGHIJKLMNOPQRSTUVWXYZabcdefghijklmnopqrstuvwxyz0123456789+/''"

definition b64_char :: "nat \<Rightarrow> char" where "b64_char n = b64_alphabet ! n"
definition b64_val :: "char \<Rightarrow> nat option" where "b64_val c = first_index (\<lambda>x. x = c) b64_alphabet"

fun b64_sextets :: "nat list \<Rightarrow> nat list" where
  "b64_sextets [a] = [a div 4, (a mod 4) * 16]"
| "b64_sextets [a, b] = [a div 4, (a mod 4) * 16 + b div 16, (b mod 16) * 4]"
| "b64_sextets [a, b, c] = [a div 4, (a mod 4) * 16 + b div 16, (b mod 16) * 4 + c div 64, c mod 64]"
| "b64_sextets _ = []"

fun b64_encode :: "bytes \<Rightarrow> string" where
  "b64_encode [] = []"
| "b64_encode [a] = map b64_char (b64_sextets [unat a]) @ ''==''"
| "b64_encode [a, b] = map b64_char (b64_sextets [unat a, unat b]) @ ''=''"
| "b64_encode (a # b # c # r) = map b64_char (b64_sextets [unat a, unat b, unat c]) @ b64_encode r"

definition b64_byte1 :: "nat \<Rightarrow> nat \<Rightarrow> byte" where "b64_byte1 i j = of_nat (i * 4 + j div 16)"
definition b64_byte2 :: "nat \<Rightarrow> nat \<Rightarrow> byte" where "b64_byte2 j k = of_nat ((j mod 16) * 16 + k div 4)"
definition b64_byte3 :: "nat \<Rightarrow> nat \<Rightarrow> byte" where "b64_byte3 k l = of_nat ((k mod 4) * 64 + l)"

fun b64_quanta :: "string \<Rightarrow> bytes \<times> bool" where
  "b64_quanta [] = ([], True)"
| "b64_quanta (w # x # y # z # r) =
     (case (b64_val w, b64_val x) of
        (Some i, Some j) \<Rightarrow>
          (case b64_val y of
             Some k \<Rightarrow>
               (case b64_val z of
                  Some l \<Rightarrow> (let (bs, ok) = b64_quanta r in (b64_byte1 i j # b64_byte2 j k # b64_byte3 k l # bs, ok))
                | None \<Rightarrow> if z = CHR ''='' then ([b64_byte1 i j, b64_byte2 j k], r = []) else ([], False))
           | None \<Rightarrow> if y = CHR ''='' \<and> z = CHR ''='' then ([b64_byte1 i j], r = []) else ([], False))
      | _ \<Rightarrow> ([], False))"
| "b64_quanta _ = ([], False)"

definition b64_decode :: "string \<Rightarrow> bytes \<times> bool" where
  "b64_decode s = b64_quanta (filter (\<lambda>c. c \<noteq> CHR 0x0D \<and> c \<noteq> CHR 0x0A) s)"

subsection \<open>Round trip\<close>

lemma b64_table: "list_all (\<lambda>n. b64_val (b64_char n) = Some n \<and> b64_char n \<notin> {CHR 0x0D, CHR 0x0A}) [0..<64]"
  by code_simp

lemma b64_val_char [simp]: "n < 64 \<Longrightarrow> b64_val (b64_char n) = Some n"
  and b64_char_break [simp]: "n < 64 \<Longrightarrow> b64_char n \<noteq> CHR 0x0D" "n < 64 \<Longrightarrow> b64_char n \<noteq> CHR 0x0A"
  using b64_table by (auto simp: list_all_iff)

lemma b64_val_pad [simp]: "b64_val CHR ''='' = None"
  by code_simp

lemma unat_byte_div: "unat (a :: byte) div 4 < 64" "unat a div 16 < 16" "unat a div 64 < 4"
  using unat_byte_less [of a] by linarith+

lemma b64_bytes:
  fixes a b c :: byte
  shows "b64_byte1 (unat a div 4) ((unat a mod 4) * 16 + unat b div 16) = a"
    "b64_byte1 (unat a div 4) ((unat a mod 4) * 16) = a"
    "b64_byte2 ((unat a mod 4) * 16 + unat b div 16) ((unat b mod 16) * 4 + unat c div 64) = b"
    "b64_byte2 ((unat a mod 4) * 16 + unat b div 16) ((unat b mod 16) * 4) = b"
    "b64_byte3 ((unat b mod 16) * 4 + unat c div 64) (unat c mod 64) = c"
proof -
  have 1: "unat a div 4 * 4 + ((unat a mod 4) * 16 + unat b div 16) div 16 = unat a"
    "unat a div 4 * 4 + ((unat a mod 4) * 16) div 16 = unat a"
    using unat_byte_div(2) [of b] by simp_all
  have 2: "((unat a mod 4) * 16 + unat b div 16) mod 16 * 16 + ((unat b mod 16) * 4 + unat c div 64) div 4 = unat b"
    "((unat a mod 4) * 16 + unat b div 16) mod 16 * 16 + ((unat b mod 16) * 4) div 4 = unat b"
    using unat_byte_div(2) [of b] unat_byte_div(3) [of c] by simp_all
  have 3: "((unat b mod 16) * 4 + unat c div 64) mod 4 * 64 + unat c mod 64 = unat c"
    using unat_byte_div(3) [of c] by simp
  show "b64_byte1 (unat a div 4) ((unat a mod 4) * 16 + unat b div 16) = a"
    "b64_byte1 (unat a div 4) ((unat a mod 4) * 16) = a"
    "b64_byte2 ((unat a mod 4) * 16 + unat b div 16) ((unat b mod 16) * 4 + unat c div 64) = b"
    "b64_byte2 ((unat a mod 4) * 16 + unat b div 16) ((unat b mod 16) * 4) = b"
    "b64_byte3 ((unat b mod 16) * 4 + unat c div 64) (unat c mod 64) = c"
    unfolding b64_byte1_def b64_byte2_def b64_byte3_def 1 2 3 by simp_all
qed

lemma b64_sextets_less:
  fixes a b c :: byte
  shows "(unat a mod 4) * 16 < 64" "(unat a mod 4) * 16 + unat b div 16 < 64" "(unat b mod 16) * 4 < 64"
    "(unat b mod 16) * 4 + unat c div 64 < 64" "unat c mod 64 < 64"
  using unat_byte_div [of b] unat_byte_div [of c] mod_less_divisor [of 4 "unat a"] mod_less_divisor [of 16 "unat b"]
  by linarith+

lemma b64_encode_no_break: "filter (\<lambda>c. c \<noteq> CHR 0x0D \<and> c \<noteq> CHR 0x0A) (b64_encode b) = b64_encode b"
  by (induction b rule: b64_encode.induct) (simp_all add: b64_sextets_less unat_byte_div)

lemma b64_roundtrip [simp]: "b64_decode (b64_encode b) = (b, True)"
  unfolding b64_decode_def b64_encode_no_break
  by (induction b rule: b64_encode.induct) (simp_all add: b64_sextets_less unat_byte_div b64_bytes)

end
