(* ===== verification/Ipc_Client.thy ===== *)
theory Ipc_Client
  imports Dht_Node Hyper_Storage Go_Base64 Db_Bolt
begin

section \<open>The IPC socket of the gateway (pkg/ipc/socket.go)\<close>

text \<open>
  Local clients send one JSON object per command over a socket; a handler per client authenticates
  it against the whitelist and executes its commands on the node, the registry, the block storage
  and the database, all of which may be absent. A notification goes to every registered client.

  JSON values are as \<open>encoding/json\<close> decodes them into \<open>interface\<lbrace>\<rbrace>\<close>; a \<open>float64\<close> is an opaque \<open>'f\<close>.
  The decoder's results are the events of a run; \<open>json.Unmarshal\<close> of a block and the conversion of
  a float to \<open>uint64\<close> are parameters.
\<close>

datatype 'f json =
    JNull
  | JBool bool
  | JNumber 'f
  | JString string
  | JArray "'f json list"
  | JObject "(string \<times> 'f json) list"

type_synonym 'f object = "string \<Rightarrow> 'f json option"

text \<open>A reply or notification, in the order of the code's map literal.\<close>

datatype 'f rvalue = RString string | RUint u64 | RError string error | RJson "'f json option"

type_synonym 'f message = "(string \<times> 'f rvalue) list"

record ('w, 'f) ipc_env =
  ie_net :: "'w network"
  ie_sum256 :: "bytes \<Rightarrow> bytes"
  ie_unmarshal :: "bytes \<Rightarrow> 'f object option"
  ie_uint64 :: "'f \<Rightarrow> u64"

record ('w, 's, 'r, 'f) gateway =
  gw_node :: "dht_node option"
  gw_reg :: "swarm_registry option"
  gw_store :: "storage option"
  gw_swarmRepo :: "('s swarm_repo \<times> 's) option"
  gw_blockRepo :: "('r block_repo \<times> 'r) option"
  gw_world :: 'w
  gw_clients :: "nat list"
  gw_sent :: "(nat \<times> 'f message) list"

text \<open>The value of \<open>s, _ := req[k].(string)\<close>.\<close>

definition req_string :: "'f object \<Rightarrow> string \<Rightarrow> string" where
  "req_string req k = (case req k of Some (JString s) \<Rightarrow> s | _ \<Rightarrow> [])"

definition isWhitelisted :: "string \<Rightarrow> string list \<Rightarrow> bool" where
  "isWhitelisted key whitelist = (if whitelist = [] then True else key \<in> set whitelist)"

subsection \<open>Client registry and notifications\<close>

definition Register :: "nat \<Rightarrow> ('w, 's, 'r, 'f) gateway \<Rightarrow> ('w, 's, 'r, 'f) gateway" where
  "Register c g = g\<lparr>gw_clients := (if c \<in> set (gw_clients g) then gw_clients g else gw_clients g @ [c])\<rparr>"

definition Unregister :: "nat \<Rightarrow> ('w, 's, 'r, 'f) gateway \<Rightarrow> ('w, 's, 'r, 'f) gateway" where
  "Unregister c g = g\<lparr>gw_clients := filter (\<lambda>d. d \<noteq> c) (gw_clients g)\<rparr>"

text \<open>The order of the clients is that of a Go map, unspecified; a failed send is only logged.\<close>

definition Broadcast :: "'f message \<Rightarrow> ('w, 's, 'r, 'f) gateway \<Rightarrow> ('w, 's, 'r, 'f) gateway" where
  "Broadcast msg g = g\<lparr>gw_sent := gw_sent g @ map (\<lambda>c. (c, msg)) (gw_clients g)\<rparr>"

definition BroadcastChatMessage ::
  "('w, 'f) ipc_env \<Rightarrow> string \<Rightarrow> u64 \<Rightarrow> bytes \<Rightarrow> ('w, 's, 'r, 'f) gateway \<Rightarrow> ('w, 's, 'r, 'f) gateway" where
  "BroadcastChatMessage E feedKey index value g =
     (case ie_unmarshal E value of None \<Rightarrow> g
      | Some payload \<Rightarrow>
          if payload ''sender'' \<noteq> None \<and> payload ''timestamp'' \<noteq> None \<and> payload ''content'' \<noteq> None
          then Broadcast [(''command'', RString ''chat_message_received''), (''feed_key'', RString feedKey),
                 (''index'', RUint index), (''sender'', RJson (payload ''sender'')),
                 (''timestamp'', RJson (payload ''timestamp'')), (''content'', RJson (payload ''content''))] g
          else g)"

subsection \<open>Commands\<close>

definition success :: "string \<Rightarrow> 'f message \<Rightarrow> 'f message" where
  "success cmd extra = (''status'', RString ''success'') # (''command'', RString cmd) # extra"

definition failure :: "string \<Rightarrow> 'f rvalue \<Rightarrow> 'f message" where
  "failure cmd err = [(''status'', RString ''error''), (''command'', RString cmd), (''error'', err)]"

definition reg_register :: "node_id \<Rightarrow> string \<Rightarrow> ('w, 's, 'r, 'f) gateway \<Rightarrow> ('w, 's, 'r, 'f) gateway" where
  "reg_register key addr g = g\<lparr>gw_reg := map_option (\<lambda>r. RegisterPeer r key addr) (gw_reg g)\<rparr>"

text \<open>Announce the topic, look up its peers and register them; \<open>None\<close> if a lookup does not return.\<close>

definition join_dht ::
  "('w, 'f) ipc_env \<Rightarrow> node_id \<Rightarrow> ('w, 's, 'r, 'f) gateway \<Rightarrow> ('w, 's, 'r, 'f) gateway option" where
  "join_dht E key g =
     (case gw_node g of None \<Rightarrow> Some g
      | Some n \<Rightarrow>
          let p2pPort = (case gw_reg g of None \<Rightarrow> 0 | Some r \<Rightarrow> sr_P2PPort r) in
          (case Announce (ie_net E) n key p2pPort (gw_world g) of None \<Rightarrow> None
           | Some (n1, w1) \<Rightarrow>
               (case Lookup (ie_net E) n1 key w1 of None \<Rightarrow> None
                | Some (peers, n2, w2) \<Rightarrow>
                    Some (fold (reg_register key) peers (g\<lparr>gw_node := Some n2, gw_world := w2\<rparr>)))))"

definition cmd_join ::
  "('w, 'f) ipc_env \<Rightarrow> 'f object \<Rightarrow> string \<Rightarrow> ('w, 's, 'r, 'f) gateway \<Rightarrow> (('w, 's, 'r, 'f) gateway \<times> 'f message) option" where
  "cmd_join E req peerKey g =
     (let topic = req_string req ''topic'' in
      case ResolveTopicKey (ie_sum256 E) topic of
        Inl e \<Rightarrow> Some (g, failure ''join_swarm'' (RError ''invalid topic'' e))
      | Inr key \<Rightarrow>
          let g1 = reg_register key peerKey g;
              g2 = g1\<lparr>gw_swarmRepo := map_option (\<lambda>(R, s). (R, fst (RegisterSwarm R s (hex_EncodeToString key) topic))) (gw_swarmRepo g1)\<rparr>
          in (case join_dht E key g2 of None \<Rightarrow> None
              | Some g3 \<Rightarrow> Some (g3, success ''join_swarm''
                  [(''topic'', RString topic), (''resolved_topic_key'', RString (hex_EncodeToString key))])))"

definition cmd_leave ::
  "('w, 'f) ipc_env \<Rightarrow> 'f object \<Rightarrow> ('w, 's, 'r, 'f) gateway \<Rightarrow> (('w, 's, 'r, 'f) gateway \<times> 'f message) option" where
  "cmd_leave E req g =
     (let topic = req_string req ''topic''; resp = success ''leave_swarm'' [(''topic'', RString topic)] in
      case ResolveTopicKey (ie_sum256 E) topic of
        Inl e \<Rightarrow> Some (g, resp)
      | Inr key \<Rightarrow>
          (case (case gw_node g of None \<Rightarrow> Some g
                 | Some n \<Rightarrow> (case Leave (ie_net E) n key (gw_world g) of None \<Rightarrow> None
                     | Some (n1, w1) \<Rightarrow> Some (g\<lparr>gw_node := Some n1, gw_world := w1\<rparr>))) of
             None \<Rightarrow> None
           | Some g1 \<Rightarrow>
               Some (g1\<lparr>gw_reg := map_option (\<lambda>r. ClearSwarm r key) (gw_reg g1),
                        gw_swarmRepo := map_option (\<lambda>(R, s). (R, fst (UnregisterSwarm R s (hex_EncodeToString key)))) (gw_swarmRepo g1)\<rparr>,
                     resp)))"

definition req_feed_key :: "'f object \<Rightarrow> string" where
  "req_feed_key req = (let k = req_string req ''feed_key'' in if k = [] then ''default_feed'' else k)"

definition req_signature :: "'f object \<Rightarrow> bytes option" where
  "req_signature req = (case req ''signature'' of Some (JString s) \<Rightarrow> Some (fst (b64_decode s)) | _ \<Rightarrow> None)"

text \<open>
  \<open>append_block\<close> reads the length and appends in two steps, each under the storage's lock but not
  together: \<open>append_at\<close> is what follows \<open>currIndex := store.Len()\<close>.
\<close>

definition append_at ::
  "('w, 'f) ipc_env \<Rightarrow> write_fault \<times> write_fault \<Rightarrow> 'f object \<Rightarrow> bytes \<Rightarrow> u64 \<Rightarrow> storage \<Rightarrow>
     ('w, 's, 'r, 'f) gateway \<Rightarrow> ('w, 's, 'r, 'f) gateway \<times> 'f message" where
  "append_at E ff req decoded currIndex store g =
     (case storage_append (fst ff) (snd ff) store decoded of
        (st, Some e) \<Rightarrow> (g\<lparr>gw_store := Some st\<rparr>, failure ''append_block'' (RError ''failed to append'' e))
      | (st, None) \<Rightarrow>
          let feedKey = req_feed_key req;
              g1 = g\<lparr>gw_store := Some st,
                     gw_blockRepo := map_option (\<lambda>(R, r). (R, fst (PutBlock R r feedKey currIndex decoded (req_signature req)))) (gw_blockRepo g)\<rparr>
          in (BroadcastChatMessage E feedKey currIndex decoded g1,
              success ''append_block'' [(''index'', RUint currIndex)]))"

definition cmd_append ::
  "('w, 'f) ipc_env \<Rightarrow> write_fault \<times> write_fault \<Rightarrow> 'f object \<Rightarrow> ('w, 's, 'r, 'f) gateway \<Rightarrow>
     ('w, 's, 'r, 'f) gateway \<times> 'f message" where
  "cmd_append E ff req g =
     (case gw_store g of None \<Rightarrow> (g, failure ''append_block'' (RString ''storage not initialized''))
      | Some store \<Rightarrow>
          (case b64_decode (req_string req ''data'') of
             (_, False) \<Rightarrow> (g, failure ''append_block'' (RString ''invalid base64''))
           | (decoded, True) \<Rightarrow> append_at E ff req decoded (storage_len store) store g))"

definition req_index :: "('w, 'f) ipc_env \<Rightarrow> 'f json \<Rightarrow> u64" where
  "req_index E v = (case v of JNumber f \<Rightarrow> ie_uint64 E f | _ \<Rightarrow> 0)"

definition get_cached :: "'f object \<Rightarrow> u64 \<Rightarrow> ('w, 's, 'r, 'f) gateway \<Rightarrow> bytes result \<Rightarrow> bytes result" where
  "get_cached req index g res =
     (case res of Inr b \<Rightarrow> Inr b
      | Inl e \<Rightarrow>
          (case gw_blockRepo g of None \<Rightarrow> Inl e
           | Some (R, r) \<Rightarrow>
               (case GetBlock R r (req_feed_key req) index of Inl _ \<Rightarrow> Inl e | Inr (val, _) \<Rightarrow> Inr val)))"

definition cmd_get :: "('w, 'f) ipc_env \<Rightarrow> 'f object \<Rightarrow> ('w, 's, 'r, 'f) gateway \<Rightarrow> 'f message" where
  "cmd_get E req g =
     (case (req ''index'', gw_store g) of
        (Some v, Some store) \<Rightarrow>
          let index = req_index E v in
          (case get_cached req index g (storage_get store index) of
             Inl e \<Rightarrow> failure ''get_block'' (RError ''failed to get block'' e)
           | Inr block \<Rightarrow> success ''get_block'' [(''data'', RString (b64_encode block))])
      | _ \<Rightarrow> failure ''get_block'' (RString ''invalid request or storage not initialized''))"

definition exec_command ::
  "('w, 'f) ipc_env \<Rightarrow> write_fault \<times> write_fault \<Rightarrow> 'f object \<Rightarrow> ('w, 's, 'r, 'f) gateway \<Rightarrow>
     (('w, 's, 'r, 'f) gateway \<times> 'f message) option" where
  "exec_command E ff req g =
     (let cmd = req_string req ''command'' in
      if cmd = ''auth'' then Some (g, success ''auth'' [])
      else if cmd = ''join_swarm'' then cmd_join E req (req_string req ''peer_key'') g
      else if cmd = ''leave_swarm'' then cmd_leave E req g
      else if cmd = ''append_block'' then Some (cmd_append E ff req g)
      else if cmd = ''get_block'' then Some (g, cmd_get E req g)
      else Some (g, [(''status'', RString ''acknowledged''), (''origin'', RString ''keet_peer'')]))"

subsection \<open>HandleClient\<close>

text \<open>
  One iteration of the loop: the context is cancelled, the decoder fails, or it returns an object,
  with the outcome of the storage writes and of sending the reply. The status is the value of
  \<open>authenticated\<close>, or \<open>None\<close> when the handler has returned.
\<close>

datatype 'f ipc_event = CtxDone | DecodeFails | Decoded "'f object" "write_fault \<times> write_fault" bool

definition reply :: "nat \<Rightarrow> bool \<Rightarrow> 'f message \<Rightarrow> ('w, 's, 'r, 'f) gateway \<Rightarrow> ('w, 's, 'r, 'f) gateway" where
  "reply c sent msg g = (if sent then g\<lparr>gw_sent := gw_sent g @ [(c, msg)]\<rparr> else g)"

definition unauthorized :: "'f object \<Rightarrow> 'f message" where
  "unauthorized req = failure (req_string req ''command'')
     (RString ''unauthorized client public key or authentication required'')"

definition presents_key :: "string list \<Rightarrow> 'f object \<Rightarrow> bool" where
  "presents_key whitelist req \<longleftrightarrow>
     (let peerKey = req_string req ''peer_key'' in peerKey \<noteq> [] \<and> isWhitelisted peerKey whitelist)"

definition client_step ::
  "('w, 'f) ipc_env \<Rightarrow> nat \<Rightarrow> string list \<Rightarrow> 'f ipc_event \<Rightarrow> bool \<Rightarrow> ('w, 's, 'r, 'f) gateway \<Rightarrow>
     (bool option \<times> ('w, 's, 'r, 'f) gateway) option" where
  "client_step E c whitelist ev authenticated g =
     (case ev of
        CtxDone \<Rightarrow> Some (None, Unregister c g)
      | DecodeFails \<Rightarrow> Some (None, Unregister c g)
      | Decoded req ff sent \<Rightarrow>
          let auth = authenticated \<or> presents_key whitelist req in
          if \<not> auth then Some (None, Unregister c (reply c sent (unauthorized req) g))
          else (case exec_command E ff req g of None \<Rightarrow> None
                | Some (g1, resp) \<Rightarrow>
                    let g2 = reply c sent resp g1 in
                    if sent then Some (Some auth, g2) else Some (None, Unregister c g2)))"

fun client_loop ::
  "('w, 'f) ipc_env \<Rightarrow> nat \<Rightarrow> string list \<Rightarrow> 'f ipc_event list \<Rightarrow> bool \<Rightarrow> ('w, 's, 'r, 'f) gateway \<Rightarrow>
     (bool option \<times> ('w, 's, 'r, 'f) gateway) option" where
  "client_loop E c whitelist [] authenticated g = Some (Some authenticated, g)"
| "client_loop E c whitelist (ev # evs) authenticated g =
     (case client_step E c whitelist ev authenticated g of
        None \<Rightarrow> None
      | Some (None, g1) \<Rightarrow> Some (None, g1)
      | Some (Some auth, g1) \<Rightarrow> client_loop E c whitelist evs auth g1)"

definition HandleClient ::
  "('w, 'f) ipc_env \<Rightarrow> nat \<Rightarrow> string list \<Rightarrow> 'f ipc_event list \<Rightarrow> ('w, 's, 'r, 'f) gateway \<Rightarrow>
     (bool option \<times> ('w, 's, 'r, 'f) gateway) option" where
  "HandleClient E c whitelist evs g = client_loop E c whitelist evs (whitelist = []) (Register c g)"

subsection \<open>Authentication\<close>

lemma reply_simps [simp]:
  "gw_node (reply c b m g) = gw_node g" "gw_reg (reply c b m g) = gw_reg g" "gw_store (reply c b m g) = gw_store g"
  "gw_swarmRepo (reply c b m g) = gw_swarmRepo g" "gw_blockRepo (reply c b m g) = gw_blockRepo g"
  "gw_world (reply c b m g) = gw_world g" "gw_clients (reply c b m g) = gw_clients g"
  "gw_sent (reply c b m g) = gw_sent g @ (if b then [(c, m)] else [])"
  by (simp_all add: reply_def)

lemma client_registry_simps [simp]:
  "gw_node (Register c g) = gw_node g" "gw_reg (Register c g) = gw_reg g" "gw_store (Register c g) = gw_store g"
  "gw_swarmRepo (Register c g) = gw_swarmRepo g" "gw_blockRepo (Register c g) = gw_blockRepo g"
  "gw_world (Register c g) = gw_world g" "gw_sent (Register c g) = gw_sent g"
  "gw_node (Unregister c g) = gw_node g" "gw_reg (Unregister c g) = gw_reg g" "gw_store (Unregister c g) = gw_store g"
  "gw_swarmRepo (Unregister c g) = gw_swarmRepo g" "gw_blockRepo (Unregister c g) = gw_blockRepo g"
  "gw_world (Unregister c g) = gw_world g" "gw_sent (Unregister c g) = gw_sent g"
  by (simp_all add: Register_def Unregister_def)

definition untouched :: "('w, 's, 'r, 'f) gateway \<Rightarrow> ('w, 's, 'r, 'f) gateway \<Rightarrow> bool" where
  "untouched g g' \<longleftrightarrow> gw_node g' = gw_node g \<and> gw_reg g' = gw_reg g \<and> gw_store g' = gw_store g \<and>
     gw_swarmRepo g' = gw_swarmRepo g \<and> gw_blockRepo g' = gw_blockRepo g \<and> gw_world g' = gw_world g"


definition no_ipc :: "(unit, nat) ipc_env" where
  "no_ipc = \<lparr>ie_net = \<lparr>nw_rpc = (\<lambda>w a m. (Inl EOF, w)), nw_tx = (\<lambda>w. (replicate 4 0, w)),
      nw_resolve = (\<lambda>s. Inr (OtherAddr s)), nw_order = (\<lambda>w xs. xs)\<rparr>,
     ie_sum256 = (\<lambda>b. replicate 32 9), ie_unmarshal = (\<lambda>b. None), ie_uint64 = of_nat\<rparr>"

definition local_gateway :: "(unit, unit, unit, nat) gateway" where
  "local_gateway = \<lparr>gw_node = None, gw_reg = Some NewSwarmRegistry, gw_store = Some empty_storage,
     gw_swarmRepo = None, gw_blockRepo = None, gw_world = (), gw_clients = [], gw_sent = []\<rparr>"

definition join_request :: "nat object" where
  "join_request = [''command'' \<mapsto> JString ''join_swarm'', ''topic'' \<mapsto> JString ''chat'', ''peer_key'' \<mapsto> JString ''abc'']"


subsection \<open>Blocks\<close>

lemma Broadcast_simps [simp]:
  "gw_node (BroadcastChatMessage E f i v g) = gw_node g" "gw_reg (BroadcastChatMessage E f i v g) = gw_reg g"
  "gw_store (BroadcastChatMessage E f i v g) = gw_store g" "gw_swarmRepo (BroadcastChatMessage E f i v g) = gw_swarmRepo g"
  "gw_blockRepo (BroadcastChatMessage E f i v g) = gw_blockRepo g" "gw_world (BroadcastChatMessage E f i v g) = gw_world g"
  by (simp_all add: BroadcastChatMessage_def Broadcast_def split: option.splits)

lemma append_at_ok:
  assumes "storage_inv st" "storage_room st b"
  shows "\<exists>g1. append_at E (None, None) req b i st g = (g1, success ''append_block'' [(''index'', RUint i)]) \<and>
    gw_store g1 = Some (fst (storage_append None None st b)) \<and> gw_node g1 = gw_node g \<and> gw_reg g1 = gw_reg g \<and>
    gw_blockRepo g1 = map_option (\<lambda>(R, r). (R, fst (PutBlock R r (req_feed_key req) i b (req_signature req)))) (gw_blockRepo g)"
proof -
  obtain st' where "storage_append None None st b = (st', None)"
    using hc_log.append_ok [OF assms] by (metis surjective_pairing)
  then show ?thesis by (simp add: append_at_def Let_def)
qed

lemma cmd_append_ok:
  assumes "gw_store g = Some st" "storage_inv st" "storage_room st b" "req ''data'' = Some (JString (b64_encode b))"
  shows "\<exists>g1. cmd_append E (None, None) req g = (g1, success ''append_block'' [(''index'', RUint (storage_len st))]) \<and>
    gw_store g1 = Some (fst (storage_append None None st b))"
  using append_at_ok [OF assms(2,3), where E = E and req = req and i = "storage_len st" and g = g] assms(1,4)
  by (auto simp: cmd_append_def req_string_def)

text \<open>
  What is appended can be read. When a client appends a block the storage has room for, the reply
  is the index after the last block, and a \<open>get_block\<close> for that index returns the same base64 text.
\<close>

lemma append_block_then_get_block:
  assumes "gw_store g = Some st" "storage_inv st" "storage_room st b"
    and "req ''command'' = Some (JString ''append_block'')" "req ''data'' = Some (JString (b64_encode b))"
    and "req' ''command'' = Some (JString ''get_block'')" "req' ''index'' = Some (JNumber f)"
    and "ie_uint64 E f = storage_len st"
  shows "\<exists>g1 g2. client_step E c wl (Decoded req (None, None) True) True g = Some (Some True, g1) \<and>
    last (gw_sent g1) = (c, success ''append_block'' [(''index'', RUint (storage_len st))]) \<and>
    client_step E c wl (Decoded req' ff True) True g1 = Some (Some True, g2) \<and>
    last (gw_sent g2) = (c, success ''get_block'' [(''data'', RString (b64_encode b))])"
proof -
  obtain g1 where g1: "cmd_append E (None, None) req g = (g1, success ''append_block'' [(''index'', RUint (storage_len st))])"
    "gw_store g1 = Some (fst (storage_append None None st b))"
    using cmd_append_ok [where E = E and req = req and g = g and st = st and b = b] assms(1-3,5) by blast
  have "client_step E c wl (Decoded req (None, None) True) True g =
      Some (Some True, reply c True (success ''append_block'' [(''index'', RUint (storage_len st))]) g1)"
    using assms(4) g1(1) by (simp add: client_step_def exec_command_def req_string_def)
  moreover have "cmd_get E req' (reply c True m g1) = success ''get_block'' [(''data'', RString (b64_encode b))]" for m
    using g1(2) assms(7,8) hc_log.get_appended [OF assms(2,3)]
    by (simp add: cmd_get_def req_index_def get_cached_def)
  ultimately show ?thesis using assms(6) by (simp add: client_step_def exec_command_def req_string_def)
qed

text \<open>
  Concurrent appends share an index. Two clients that both read the length before either appends
  are both told that index, and both blocks are cached in the database under it, although the second
  block is at the next index of the storage.
\<close>

lemma concurrent_appends_share_index:
  assumes "gw_store g = Some st" "storage_inv st" "storage_room st b1"
    and "storage_room (fst (storage_append None None st b1)) b2"
    and "append_at E (None, None) req1 b1 (storage_len st) st g = (g1, m1)"
    and "gw_store g1 = Some st1" "append_at E (None, None) req2 b2 (storage_len st) st1 g1 = (g2, m2)"
    and "gw_blockRepo g = Some (R, r)"
  shows "m1 = success ''append_block'' [(''index'', RUint (storage_len st))] \<and> m2 = m1 \<and>
    (\<exists>st2. gw_store g2 = Some st2 \<and> blocks_of st2 = blocks_of st @ [b1, b2]) \<and>
    gw_blockRepo g2 = Some (R, fst (PutBlock R (fst (PutBlock R r (req_feed_key req1) (storage_len st) b1 (req_signature req1)))
      (req_feed_key req2) (storage_len st) b2 (req_signature req2)))"
proof -
  let ?st1 = "fst (storage_append None None st b1)"
  from append_at_ok [OF assms(2,3), where E = E and req = req1 and i = "storage_len st" and g = g] assms(5,8)
  have a: "m1 = success ''append_block'' [(''index'', RUint (storage_len st))]" "gw_store g1 = Some ?st1"
    "gw_blockRepo g1 = Some (R, fst (PutBlock R r (req_feed_key req1) (storage_len st) b1 (req_signature req1)))"
    by auto
  have inv: "storage_inv ?st1" "blocks_of ?st1 = blocks_of st @ [b1]"
    using hc_log.inv_append [OF assms(2,3)] hc_log.blocks_append [OF assms(2,3)] by simp_all
  have st1: "st1 = ?st1" using a(2) assms(6) by simp
  from append_at_ok [OF inv(1) assms(4), where E = E and req = req2 and i = "storage_len st" and g = g1]
    assms(7) [unfolded st1] a(3)
  have "m2 = m1" "gw_store g2 = Some (fst (storage_append None None ?st1 b2))"
    "gw_blockRepo g2 = Some (R, fst (PutBlock R (fst (PutBlock R r (req_feed_key req1) (storage_len st) b1 (req_signature req1)))
      (req_feed_key req2) (storage_len st) b2 (req_signature req2)))"
    using a(1) by auto
  with a(1) inv(2) hc_log.blocks_append [OF inv(1) assms(4)] show ?thesis by simp
qed

definition caching_gateway :: "(unit, unit, mem_db, nat) gateway" where
  "caching_gateway = \<lparr>gw_node = None, gw_reg = None, gw_store = Some empty_storage, gw_swarmRepo = None,
     gw_blockRepo = Some (bolt_block_repo mem_bolt, []), gw_world = (), gw_clients = [], gw_sent = []\<rparr>"

subsection \<open>Commands always return\<close>

definition gateway_inv :: "('w, 's, 'r, 'f) gateway \<Rightarrow> bool" where
  "gateway_inv g \<longleftrightarrow> (\<forall>n. gw_node g = Some n \<longrightarrow> node_inv n) \<and> (\<forall>r. gw_reg g = Some r \<longrightarrow> registry_inv r)"

definition ipc_env_ok :: "('w, 'f) ipc_env \<Rightarrow> bool" where
  "ipc_env_ok E \<longleftrightarrow> network_ok (ie_net E) \<and> (\<forall>x. length (ie_sum256 E x) = 32)"

lemma resolved_key_length:
  "ipc_env_ok E \<Longrightarrow> ResolveTopicKey (ie_sum256 E) topic = Inr key \<Longrightarrow> length key = 32"
  by (auto simp: ipc_env_ok_def ResolveTopicKey_def split: if_splits option.splits sum.splits)

lemma reg_register_simps [simp]:
  "gw_node (reg_register k a g) = gw_node g"
  "gw_reg (reg_register k a g) = map_option (\<lambda>r. RegisterPeer r k a) (gw_reg g)"
  by (simp_all add: reg_register_def)

lemma fold_reg_register_simps:
  "gw_node (fold (reg_register k) as g) = gw_node g"
  "gw_reg (fold (reg_register k) as g) = map_option (fold (\<lambda>a r. RegisterPeer r k a) as) (gw_reg g)"
  by (induction as arbitrary: g) (simp_all add: option.map_comp comp_def option.map_id)

lemma gateway_inv_intro:
  "(\<And>n. gw_node g = Some n \<Longrightarrow> node_inv n) \<Longrightarrow> (\<And>r. gw_reg g = Some r \<Longrightarrow> registry_inv r) \<Longrightarrow> gateway_inv g"
  by (simp add: gateway_inv_def)

lemma join_dht_total:
  assumes "ipc_env_ok E" "gateway_inv g" "length key = 32"
  shows "\<exists>g'. join_dht E key g = Some g' \<and> gateway_inv g' \<and>
    (\<exists>peers. gw_reg g' = map_option (fold (\<lambda>a r. RegisterPeer r key a) peers) (gw_reg g))"
proof (cases "gw_node g")
  case None
  then have "join_dht E key g = Some g" "gw_reg g = map_option (fold (\<lambda>a r. RegisterPeer r key a) []) (gw_reg g)"
    by (simp_all add: join_dht_def option.map_id)
  with assms(2) show ?thesis by blast
next
  case (Some n)
  let ?port = "case gw_reg g of None \<Rightarrow> 0 | Some r \<Rightarrow> sr_P2PPort r"
  have N: "network_ok (ie_net E)" "node_inv n" using assms(1,2) Some by (simp_all add: ipc_env_ok_def gateway_inv_def)
  obtain n1 w1 where a: "Announce (ie_net E) n key ?port (gw_world g) = Some (n1, w1)" "node_inv n1"
    using Announce_total [OF N assms(3)] by metis
  obtain peers n2 w2 where l: "Lookup (ie_net E) n1 key w1 = Some (peers, n2, w2)" "node_inv n2"
    using Lookup_total [OF N(1) a(2) assms(3)] by metis
  let ?g = "fold (reg_register key) peers (g\<lparr>gw_node := Some n2, gw_world := w2\<rparr>)"
  have r: "gw_reg ?g = map_option (fold (\<lambda>a r. RegisterPeer r key a) peers) (gw_reg g)"
    by (simp add: fold_reg_register_simps)
  have "gateway_inv ?g"
    by (rule gateway_inv_intro) (use l(2) r assms(2) registry.register_all in
      \<open>auto simp: fold_reg_register_simps gateway_inv_def\<close>)
  with a(1) l(1) r Some show ?thesis by (auto simp: join_dht_def Let_def)
qed

lemma cmd_join_total:
  assumes "ipc_env_ok E" "gateway_inv g"
  shows "\<exists>g' m. cmd_join E req p g = Some (g', m) \<and> gateway_inv g' \<and>
    (\<forall>key r. ResolveTopicKey (ie_sum256 E) (req_string req ''topic'') = Inr key \<longrightarrow> gw_reg g = Some r \<longrightarrow>
      (\<exists>r'. gw_reg g' = Some r' \<and> insert p (set (GetPeers r key)) \<subseteq> set (GetPeers r' key) \<and>
         (\<forall>u. u \<noteq> key \<longrightarrow> set (GetPeers r' u) = set (GetPeers r u))))"
proof (cases "ResolveTopicKey (ie_sum256 E) (req_string req ''topic'')")
  case (Inl e)
  then show ?thesis using assms(2) by (simp add: cmd_join_def)
next
  case (Inr key)
  define g2 where "g2 = (reg_register key p g)\<lparr>gw_swarmRepo :=
    map_option (\<lambda>(R, s). (R, fst (RegisterSwarm R s (hex_EncodeToString key) (req_string req ''topic'')))) (gw_swarmRepo (reg_register key p g))\<rparr>"
  have g2: "gw_node g2 = gw_node g" "gw_reg g2 = map_option (\<lambda>r. RegisterPeer r key p) (gw_reg g)"
    by (simp_all add: g2_def)
  have inv: "gateway_inv g2"
    by (rule gateway_inv_intro) (use g2 assms(2) registry.inv_register in \<open>auto simp: gateway_inv_def\<close>)
  obtain g' peers where j: "join_dht E key g2 = Some g'" "gateway_inv g'"
    "gw_reg g' = map_option (fold (\<lambda>a r. RegisterPeer r key a) peers) (gw_reg g2)"
    using join_dht_total [OF assms(1) inv resolved_key_length [OF assms(1) Inr]] by blast
  have c: "\<exists>m. cmd_join E req p g = Some (g', m)"
    using Inr j(1) by (simp add: cmd_join_def Let_def g2_def)
  have "\<exists>r'. gw_reg g' = Some r' \<and> insert p (set (GetPeers r key)) \<subseteq> set (GetPeers r' key) \<and>
      (\<forall>u. u \<noteq> key \<longrightarrow> set (GetPeers r' u) = set (GetPeers r u))" if "gw_reg g = Some r" for r
  proof -
    have i: "registry_inv r" "registry_inv (RegisterPeer r key p)"
      using that assms(2) registry.inv_register by (auto simp: gateway_inv_def)
    from registry.register_all [OF i(2)] show ?thesis
      using that j(3) g2(2) registry.peers_register [OF i(1)] by auto
  qed
  with c j(2) Inr show ?thesis by auto
qed

lemma cmd_leave_total:
  assumes "ipc_env_ok E" "gateway_inv g"
  shows "\<exists>g' m. cmd_leave E req g = Some (g', m) \<and> gateway_inv g' \<and>
    (\<forall>key r. ResolveTopicKey (ie_sum256 E) (req_string req ''topic'') = Inr key \<longrightarrow> gw_reg g' = Some r \<longrightarrow>
      GetPeers r key = [])"
proof (cases "ResolveTopicKey (ie_sum256 E) (req_string req ''topic'')")
  case (Inl e)
  then show ?thesis using assms(2) by (simp add: cmd_leave_def)
next
  case (Inr key)
  have "\<exists>g1. (case gw_node g of None \<Rightarrow> Some g
      | Some n \<Rightarrow> (case Leave (ie_net E) n key (gw_world g) of None \<Rightarrow> None
          | Some (n1, w1) \<Rightarrow> Some (g\<lparr>gw_node := Some n1, gw_world := w1\<rparr>))) = Some g1 \<and> gateway_inv g1"
  proof (cases "gw_node g")
    case None
    then show ?thesis using assms(2) by simp
  next
    case (Some n)
    have N: "network_ok (ie_net E)" "node_inv n" using assms(1,2) Some by (simp_all add: ipc_env_ok_def gateway_inv_def)
    obtain n1 w1 where "Leave (ie_net E) n key (gw_world g) = Some (n1, w1)" "node_inv n1"
      using Leave_total [OF N resolved_key_length [OF assms(1) Inr]] by metis
    with Some assms(2) show ?thesis by (simp add: gateway_inv_def)
  qed
  then obtain g1 where g1: "(case gw_node g of None \<Rightarrow> Some g
      | Some n \<Rightarrow> (case Leave (ie_net E) n key (gw_world g) of None \<Rightarrow> None
          | Some (n1, w1) \<Rightarrow> Some (g\<lparr>gw_node := Some n1, gw_world := w1\<rparr>))) = Some g1" "gateway_inv g1" by blast
  let ?g = "g1\<lparr>gw_reg := map_option (\<lambda>r. ClearSwarm r key) (gw_reg g1),
    gw_swarmRepo := map_option (\<lambda>(R, s). (R, fst (UnregisterSwarm R s (hex_EncodeToString key)))) (gw_swarmRepo g1)\<rparr>"
  have "gateway_inv ?g"
    by (rule gateway_inv_intro) (use g1(2) registry.inv_clear in \<open>auto simp: gateway_inv_def\<close>)
  moreover have "\<exists>m. cmd_leave E req g = Some (?g, m)" using Inr g1(1) by (simp add: cmd_leave_def Let_def)
  moreover have "GetPeers r key = []" if "gw_reg ?g = Some r" for r using that by (auto simp: GetPeers_clear)
  ultimately show ?thesis using Inr by auto
qed

lemma cmd_append_unchanged [simp]:
  "gw_node (fst (cmd_append E ff req g)) = gw_node g" "gw_reg (fst (cmd_append E ff req g)) = gw_reg g"
  by (auto simp: cmd_append_def append_at_def Let_def split: option.splits prod.splits bool.splits)

lemma exec_command_total:
  assumes "ipc_env_ok E" "gateway_inv g"
  shows "\<exists>g' m. exec_command E ff req g = Some (g', m) \<and> gateway_inv g'"
proof -
  obtain g1 m where c: "cmd_append E ff req g = (g1, m)" by force
  have a: "gateway_inv g1" using assms(2) cmd_append_unchanged [of E ff req g] by (simp add: gateway_inv_def c)
  show ?thesis
    using cmd_join_total [OF assms, of req "req_string req ''peer_key''"] cmd_leave_total [OF assms, of req] assms(2) a
    by (auto simp: exec_command_def Let_def c)
qed

lemma client_step_total:
  assumes "ipc_env_ok E" "gateway_inv g"
  shows "\<exists>st g'. client_step E c wl ev authd g = Some (st, g') \<and> gateway_inv g'"
proof (cases ev)
  case (Decoded req ff sent)
  obtain g1 m where "exec_command E ff req g = Some (g1, m)" "gateway_inv g1"
    using exec_command_total [OF assms] by blast
  with assms(2) Decoded show ?thesis by (simp add: client_step_def gateway_inv_def Let_def)
qed (use assms(2) in \<open>simp_all add: client_step_def gateway_inv_def\<close>)

lemma client_loop_total:
  assumes "ipc_env_ok E"
  shows "gateway_inv g \<Longrightarrow> \<exists>st g'. client_loop E c wl evs authd g = Some (st, g') \<and> gateway_inv g'"
proof (induction evs arbitrary: authd g)
  case Nil
  then show ?case by simp
next
  case (Cons ev evs)
  obtain st g1 where s: "client_step E c wl ev authd g = Some (st, g1)" "gateway_inv g1"
    using client_step_total [OF assms Cons.prems] by blast
  show ?case
  proof (cases st)
    case None
    then show ?thesis using s by simp
  next
    case (Some b)
    then show ?thesis using s Cons.IH [OF s(2), of b] by simp
  qed
qed



subsection \<open>The listening socket\<close>

text \<open>The operating system: removing a file, and binding a listener on a network and address.\<close>

record 'o os =
  os_Remove :: "string \<Rightarrow> 'o \<Rightarrow> 'o \<times> error option"
  os_IsNotExist :: "error \<Rightarrow> bool"
  net_Listen :: "string \<Rightarrow> string \<Rightarrow> 'o \<Rightarrow> 'o \<times> error option"
  net_Close :: "string \<Rightarrow> string \<Rightarrow> 'o \<Rightarrow> 'o \<times> error option"

record socket_listener =
  sl_network :: string
  sl_path :: string

definition socket_address :: "string \<Rightarrow> string \<times> string" where
  "socket_address addr =
     (if take 6 addr = ''tcp://'' then (''tcp'', drop 6 addr)
      else if CHR '':'' \<in> set addr \<and> CHR ''/'' \<notin> set addr then (''tcp'', addr)
      else (''unix'', addr))"

definition NewSocketListener :: "'o os \<Rightarrow> string \<Rightarrow> 'o \<Rightarrow> 'o \<times> socket_listener result" where
  "NewSocketListener S addr o0 =
     (let (network, path) = socket_address addr;
          (o1, err) = (if network = ''unix'' then os_Remove S path o0 else (o0, None))
      in case err of
           Some e \<Rightarrow>
             (if os_IsNotExist S e then
                (case net_Listen S network path o1 of
                   (o2, Some e') \<Rightarrow> (o2, Inl (Wrap ''failed to bind'' e'))
                 | (o2, None) \<Rightarrow> (o2, Inr \<lparr>sl_network = network, sl_path = path\<rparr>))
              else (o1, Inl (Wrap ''failed to clear stale socket'' e)))
         | None \<Rightarrow>
             (case net_Listen S network path o1 of
                (o2, Some e') \<Rightarrow> (o2, Inl (Wrap ''failed to bind'' e'))
              | (o2, None) \<Rightarrow> (o2, Inr \<lparr>sl_network = network, sl_path = path\<rparr>)))"

definition SocketListener_Close :: "'o os \<Rightarrow> socket_listener \<Rightarrow> 'o \<Rightarrow> 'o \<times> error option" where
  "SocketListener_Close S l o0 =
     (let (o1, err) = net_Close S (sl_network l) (sl_path l) o0
      in (if sl_network l = ''unix'' then fst (os_Remove S (sl_path l) o1) else o1, err))"

text \<open>A TCP listener never touches the file system, whatever its address.\<close>

lemma tcp_listener_removes_nothing:
  assumes "fst (socket_address addr) = ''tcp''" "NewSocketListener S addr o0 = (o1, Inr l)"
  shows "o1 = fst (net_Listen S ''tcp'' (sl_path l) o0)"
    and "SocketListener_Close S l o2 = net_Close S ''tcp'' (sl_path l) o2"
  using assms by (auto simp: NewSocketListener_def SocketListener_Close_def Let_def split: prod.splits option.splits)

end
