(* ===== verification/Dht_Replies.thy ===== *)
theory Dht_Replies
  imports Dht_Node
begin

section \<open>The replies of a node are well-typed datagrams\<close>

text \<open>
  The composition of the dispatcher, the request handler and the codec: what a node stores from the
  requests it gets is what it can encode, so that its replies decode at the receiver. An address
  fits when it is not empty and its length has 16 bits; a source's address leaves room for the
  port that an announce puts in place of its own.
\<close>

definition addr_fits :: "string \<Rightarrow> bool" where
  "addr_fits a \<longleftrightarrow> a \<noteq> [] \<and> fits16 a"

definition source_fits :: "net_addr \<Rightarrow> bool" where
  "source_fits src \<longleftrightarrow> addr_String src \<noteq> [] \<and> length (addr_String src) \<le> 65000"

definition table_fits :: "routing_table \<Rightarrow> bool" where
  "table_fits rt \<longleftrightarrow> list_all (list_all (\<lambda>c. addr_fits (c_Addr c))) (rt_buckets rt)"

definition registry_fits :: "swarm_registry \<Rightarrow> bool" where
  "registry_fits r \<longleftrightarrow> (\<forall>t. list_all addr_fits (GetPeers r t))"

definition node_fits :: "dht_node \<Rightarrow> bool" where
  "node_fits n \<longleftrightarrow> node_inv n \<and> table_fits (n_routing n) \<and> registry_fits (n_registry n)"

subsection \<open>Lengths of addresses\<close>

lemma itoa_length: "n < 10 ^ k \<Longrightarrow> 0 < k \<Longrightarrow> length (itoa n) \<le> k"
proof (induction k arbitrary: n)
  case 0
  then show ?case by simp
next
  case (Suc k)
  show ?case
  proof (cases "n < 10")
    case True
    then show ?thesis by (subst itoa.simps) simp
  next
    case False
    with Suc.prems have "0 < k" by (cases k) simp_all
    moreover have "n div 10 < 10 ^ k" using Suc.prems by (simp add: div_less_iff_less_mult mult.commute)
    ultimately have "length (itoa (n div 10)) \<le> k" by (rule Suc.IH [rotated])
    with False show ?thesis by (subst itoa.simps) simp
  qed
qed

lemma port_length: "length (itoa (unat (p :: u16))) \<le> 5"
  using unsigned_less [of p, where 'a = nat] by (intro itoa_length) simp_all

lemma SplitHostPort_length: "SplitHostPort a = Inr (h, p) \<Longrightarrow> length h \<le> length a"
  by (auto simp: SplitHostPort_def gslice_def split: option.splits if_splits)

lemma JoinHostPort_length: "length host + length port + 1 \<le> length (JoinHostPort host port)"
  "length (JoinHostPort host port) \<le> length host + length port + 3" "JoinHostPort host port \<noteq> []"
  by (auto simp: JoinHostPort_def)

lemma announced_addr_fits:
  assumes "source_fits src"
  shows "addr_fits (announced_addr src port)"
proof (cases src)
  case (UDPAddr ip sport)
  have "length ip \<le> length (addr_String src)"
    using JoinHostPort_length(1) [of ip "itoa sport"] by (simp add: UDPAddr)
  with assms have "length ip \<le> 65000" by (simp add: source_fits_def)
  with JoinHostPort_length(2,3) [of ip "itoa (unat port)"] port_length [of port] show ?thesis
    by (simp add: UDPAddr announced_addr_def addr_fits_def fits16_def)
next
  case (OtherAddr s)
  show ?thesis
  proof (cases "SplitHostPort s")
    case (Inl e)
    with assms show ?thesis by (simp add: OtherAddr announced_addr_def addr_fits_def fits16_def source_fits_def)
  next
    case (Inr hp)
    obtain h p where hp: "hp = (h, p)" by force
    have "length h \<le> 65000" using SplitHostPort_length [OF Inr [unfolded hp]] assms by (simp add: OtherAddr source_fits_def)
    with JoinHostPort_length(2,3) [of h "itoa (unat port)"] port_length [of port] Inr hp show ?thesis
      by (simp add: OtherAddr announced_addr_def addr_fits_def fits16_def)
  qed
qed

subsection \<open>What a node stores\<close>

lemma AddContact_fits:
  assumes "table_fits rt" "addr_fits (c_Addr c)" "rt_inv rt"
  shows "table_fits (AddContact c rt)"
proof -
  let ?i = "commonPrefixLength (rt_localID rt) (c_ID c)" and ?ok = "list_all (\<lambda>c. addr_fits (c_Addr c))"
  have i: "?i < length (rt_buckets rt)" using assms(3) cpl_index by (simp add: rt_inv_def)
  have b: "?ok (rt_buckets rt ! ?i)" using assms(1) nth_mem [OF i] by (simp add: table_fits_def list_all_iff)
  have "?ok (refresh_bucket c (rt_buckets rt ! ?i))"
  proof (cases "first_index (\<lambda>e. c_ID e = c_ID c) (rt_buckets rt ! ?i)")
    case None
    with b assms(2) show ?thesis
      by (auto simp: refresh_bucket_def list_all_iff dest: in_set_dropD)
  next
    case (Some j)
    from first_index_split [OF Some] have "rt_buckets rt ! ?i ! j \<in> set (rt_buckets rt ! ?i)"
      using Some by (simp add: first_index_Some)
    with Some b assms(2) show ?thesis
      by (auto simp: refresh_bucket_def list_all_iff Let_def dest: in_set_dropD in_set_takeD)
  qed
  with assms(1) i show ?thesis
    by (auto simp: table_fits_def AddContact_def Let_def list_all_iff dest!: subsetD [OF set_update_subset_insert])
qed

lemma handle_announce_fits:
  assumes "registry_fits r" "registry_inv r" "source_fits src"
  shows "registry_fits (handle_announce req src r)"
proof (cases "m_Port req = 0")
  case True
  have "set (GetPeers (handle_announce req src r) u) \<subseteq> set (GetPeers r u)" for u
    using handle_announce_unfold [OF assms(2), of "\<lambda>p. host_of p = host_of (addr_String src)" "m_Topic req" "GetPeers r (m_Topic req)" u] True
    by (auto simp: handle_announce_def Let_def split: if_splits)
  with assms(1) show ?thesis by (auto simp: registry_fits_def list_all_iff)
next
  case False
  with assms(1) announced_addr_fits [OF assms(3), of "m_Port req"] show ?thesis
    by (auto simp: handle_announce_def registry_fits_def GetPeers_register list_all_iff split: if_splits)
qed

lemma handleRequest_fits:
  assumes "node_fits n" "source_fits src" "length (m_SenderID req) = 32"
  shows "node_fits (fst (handleRequest req src n))"
proof -
  have "addr_fits (addr_String src)" using assms(2) by (simp add: source_fits_def addr_fits_def fits16_def)
  then have "table_fits (AddContact \<lparr>c_ID = m_SenderID req, c_Addr = addr_String src\<rparr> (n_routing n))"
    using assms(1) by (intro AddContact_fits) (simp_all add: node_fits_def node_inv_def)
  moreover have "registry_fits (handle_announce req src (n_registry n))"
    using assms(1,2) by (intro handle_announce_fits) (simp_all add: node_fits_def node_inv_def)
  moreover have "node_inv (fst (handleRequest req src n))"
    using assms(1,3) by (intro handleRequest_inv) (simp_all add: node_fits_def)
  ultimately show ?thesis
    using assms(1) by (simp add: node_fits_def handleRequest_def Let_def)
qed

subsection \<open>Replies decode\<close>

lemma all_contacts_fits:
  assumes "rt_inv rt" "table_fits rt"
  shows "list_all wf_contact (all_contacts rt)" "list_all (\<lambda>c. c_Addr c \<noteq> []) (all_contacts rt)"
  using all_contacts_ok [OF assms(1)] assms(2)
  by (auto simp: all_contacts_def table_fits_def list_all_iff wf_contact_def contact_ok_def addr_fits_def)

lemma closest_peers_fit:
  assumes "rt_inv rt" "table_fits rt"
  shows "list_all wf_contact (FindClosestPeers rt t 20)" "fits16 (FindClosestPeers rt t 20)"
    "list_all (\<lambda>c. c_Addr c \<noteq> []) (FindClosestPeers rt t 20)"
proof -
  have sub: "set (FindClosestPeers rt t 20) \<subseteq> set (all_contacts rt)"
    by (auto simp: FindClosestPeers_def Let_def dest: in_set_takeD)
  with all_contacts_fits [OF assms] show "list_all wf_contact (FindClosestPeers rt t 20)"
    "list_all (\<lambda>c. c_Addr c \<noteq> []) (FindClosestPeers rt t 20)" by (auto simp: list_all_iff)
  have "length (FindClosestPeers rt t 20) \<le> 20" by (simp add: FindClosestPeers_def Let_def)
  then show "fits16 (FindClosestPeers rt t 20)" by (simp add: fits16_def)
qed

lemma decoded_tx_length: "DecodeMessage data = Inr m \<Longrightarrow> length (m_TxID m) = 4"
  by (auto simp: DecodeMessage_def decode_payload_def Let_def zero_message_def
      dest!: reader_read_length split: if_splits sum.splits list.splits)

text \<open>What the handler answers to the four requests, with the transaction ID that the dispatcher sets.\<close>

lemma handled_reply_wf:
  assumes "node_fits n" "source_fits src" "length (m_SenderID req) = 32" "length (m_TxID req) = 4"
    and "fits16 (GetPeers (n_registry n) (m_Topic req))" "m_Type req \<in> {MsgPing, MsgFindNode, MsgAnnounce, MsgLookup}"
  obtains n' resp where "handleRequest req src n = (n', Inr (Some resp))" "m_SenderID resp = n_localID n"
    "wf_message (resp\<lparr>m_TxID := m_TxID req\<rparr>)" "\<not> ends_empty (resp\<lparr>m_TxID := m_TxID req\<rparr>)"
proof -
  let ?rt = "AddContact \<lparr>c_ID = m_SenderID req, c_Addr = addr_String src\<rparr> (n_routing n)"
  have "addr_fits (addr_String src)" using assms(2) by (simp add: source_fits_def addr_fits_def fits16_def)
  then have rt: "rt_inv ?rt" "table_fits ?rt"
    using assms(1,3) AddContact_inv AddContact_fits by (simp_all add: node_fits_def node_inv_def)
  note fit = closest_peers_fit [OF rt, of "m_Target req"]
  have id: "length (n_localID n) = 32" using assms(1) by (auto simp: node_fits_def node_inv_def rt_inv_def)
  have peers: "list_all fits16 (GetPeers (n_registry n) (m_Topic req))" "[] \<notin> set (GetPeers (n_registry n) (m_Topic req))"
    using assms(1) by (auto simp: node_fits_def registry_fits_def list_all_iff addr_fits_def)
  have ne: "cs \<noteq> [] \<Longrightarrow> list_all (\<lambda>c. c_Addr c \<noteq> []) cs \<Longrightarrow> c_Addr (last cs) \<noteq> []" for cs
    by (simp add: list_all_iff)
  have last_ne: "ps \<noteq> [] \<Longrightarrow> [] \<notin> set ps \<Longrightarrow> last ps \<noteq> []" for ps :: "string list"
    by (metis last_in_set)
  obtain n' resp where h: "handleRequest req src n = (n', Inr (Some resp))"
    using assms(6) by (cases "handleRequest req src n") (auto simp: handleRequest_def Let_def msg_types split: if_splits)
  show thesis
  proof (rule that [OF h])
    show "m_SenderID resp = n_localID n" using h by (auto simp: handleRequest_def Let_def split: if_splits)
    show "wf_message (resp\<lparr>m_TxID := m_TxID req\<rparr>)"
      using h assms(4,5) id fit peers(1)
      by (auto simp: handleRequest_def Let_def wf_message_def zero_message_def zero_id_def fits16_def split: if_splits)
    show "\<not> ends_empty (resp\<lparr>m_TxID := m_TxID req\<rparr>)"
      using h ne [OF _ fit(3)] last_ne [OF _ peers(2)]
      by (auto simp: handleRequest_def Let_def ends_empty_def zero_message_def msg_types split: if_splits)
  qed
qed

text \<open>
  C37. Replies are well-typed. Serving a datagram keeps what a node stores encodable: addresses are not
  empty and have a 16-bit length, IDs have 32 bytes. So the reply to each of the four requests is a
  datagram that decodes, with the transaction ID of the request and the ID of the node, as long as
  the topic has at most 65535 peers; no other message type gets a reply.
\<close>

theorem replies_are_well_typed:
  assumes "node_fits n" "source_fits src" "DecodeMessage data = Inr req"
    and "fits16 (GetPeers (n_registry n) (m_Topic req))"
  shows "\<exists>n' r. handleRequest req src n = (n', r) \<and> node_fits n' \<and>
    (if m_Type req \<in> {MsgPing, MsgFindNode, MsgAnnounce, MsgLookup}
     then \<exists>b resp. reply_datagram req r = Some b \<and> DecodeMessage b = Inr resp \<and>
       m_TxID resp = m_TxID req \<and> m_SenderID resp = n_localID n \<and> isResponse (m_Type resp)
     else reply_datagram req r = None)"
proof -
  note req = decode_lengths(1) [OF assms(3)] decoded_tx_length [OF assms(3)]
  have keeps: "node_fits (fst (handleRequest req src n))" by (rule handleRequest_fits [OF assms(1,2) req(1)])
  show ?thesis
  proof (cases "m_Type req \<in> {MsgPing, MsgFindNode, MsgAnnounce, MsgLookup}")
    case True
    from handled_reply_wf [OF assms(1,2) req assms(4) True] obtain n' resp where
      h: "handleRequest req src n = (n', Inr (Some resp))" "m_SenderID resp = n_localID n"
      and wf: "wf_message (resp\<lparr>m_TxID := m_TxID req\<rparr>)" "\<not> ends_empty (resp\<lparr>m_TxID := m_TxID req\<rparr>)" by blast
    from decode_encode_message [OF wf(1)] obtain b where
      b: "EncodeMessage (Some (resp\<lparr>m_TxID := m_TxID req\<rparr>)) = Inr b"
        "DecodeMessage b = Inr (payload_of (resp\<lparr>m_TxID := m_TxID req\<rparr>))"
      using wf(2) by (metis append_Nil2)
    have "isResponse (m_Type resp)"
      using h(1) True by (auto simp: handleRequest_def Let_def isResponse_def msg_types split: if_splits)
    with h b True keeps show ?thesis by (simp add: reply_datagram_def payload_of_def Let_def)
  next
    case False
    then show ?thesis using keeps by (simp add: handleRequest_def Let_def reply_datagram_def)
  qed
qed

theorem replies_are_well_typed_witness:
  "\<exists>n' r b resp. handleRequest (zero_message\<lparr>m_Type := MsgPing, m_SenderID := replicate 32 7\<rparr>) (OtherAddr ''b'') sample_node = (n', r) \<and>
    reply_datagram (zero_message\<lparr>m_Type := MsgPing, m_SenderID := replicate 32 7\<rparr>) r = Some b \<and> DecodeMessage b = Inr resp \<and>
    m_SenderID resp = zero_id"
proof -
  let ?m = "zero_message\<lparr>m_Type := MsgPing, m_SenderID := replicate 32 7\<rparr>"
  have n: "node_fits sample_node"
    using sample_node_inv
    by (simp add: node_fits_def table_fits_def list_all_iff sample_node_def NewRoutingTable_def registry_fits_def GetPeers_def NewSwarmRegistry_def)
  have d: "DecodeMessage (replicate 4 0 @ MsgPing # replicate 32 7 @ []) = Inr ?m"
    by (subst decode_header) (simp_all add: decode_payload_def zero_message_def msg_types)
  have "source_fits (OtherAddr ''b'')" "fits16 (GetPeers (n_registry sample_node) (m_Topic ?m))"
    by (simp_all add: source_fits_def sample_node_def GetPeers_def NewSwarmRegistry_def fits16_def)
  from replies_are_well_typed [OF n this(1) d this(2)] show ?thesis
    by (simp add: sample_node_def) blast
qed

end
