(* ===== verification/Dht_Transport.thy ===== *)
theory Dht_Transport
  imports Dht_Dispatch
begin

section \<open>The in-memory transport of the DHT (pkg/dht/inprocess.go)\<close>

text \<open>
  Transports are shared by pointer between their owners and the registry: a pointer is an index into
  the list of transports of the process. \<open>ReadFrom\<close> blocks (\<open>None\<close>) while nothing is queued and the
  transport is open; when both a packet and the close are there it may take either.
\<close>

record inprocess_transport =
  ip_addr :: string
  ip_incoming :: "(string \<times> bytes) list"
  ip_closed :: bool

record inprocess_net =
  in_registry :: "string \<Rightarrow> nat option"
  in_transports :: "inprocess_transport list"

definition empty_inprocess :: inprocess_net where
  "empty_inprocess = \<lparr>in_registry = (\<lambda>_. None), in_transports = []\<rparr>"

definition NewInProcessTransport :: "string \<Rightarrow> inprocess_net \<Rightarrow> inprocess_net \<times> nat result" where
  "NewInProcessTransport addr N =
     (if in_registry N addr \<noteq> None then (N, Inl (ErrNew ''address already in use''))
      else let i = length (in_transports N) in
        (N\<lparr>in_registry := (in_registry N)(addr \<mapsto> i),
           in_transports := in_transports N @ [\<lparr>ip_addr = addr, ip_incoming = [], ip_closed = False\<rparr>]\<rparr>, Inr i))"

datatype recv_choice = RecvPacket | RecvClosed

definition inprocess_ReadFrom ::
  "recv_choice \<Rightarrow> nat \<Rightarrow> nat \<Rightarrow> inprocess_net \<Rightarrow> (inprocess_net \<times> (bytes \<times> string) result) option" where
  "inprocess_ReadFrom ch bufLen i N =
     (let t = in_transports N ! i in
      case ch of
        RecvClosed \<Rightarrow> if ip_closed t then Some (N, Inl (ErrNew ''use of closed network connection'')) else None
      | RecvPacket \<Rightarrow>
          (case ip_incoming t of [] \<Rightarrow> None
           | (src, data) # r \<Rightarrow>
               Some (N\<lparr>in_transports := (in_transports N)[i := t\<lparr>ip_incoming := r\<rparr>]\<rparr>, Inr (take bufLen data, src))))"

definition inprocess_WriteTo :: "nat \<Rightarrow> bytes \<Rightarrow> string \<Rightarrow> inprocess_net \<Rightarrow> inprocess_net \<times> nat result" where
  "inprocess_WriteTo i p addr N =
     (case in_registry N addr of
        None \<Rightarrow> (N, Inl (ErrNew ''network unreachable or destination address not bound''))
      | Some j \<Rightarrow>
          let dest = in_transports N ! j in
          if ip_closed dest then (N, Inl (ErrNew ''destination connection closed''))
          else if length (ip_incoming dest) < 1000
            then (N\<lparr>in_transports := (in_transports N)[j :=
                     dest\<lparr>ip_incoming := ip_incoming dest @ [(ip_addr (in_transports N ! i), p)]\<rparr>]\<rparr>, Inr (length p))
          else (N, Inl (ErrNew ''destination buffer full'')))"

definition inprocess_Close :: "nat \<Rightarrow> inprocess_net \<Rightarrow> inprocess_net" where
  "inprocess_Close i N =
     (let t = in_transports N ! i in
      N\<lparr>in_registry := (in_registry N)(ip_addr t := None),
        in_transports := (in_transports N)[i := t\<lparr>ip_closed := True\<rparr>]\<rparr>)"

subsection \<open>Delivery\<close>

text \<open>
  Every bound address names a transport of that address, no transport holds more than 1000 packets,
  and a transport is bound while it is open.
\<close>

definition inprocess_inv :: "inprocess_net \<Rightarrow> bool" where
  "inprocess_inv N \<longleftrightarrow>
     (\<forall>a i. in_registry N a = Some i \<longrightarrow> i < length (in_transports N) \<and> ip_addr (in_transports N ! i) = a) \<and>
     (\<forall>t\<in>set (in_transports N). length (ip_incoming t) \<le> 1000)"

lemma inprocess_inv_new: "inprocess_inv N \<Longrightarrow> inprocess_inv (fst (NewInProcessTransport addr N))"
  by (auto simp: NewInProcessTransport_def inprocess_inv_def Let_def nth_append less_SucI split: if_splits)

lemma inprocess_inv_update:
  assumes "inprocess_inv N" "ip_addr t = ip_addr (in_transports N ! i)" "length (ip_incoming t) \<le> 1000"
  shows "inprocess_inv (N\<lparr>in_transports := (in_transports N)[i := t]\<rparr>)"
proof -
  have "ip_addr ((in_transports N)[i := t] ! k) = ip_addr (in_transports N ! k)" if "k < length (in_transports N)" for k
    using that assms(2) by (cases "k = i") simp_all
  moreover have "\<forall>u\<in>set ((in_transports N)[i := t]). length (ip_incoming u) \<le> 1000"
    using assms(1,3) set_update_subset_insert [of "in_transports N" i t] unfolding inprocess_inv_def by blast
  ultimately show ?thesis using assms(1) by (simp add: inprocess_inv_def)
qed

lemma inprocess_inv_write:
  assumes "inprocess_inv N"
  shows "inprocess_inv (fst (inprocess_WriteTo i p addr N))"
  using assms by (auto simp: inprocess_WriteTo_def Let_def split: option.split intro: inprocess_inv_update)

lemma inprocess_inv_close:
  assumes "inprocess_inv N" "i < length (in_transports N)"
  shows "inprocess_inv (inprocess_Close i N)"
proof -
  let ?t = "(in_transports N ! i)\<lparr>ip_closed := True\<rparr>"
  have "in_transports N ! i \<in> set (in_transports N)" using assms(2) by simp
  then have "inprocess_inv (N\<lparr>in_transports := (in_transports N)[i := ?t]\<rparr>)"
    using assms(1) by (intro inprocess_inv_update) (simp_all add: inprocess_inv_def)
  then show ?thesis by (auto simp: inprocess_Close_def inprocess_inv_def Let_def)
qed

lemma inprocess_inv_read:
  assumes "inprocess_inv N" "i < length (in_transports N)" "inprocess_ReadFrom ch n i N = Some (N', r)"
  shows "inprocess_inv N'"
proof (cases ch)
  case RecvClosed
  then show ?thesis using assms(1,3) by (simp add: inprocess_ReadFrom_def Let_def split: if_splits)
next
  case RecvPacket
  then obtain src d q where q: "ip_incoming (in_transports N ! i) = (src, d) # q"
    "N' = N\<lparr>in_transports := (in_transports N)[i := (in_transports N ! i)\<lparr>ip_incoming := q\<rparr>]\<rparr>"
    using assms(3) by (auto simp: inprocess_ReadFrom_def Let_def split: list.splits)
  have "length (ip_incoming (in_transports N ! i)) \<le> 1000"
    using assms(1) nth_mem [OF assms(2)] unfolding inprocess_inv_def by blast
  with assms(1) q(1) show ?thesis unfolding q(2) by (intro inprocess_inv_update) simp_all
qed

text \<open>What is written to a bound address is what its reader gets, after the packets before it.\<close>

lemma write_then_read:
  assumes "inprocess_inv N" "in_registry N addr = Some j" "ip_incoming (in_transports N ! j) = []"
    and "\<not> ip_closed (in_transports N ! j)" "length p \<le> n"
  shows "\<exists>N1 N2. inprocess_WriteTo i p addr N = (N1, Inr (length p)) \<and>
    inprocess_ReadFrom RecvPacket n j N1 = Some (N2, Inr (p, ip_addr (in_transports N ! i))) \<and>
    in_transports N2 = in_transports N"
proof -
  have j: "j < length (in_transports N)" using assms(1,2) unfolding inprocess_inv_def by blast
  define t where "t = in_transports N ! j"
  define src where "src = ip_addr (in_transports N ! i)"
  define N1 where "N1 = N\<lparr>in_transports := (in_transports N)[j := t\<lparr>ip_incoming := [(src, p)]\<rparr>]\<rparr>"
  have "inprocess_WriteTo i p addr N = (N1, Inr (length p))"
    using assms(2-4) by (simp add: inprocess_WriteTo_def N1_def src_def t_def)
  moreover have "in_transports N1 ! j = t\<lparr>ip_incoming := [(src, p)]\<rparr>" using j by (simp add: N1_def)
  then have "inprocess_ReadFrom RecvPacket n j N1 =
      Some (N1\<lparr>in_transports := (in_transports N1)[j := t\<lparr>ip_incoming := []\<rparr>]\<rparr>, Inr (p, src))"
    using assms(5) by (simp add: inprocess_ReadFrom_def)
  moreover have "t\<lparr>ip_incoming := []\<rparr> = t"
  proof -
    have "ip_incoming t = []" using assms(3) by (simp only: t_def)
    then show ?thesis by (cases t) simp
  qed
  then have "(in_transports N1)[j := t\<lparr>ip_incoming := []\<rparr>] = (in_transports N)[j := t]" by (simp add: N1_def)
  then have "(in_transports N1)[j := t\<lparr>ip_incoming := []\<rparr>] = in_transports N"
    unfolding t_def by (simp only: list_update_id)
  ultimately show ?thesis unfolding src_def by (intro exI conjI) (assumption | simp)+
qed

text \<open>
  \<open>Close\<close> unbinds the address whoever holds it: closing a transport a second time takes the address
  from a transport that has been bound to it since.
\<close>

lemma second_close_unbinds_successor:
  assumes "inprocess_inv N" "in_registry N a = Some i"
    and "NewInProcessTransport a (inprocess_Close i N) = (N', Inr k)"
  shows "in_registry N' a = Some k" "in_registry (inprocess_Close i N') a = None"
    "\<not> ip_closed (in_transports (inprocess_Close i N') ! k)"
proof -
  have i: "i < length (in_transports N)" "ip_addr (in_transports N ! i) = a"
    using assms(1,2) by (auto simp: inprocess_inv_def)
  with assms(3) show "in_registry N' a = Some k" "in_registry (inprocess_Close i N') a = None"
    "\<not> ip_closed (in_transports (inprocess_Close i N') ! k)"
    by (auto simp: NewInProcessTransport_def inprocess_Close_def Let_def nth_append split: if_splits)
qed

subsection \<open>The transport interface (pkg/dht/transport.go)\<close>

text \<open>
  The interface that the dispatcher calls, over a state \<open>'s\<close> of the network. A read that blocks is \<open>None\<close>.
  \<open>net.PacketConn\<close> of the standard library has the same operations.
\<close>

record 's transport =
  tr_ReadFrom :: "nat \<Rightarrow> 's \<Rightarrow> ('s \<times> (bytes \<times> net_addr) result) option"
  tr_WriteTo :: "bytes \<Rightarrow> net_addr \<Rightarrow> 's \<Rightarrow> 's \<times> nat result"
  tr_Addr :: "'s \<Rightarrow> net_addr"
  tr_Close :: "'s \<Rightarrow> 's \<times> error option"

record 's packet_conn =
  pc_ReadFrom :: "nat \<Rightarrow> 's \<Rightarrow> ('s \<times> (bytes \<times> net_addr) result) option"
  pc_WriteTo :: "bytes \<Rightarrow> net_addr \<Rightarrow> 's \<Rightarrow> 's \<times> nat result"
  pc_LocalAddr :: "'s \<Rightarrow> net_addr"
  pc_Close :: "'s \<Rightarrow> 's \<times> error option"

definition UDPTransport :: "'s packet_conn \<Rightarrow> 's transport" where
  "UDPTransport conn =
     \<lparr>tr_ReadFrom = pc_ReadFrom conn, tr_WriteTo = pc_WriteTo conn, tr_Addr = pc_LocalAddr conn, tr_Close = pc_Close conn\<rparr>"

text \<open>\<open>ListenPacket\<close> is an argument.\<close>

definition NewUDPTransport :: "(string \<Rightarrow> string \<Rightarrow> 's packet_conn result) \<Rightarrow> string \<Rightarrow> 's transport result" where
  "NewUDPTransport listen addr =
     (case listen ''udp'' addr of Inl e \<Rightarrow> Inl e | Inr conn \<Rightarrow> Inr (UDPTransport conn))"

definition InProcessTransport :: "recv_choice \<Rightarrow> nat \<Rightarrow> inprocess_net transport" where
  "InProcessTransport ch i =
     \<lparr>tr_ReadFrom = (\<lambda>n N. map_option (\<lambda>(N', r). (N', map_sum id (\<lambda>(data, src). (data, OtherAddr src)) r))
        (inprocess_ReadFrom ch n i N)),
      tr_WriteTo = (\<lambda>p addr. inprocess_WriteTo i p (addr_String addr)),
      tr_Addr = (\<lambda>N. OtherAddr (ip_addr (in_transports N ! i))),
      tr_Close = (\<lambda>N. (inprocess_Close i N, None))\<rparr>"

text \<open>
  One pass of the read loop on a transport: it blocks, it ends with the error of the transport, or it goes
  on with the dispatcher and the request for the handler, if the datagram was one.
\<close>

definition read_pass ::
  "'s transport \<Rightarrow> 's \<Rightarrow> dispatcher \<Rightarrow> ('s \<times> (dispatcher \<times> (dht_message \<times> net_addr) option) option) option" where
  "read_pass T s d =
     (case tr_ReadFrom T 65535 s of None \<Rightarrow> None
      | Some (s', Inl _) \<Rightarrow> Some (s', None)
      | Some (s', Inr (data, src)) \<Rightarrow> Some (s', Some (on_datagram data src d)))"

text \<open>What the dispatcher relies on: a read fills at most the buffer, a write is of the whole datagram.\<close>

locale dht_transport =
  fixes T :: "'s transport" and inv :: "'s \<Rightarrow> bool"
  assumes read_fits: "inv s \<Longrightarrow> tr_ReadFrom T n s = Some (s', Inr (data, src)) \<Longrightarrow> length data \<le> n"
    and inv_read: "inv s \<Longrightarrow> tr_ReadFrom T n s = Some (s', r) \<Longrightarrow> inv s'"
    and write_whole: "inv s \<Longrightarrow> tr_WriteTo T p addr s = (s', Inr k) \<Longrightarrow> k = length p"
    and inv_write: "inv s \<Longrightarrow> inv (fst (tr_WriteTo T p addr s))"
    and inv_close: "inv s \<Longrightarrow> inv (fst (tr_Close T s))"
begin

text \<open>The request that a pass hands to the handler is the decoding of one datagram, and is no response.\<close>

lemma read_pass_request:
  assumes "inv s" "read_pass T s d = Some (s', Some (d', Some (m, src)))"
  shows "inv s' \<and> d' = d \<and> \<not> isResponse (m_Type m) \<and> (\<exists>data. length data \<le> 65535 \<and> DecodeMessage data = Inr m)"
proof -
  obtain data where r: "tr_ReadFrom T 65535 s = Some (s', Inr (data, src))" "on_datagram data src d = (d', Some (m, src))"
    using assms(2) by (auto simp: read_pass_def on_datagram_def split: option.splits sum.splits if_splits)
  with read_fits [OF assms(1) r(1)] inv_read [OF assms(1) r(1)] show ?thesis
    by (auto simp: on_datagram_def split: sum.splits if_splits)
qed

lemma read_pass_inv: "inv s \<Longrightarrow> read_pass T s d = Some (s', x) \<Longrightarrow> inv s'"
  using inv_read [of s 65535] by (auto simp: read_pass_def split: option.splits prod.splits sum.splits)

end

text \<open>A socket that behaves as \<open>net.PacketConn\<close> documents gives such a transport.\<close>

lemma udp_is_transport:
  assumes "\<And>n s s' data src. good s \<Longrightarrow> pc_ReadFrom C n s = Some (s', Inr (data, src)) \<Longrightarrow> length data \<le> n"
    and "\<And>p a s s' k. good s \<Longrightarrow> pc_WriteTo C p a s = (s', Inr k) \<Longrightarrow> k = length p"
    and "\<And>n s s' r. good s \<Longrightarrow> pc_ReadFrom C n s = Some (s', r) \<Longrightarrow> good s'"
    and "\<And>p a s. good s \<Longrightarrow> good (fst (pc_WriteTo C p a s))" "\<And>s. good s \<Longrightarrow> good (fst (pc_Close C s))"
  shows "dht_transport (UDPTransport C) good"
  using assms by unfold_locales (auto simp: UDPTransport_def)

interpretation inproc: dht_transport "InProcessTransport ch i"
    "\<lambda>N. inprocess_inv N \<and> i < length (in_transports N)" for ch i
proof unfold_locales
  fix N n N' data src
  assume "tr_ReadFrom (InProcessTransport ch i) n N = Some (N', Inr (data, src))"
  then show "length data \<le> n"
    by (auto simp: InProcessTransport_def inprocess_ReadFrom_def Let_def split: recv_choice.splits list.splits if_splits)
next
  fix N n N' r
  assume a: "inprocess_inv N \<and> i < length (in_transports N)" "tr_ReadFrom (InProcessTransport ch i) n N = Some (N', r)"
  then obtain r' where r: "inprocess_ReadFrom ch n i N = Some (N', r')" by (auto simp: InProcessTransport_def)
  then have "length (in_transports N') = length (in_transports N)"
    by (auto simp: inprocess_ReadFrom_def Let_def split: recv_choice.splits list.splits if_splits)
  with inprocess_inv_read [OF _ _ r] a(1) show "inprocess_inv N' \<and> i < length (in_transports N')" by simp
next
  fix N p addr N' k
  assume "tr_WriteTo (InProcessTransport ch i) p addr N = (N', Inr k)"
  then show "k = length p"
    by (auto simp: InProcessTransport_def inprocess_WriteTo_def Let_def split: option.splits if_splits)
next
  fix N p addr
  assume a: "inprocess_inv N \<and> i < length (in_transports N)"
  have "length (in_transports (fst (inprocess_WriteTo i p (addr_String addr) N))) = length (in_transports N)"
    by (simp add: inprocess_WriteTo_def Let_def split: option.split)
  with a inprocess_inv_write show "inprocess_inv (fst (tr_WriteTo (InProcessTransport ch i) p addr N)) \<and>
      i < length (in_transports (fst (tr_WriteTo (InProcessTransport ch i) p addr N)))"
    by (simp add: InProcessTransport_def)
next
  fix N
  assume "inprocess_inv N \<and> i < length (in_transports N)"
  then show "inprocess_inv (fst (tr_Close (InProcessTransport ch i) N)) \<and>
      i < length (in_transports (fst (tr_Close (InProcessTransport ch i) N)))"
    using inprocess_inv_close [of N i] by (simp add: InProcessTransport_def inprocess_Close_def Let_def)
qed

text \<open>So a read loop on an in-process transport keeps the registry sound and decodes single datagrams.\<close>

lemmas inprocess_read_pass = inproc.read_pass_request inproc.read_pass_inv

end
