(* ===== verification/Dht_Cluster.thy ===== *)
theory Dht_Cluster
  imports Dht_Replies Dht_Transport
begin

section \<open>Nodes that talk to each other (dispatcher.go, dht.go and inprocess.go together)\<close>

text \<open>
  A cluster is a family of hosts, each a node with its dispatcher on a transport of its own, all in one
  process: host \<open>i\<close> owns transport \<open>i\<close>. A request runs through the sender's \<open>SendRequest\<close>, the
  transport, the read loop and handler of the receiver, the transport again and the read loop of
  the sender, without other traffic in between. This gives the network that the node's operations
  take as a parameter, for the operations of host \<open>i\<close>.
\<close>

record dht_host =
  h_node :: dht_node
  h_disp :: dispatcher

record cluster =
  cl_net :: inprocess_net
  cl_hosts :: "nat \<Rightarrow> dht_host"
  cl_draws :: nat

definition host_addr :: "cluster \<Rightarrow> nat \<Rightarrow> string" where
  "host_addr W i = ip_addr (in_transports (cl_net W) ! i)"

text \<open>One pass of the read loop of host \<open>j\<close>, and of the goroutine that answers a request.\<close>

definition serve :: "nat \<Rightarrow> cluster \<Rightarrow> cluster" where
  "serve j W =
     (case inprocess_ReadFrom RecvPacket 65535 j (cl_net W) of
        Some (N1, Inr (data, src)) \<Rightarrow>
          let host = cl_hosts W j; (d, request) = on_datagram data (OtherAddr src) (h_disp host) in
          (case request of
             None \<Rightarrow> W\<lparr>cl_net := N1, cl_hosts := (cl_hosts W)(j := host\<lparr>h_disp := d\<rparr>)\<rparr>
           | Some (m, a) \<Rightarrow>
               let (n, handled) = handleRequest m a (h_node host) in
               W\<lparr>cl_net := (case reply_datagram m handled of None \<Rightarrow> N1
                             | Some b \<Rightarrow> fst (inprocess_WriteTo j b (addr_String a) N1)),
                 cl_hosts := (cl_hosts W)(j := \<lparr>h_node = n, h_disp = d\<rparr>)\<rparr>)
      | _ \<Rightarrow> W)"

text \<open>The datagram that \<open>SendRequest\<close> writes, and the transport after it.\<close>

definition send_datagram :: "nat \<Rightarrow> bytes \<Rightarrow> string \<Rightarrow> cluster \<Rightarrow> cluster \<times> error option" where
  "send_datagram i data target W =
     (case inprocess_WriteTo i data target (cl_net W) of
        (N1, Inl e) \<Rightarrow> (W\<lparr>cl_net := N1\<rparr>, Some e)
      | (N1, Inr _) \<Rightarrow> (W\<lparr>cl_net := N1\<rparr>, None))"

definition set_disp :: "nat \<Rightarrow> dispatcher \<Rightarrow> cluster \<Rightarrow> cluster" where
  "set_disp i d W = W\<lparr>cl_hosts := (cl_hosts W)(i := (cl_hosts W i)\<lparr>h_disp := d\<rparr>)\<rparr>"

definition cluster_rpc :: "nat \<Rightarrow> string \<Rightarrow> dht_message \<Rightarrow> cluster \<Rightarrow> dht_message result \<times> cluster" where
  "cluster_rpc i target req W =
     (let (W1, write_err) = (case EncodeMessage (Some req) of Inl _ \<Rightarrow> (W, None)
            | Inr data \<Rightarrow> send_datagram i data target W)
      in case send_start 0 write_err req (h_disp (cl_hosts W i)) of
           (d, Inl e) \<Rightarrow> (Inl e, set_disp i d W1)
         | (d, Inr (h, _)) \<Rightarrow>
             let W2 = serve i (case in_registry (cl_net W) target of None \<Rightarrow> set_disp i d W1
                        | Some j \<Rightarrow> serve j (set_disp i d W1))
             in (case send_finish ResponseReady h (h_disp (cl_hosts W2 i)) of
                   (d2, Some r) \<Rightarrow> (r, set_disp i d2 W2)
                 | (d2, None) \<Rightarrow> (Inl (ErrNew ''request timeout''), set_disp i d2 W2)))"

text \<open>\<open>rand\<close> is the random source of transaction IDs, \<open>order\<close> the order of a round's results.\<close>

definition cluster_network :: "(nat \<Rightarrow> bytes) \<Rightarrow> (nat list \<Rightarrow> nat list) \<Rightarrow> nat \<Rightarrow> cluster network" where
  "cluster_network rand order i =
     \<lparr>nw_rpc = (\<lambda>W a m. cluster_rpc i (addr_String a) m W),
      nw_tx = (\<lambda>W. (rand (cl_draws W), W\<lparr>cl_draws := Suc (cl_draws W)\<rparr>)),
      nw_resolve = (\<lambda>s. Inr (OtherAddr s)),
      nw_order = (\<lambda>_. order)\<rparr>"

subsection \<open>Quiet clusters\<close>

text \<open>Between requests: every transport is open, bound to its own address and has nothing queued.\<close>

definition quiet_net :: "inprocess_net \<Rightarrow> bool" where
  "quiet_net N \<longleftrightarrow> inprocess_inv N \<and>
     (\<forall>i < length (in_transports N). in_registry N (ip_addr (in_transports N ! i)) = Some i \<and>
        ip_incoming (in_transports N ! i) = [] \<and> \<not> ip_closed (in_transports N ! i))"

abbreviation quiet_cluster :: "cluster \<Rightarrow> bool" where
  "quiet_cluster W \<equiv> quiet_net (cl_net W)"

abbreviation hosts :: "cluster \<Rightarrow> nat" where
  "hosts W \<equiv> length (in_transports (cl_net W))"

text \<open>A datagram from \<open>i\<close> to \<open>j\<close> is on its way.\<close>

definition in_flight :: "nat \<Rightarrow> bytes \<Rightarrow> nat \<Rightarrow> cluster \<Rightarrow> cluster" where
  "in_flight i p j W = W\<lparr>cl_net := fst (inprocess_WriteTo i p (host_addr W j) (cl_net W))\<rparr>"

lemma quiet_write:
  assumes "quiet_net N" "j < length (in_transports N)"
  shows "\<exists>N1. inprocess_WriteTo i p (ip_addr (in_transports N ! j)) N = (N1, Inr (length p)) \<and>
    inprocess_ReadFrom RecvPacket n j N1 = Some (N, Inr (take n p, ip_addr (in_transports N ! i)))"
proof -
  define t where "t = in_transports N ! j"
  have t: "in_registry N (ip_addr t) = Some j" "ip_incoming t = []" "\<not> ip_closed t"
    using assms by (simp_all add: quiet_net_def t_def)
  have "t\<lparr>ip_incoming := []\<rparr> = t" using t(2) by (cases t) simp
  then have "(in_transports N)[j := t\<lparr>ip_incoming := []\<rparr>] = in_transports N" by (simp add: t_def)
  with t assms(2) show ?thesis
    by (simp add: inprocess_WriteTo_def inprocess_ReadFrom_def Let_def flip: t_def)
qed

lemma quiet_ReadFrom: "quiet_net N \<Longrightarrow> j < length (in_transports N) \<Longrightarrow> inprocess_ReadFrom RecvPacket n j N = None"
  by (simp add: quiet_net_def inprocess_ReadFrom_def Let_def)

lemma quiet_serve: "quiet_cluster W \<Longrightarrow> j < hosts W \<Longrightarrow> serve j W = W"
  by (simp add: serve_def quiet_ReadFrom)

text \<open>What the reader of the datagram does with it; the network is quiet again but for the reply.\<close>

lemma serve_in_flight:
  assumes "quiet_cluster W" "i < hosts W" "j < hosts W"
  shows "serve j (in_flight i p j W) =
    (let host = cl_hosts W j; (d, request) = on_datagram (take 65535 p) (OtherAddr (host_addr W i)) (h_disp host) in
     case request of
       None \<Rightarrow> W\<lparr>cl_hosts := (cl_hosts W)(j := host\<lparr>h_disp := d\<rparr>)\<rparr>
     | Some (m, a) \<Rightarrow>
         let (n, handled) = handleRequest m a (h_node host);
             W' = W\<lparr>cl_hosts := (cl_hosts W)(j := \<lparr>h_node = n, h_disp = d\<rparr>)\<rparr>
         in case reply_datagram m handled of None \<Rightarrow> W' | Some b \<Rightarrow> in_flight j b i W')"
proof -
  obtain N1 where N1: "inprocess_WriteTo i p (host_addr W j) (cl_net W) = (N1, Inr (length p))"
    "inprocess_ReadFrom RecvPacket 65535 j N1 = Some (cl_net W, Inr (take 65535 p, host_addr W i))"
    using quiet_write [OF assms(1,3)] unfolding host_addr_def by blast
  then have "cl_net (in_flight i p j W) = N1" "cl_hosts (in_flight i p j W) = cl_hosts W" by (simp_all add: in_flight_def)
  then show ?thesis
    by (auto simp: serve_def N1 in_flight_def Let_def host_addr_def on_datagram_def split: sum.split option.split prod.split)
qed

subsection \<open>Replies come back to the request that waits\<close>

lemma decode_payload_header:
  "decode_payload m r = Inr m' \<Longrightarrow> m_Type m' = m_Type m \<and> m_TxID m' = m_TxID m \<and> m_SenderID m' = m_SenderID m"
  by (auto simp: decode_payload_def Let_def split: if_splits sum.splits)

lemma DecodeMessage_type: "DecodeMessage data = Inr m \<Longrightarrow> m_Type m = data ! 4"
  by (auto simp: DecodeMessage_def reader_read_def nth_append dest!: decode_payload_header
      split: if_splits sum.splits list.splits) (metis hd_drop_conv_nth linorder_not_less numeral_eq_iff list.sel(1) drop_all list.distinct(1))

lemma EncodeMessage_type: "EncodeMessage (Some m) = Inr b \<Longrightarrow> length (m_TxID m) = 4 \<Longrightarrow> b ! 4 = m_Type m"
  by (auto simp: EncodeMessage_def nth_append split: sum.splits)

lemma handled_type: "snd (handleRequest req src n) = Inr (Some resp) \<Longrightarrow> isResponse (m_Type resp)"
  by (auto simp: handleRequest_def Let_def isResponse_def msg_types split: if_splits)

lemma reply_type:
  assumes "reply_datagram m (snd (handleRequest req src n)) = Some b" "length (m_TxID m) = 4"
  shows "isResponse (b ! 4)"
proof -
  from assms(1) obtain resp where "snd (handleRequest req src n) = Inr (Some resp)"
    "EncodeMessage (Some (resp\<lparr>m_TxID := m_TxID m\<rparr>)) = Inr b"
    by (auto simp: reply_datagram_def split: sum.splits option.splits)
  with EncodeMessage_type [of "resp\<lparr>m_TxID := m_TxID m\<rparr>" b] handled_type [of req src n resp] assms(2) show ?thesis by simp
qed

lemma serve_reply:
  assumes "quiet_cluster W" "i < hosts W" "j < hosts W" "isResponse (b ! 4)"
  shows "serve i (in_flight j b i W) =
    set_disp i (case DecodeMessage (take 65535 b) of Inl _ \<Rightarrow> h_disp (cl_hosts W i)
      | Inr m \<Rightarrow> deliver m (h_disp (cl_hosts W i))) W"
proof -
  have "isResponse (m_Type m)" if "DecodeMessage (take 65535 b) = Inr m" for m
    using DecodeMessage_type [OF that] assms(4) by simp
  then show ?thesis
    by (auto simp: serve_in_flight [OF assms(1,3,2)] on_datagram_def set_disp_def Let_def split: sum.split)
qed

subsection \<open>A request to a host runs its handler\<close>

lemma set_disp_simps [simp]:
  "cl_net (set_disp i d W) = cl_net W" "cl_draws (set_disp i d W) = cl_draws W"
  "host_addr (set_disp i d W) k = host_addr W k"
  "h_node (cl_hosts (set_disp i d W) k) = h_node (cl_hosts W k)"
  "h_disp (cl_hosts (set_disp i d W) k) = (if k = i then d else h_disp (cl_hosts W k))"
  by (simp_all add: set_disp_def host_addr_def)

lemma quiet_bound:
  assumes "quiet_net N" "in_registry N target = Some j"
  shows "j < length (in_transports N)" "ip_addr (in_transports N ! j) = target"
  using assms by (auto simp: quiet_net_def inprocess_inv_def)

definition handle_at :: "nat \<Rightarrow> nat \<Rightarrow> dht_message \<Rightarrow> cluster \<Rightarrow> dht_node \<times> dht_message option result" where
  "handle_at i j m W = handleRequest m (OtherAddr (host_addr W i)) (h_node (cl_hosts W j))"

definition set_node :: "nat \<Rightarrow> dht_node \<Rightarrow> cluster \<Rightarrow> cluster" where
  "set_node j n W = W\<lparr>cl_hosts := (cl_hosts W)(j := (cl_hosts W j)\<lparr>h_node := n\<rparr>)\<rparr>"

lemma set_node_simps [simp]:
  "cl_net (set_node j n W) = cl_net W" "cl_draws (set_node j n W) = cl_draws W"
  "host_addr (set_node j n W) k = host_addr W k"
  "h_node (cl_hosts (set_node j n W) k) = (if k = j then n else h_node (cl_hosts W k))"
  "h_disp (cl_hosts (set_node j n W) k) = h_disp (cl_hosts W k)"
  by (simp_all add: set_node_def host_addr_def)

lemma serve_request:
  assumes "quiet_cluster W" "i < hosts W" "j < hosts W"
    and "DecodeMessage (take 65535 data) = Inr m" "\<not> isResponse (m_Type m)"
  shows "serve j (in_flight i data j W) =
    (let W' = set_node j (fst (handle_at i j m W)) W
     in case reply_datagram m (snd (handle_at i j m W)) of None \<Rightarrow> W' | Some b \<Rightarrow> in_flight j b i W')"
proof -
  have eq: "\<lparr>h_node = n, h_disp = h_disp (cl_hosts W j)\<rparr> = (cl_hosts W j)\<lparr>h_node := n\<rparr>" for n
    by (cases "cl_hosts W j") simp
  show ?thesis
    using assms(4,5)
    by (auto simp: serve_in_flight [OF assms(1-3)] on_datagram_def handle_at_def set_node_def Let_def eq
        split: prod.split option.split)
qed

text \<open>Both passes of the read loops: the receiver's node is updated, the sender's dispatcher gets the reply.\<close>

lemma serve_both:
  assumes "quiet_cluster W" "i < hosts W" "j < hosts W"
    and "DecodeMessage (take 65535 data) = Inr m" "\<not> isResponse (m_Type m)" "length (m_TxID m) = 4"
  shows "serve i (serve j (in_flight i data j W)) =
    (let W' = set_node j (fst (handle_at i j m W)) W in
     case reply_datagram m (snd (handle_at i j m W)) of None \<Rightarrow> W'
     | Some b \<Rightarrow> set_disp i (case DecodeMessage (take 65535 b) of Inl _ \<Rightarrow> h_disp (cl_hosts W i)
         | Inr r \<Rightarrow> deliver r (h_disp (cl_hosts W i))) W')"
proof -
  let ?W' = "set_node j (fst (handle_at i j m W)) W"
  have q: "quiet_cluster ?W'" "i < hosts ?W'" "j < hosts ?W'" using assms(1-3) by simp_all
  show ?thesis
  proof (cases "reply_datagram m (snd (handle_at i j m W))")
    case None
    then show ?thesis
      using quiet_serve [OF q(1,2)] by (simp add: serve_request [OF assms(1-5)] Let_def)
  next
    case (Some b)
    then have "isResponse (b ! 4)" using reply_type assms(6) unfolding handle_at_def by blast
    from serve_reply [OF q this] Some show ?thesis
      by (simp add: serve_request [OF assms(1-5)] Let_def cong: sum.case_cong)
  qed
qed

lemma send_in_flight:
  assumes "quiet_cluster W" "in_registry (cl_net W) target = Some j"
  shows "send_datagram i data target W = (in_flight i data j W, None)"
proof -
  obtain N1 where "inprocess_WriteTo i data target (cl_net W) = (N1, Inr (length data))"
    using quiet_bound [OF assms] quiet_write [OF assms(1), of j i data] by blast
  then show ?thesis using quiet_bound(2) [OF assms] by (simp add: send_datagram_def in_flight_def host_addr_def)
qed

lemma in_flight_set_disp: "set_disp k d (in_flight i data j W) = in_flight i data j (set_disp k d W)"
  by (simp add: in_flight_def set_disp_def host_addr_def)

lemma deliver_fresh:
  assumes "pr = \<lparr>pr_tx = tx, pr_responseChan = None, pr_expiry = e\<rparr>" "m_TxID m = tx"
    and "d1 = d\<lparr>d_pending := (d_pending d)(tx \<mapsto> length (d_requests d)), d_requests := d_requests d @ [pr]\<rparr>"
  shows "snd (send_finish ResponseReady (length (d_requests d)) (deliver m d1)) = Some (Inr m)"
    and "snd (send_finish ResponseReady (length (d_requests d)) d1) = None"
  using assms by (simp_all add: send_finish_def deliver_def Let_def)

lemma cluster_rpc_request:
  assumes "quiet_cluster W" "i < hosts W" "in_registry (cl_net W) target = Some j"
    and "EncodeMessage (Some req) = Inr data" "DecodeMessage (take 65535 data) = Inr m"
    and "\<not> isResponse (m_Type m)" "length (m_TxID m) = 4"
  obtains r d W' where "cluster_rpc i target req W = (r, set_disp i d W')"
    "W' = set_node j (fst (handle_at i j m W)) W"
    "\<And>b resp. reply_datagram m (snd (handle_at i j m W)) = Some b \<Longrightarrow> DecodeMessage (take 65535 b) = Inr resp \<Longrightarrow>
      m_TxID resp = m_TxID req \<Longrightarrow> r = Inr resp"
proof -
  define d where "d = h_disp (cl_hosts W i)"
  define d1 where "d1 = d\<lparr>d_pending := (d_pending d)(m_TxID req \<mapsto> length (d_requests d)),
    d_requests := d_requests d @ [\<lparr>pr_tx = m_TxID req, pr_responseChan = None, pr_expiry = 5\<rparr>]\<rparr>"
  define W' where "W' = set_node j (fst (handle_at i j m W)) W"
  have st: "send_start 0 None req d = (d1, Inr (length (d_requests d), data))"
    using assms(4) by (simp add: send_start_def d1_def Let_def)
  have q: "quiet_cluster (set_disp i d1 W)" "i < hosts (set_disp i d1 W)" "j < hosts (set_disp i d1 W)"
    using assms(1,2) quiet_bound(1) [OF assms(1,3)] by simp_all
  have at: "handle_at i j m (set_disp i d1 W) = handle_at i j m W" by (simp add: handle_at_def)
  have comm: "set_node j n (set_disp i d1 W) = set_disp i d1 (set_node j n W)" for n
    by (cases "cl_hosts W j"; cases "i = j") (simp_all add: set_node_def set_disp_def fun_upd_twist)
  have twice: "set_disp i x (set_disp i y V) = set_disp i x V" for x y V by (simp add: set_disp_def)
  let ?d2 = "case reply_datagram m (snd (handle_at i j m W)) of None \<Rightarrow> d1
     | Some b \<Rightarrow> (case DecodeMessage (take 65535 b) of Inl _ \<Rightarrow> d1 | Inr r \<Rightarrow> deliver r d1)"
  have both: "serve i (serve j (in_flight i data j (set_disp i d1 W))) = set_disp i ?d2 W'"
    by (simp add: serve_both [OF q assms(5-7)] at comm twice W'_def split: option.split sum.split)
  have rpc: "cluster_rpc i target req W =
      (case send_finish ResponseReady (length (d_requests d)) ?d2 of
         (d3, Some r) \<Rightarrow> (r, set_disp i d3 W') | (d3, None) \<Rightarrow> (Inl (ErrNew ''request timeout''), set_disp i d3 W'))"
    using assms(3,4) st both
    by (simp add: cluster_rpc_def send_in_flight [OF assms(1,3)] in_flight_set_disp twice Let_def
        split: prod.split option.split flip: d_def)
  obtain d3 ro where f: "send_finish ResponseReady (length (d_requests d)) ?d2 = (d3, ro)" by force
  show thesis
  proof (rule that [OF _ W'_def])
    show "cluster_rpc i target req W = (case ro of Some r \<Rightarrow> r | None \<Rightarrow> Inl (ErrNew ''request timeout''), set_disp i d3 W')"
      by (simp add: rpc f split: option.split)
    fix b resp
    assume b: "reply_datagram m (snd (handle_at i j m W)) = Some b" "DecodeMessage (take 65535 b) = Inr resp"
      "m_TxID resp = m_TxID req"
    then have "?d2 = deliver resp d1" by simp
    with deliver_fresh(1) [OF refl b(3) d1_def] f have "ro = Some (Inr resp)" by simp
    then show "(case ro of Some r \<Rightarrow> r | None \<Rightarrow> Inl (ErrNew ''request timeout'')) = Inr resp" by simp
  qed
qed

subsection \<open>An RPC is a call of the remote handler\<close>

definition request_types :: "msg_type set" where
  "request_types = {MsgPing, MsgFindNode, MsgAnnounce, MsgLookup}"

lemma request_not_response: "t \<in> request_types \<Longrightarrow> \<not> isResponse t"
  by (auto simp: request_types_def isResponse_def msg_types)

lemma payload_of_simps [simp]:
  "m_Type (payload_of m) = m_Type m" "m_TxID (payload_of m) = m_TxID m" "m_SenderID (payload_of m) = m_SenderID m"
  by (simp_all add: payload_of_def Let_def)

text \<open>A request is one short datagram and decodes to its payload.\<close>

lemma request_datagram:
  assumes "wf_message req" "m_Type req \<in> request_types"
  obtains data where "EncodeMessage (Some req) = Inr data" "DecodeMessage (take 65535 data) = Inr (payload_of req)"
proof -
  obtain b where b: "EncodeMessage (Some req) = Inr b"
    "\<forall>rest. DecodeMessage (b @ rest) = (if ends_empty req \<and> rest = [] then Inl EOF else Inr (payload_of req))"
    using decode_encode_message [OF assms(1)] by metis
  have "\<not> ends_empty req" using assms(2) by (auto simp: ends_empty_def request_types_def msg_types)
  moreover have "length b \<le> 71"
    using assms b(1) by (auto simp: EncodeMessage_def encode_payload_def wf_message_def request_types_def Let_def msg_types split: if_splits)
  ultimately have "DecodeMessage (take 65535 b) = Inr (payload_of req)" using b(2) [rule_format, of "[]"] by simp
  with b(1) that show thesis by blast
qed

text \<open>A handler's reply has no field beside those of its type.\<close>

lemma handled_reply_payload:
  "snd (handleRequest req src n) = Inr (Some resp) \<Longrightarrow> payload_of (resp\<lparr>m_TxID := tx\<rparr>) = resp\<lparr>m_TxID := tx\<rparr>"
  by (auto simp: handleRequest_def Let_def payload_of_def zero_message_def msg_types split: if_splits)

definition reply_bytes :: "dht_message \<Rightarrow> bytes" where
  "reply_bytes m = (case EncodeMessage (Some m) of Inl _ \<Rightarrow> [] | Inr b \<Rightarrow> b)"

lemma cluster_rpc_reply:
  assumes "quiet_cluster W" "i < hosts W" "in_registry (cl_net W) target = Some j"
    and "wf_message req" "m_Type req \<in> request_types" "payload_of req = req"
    and "node_fits (h_node (cl_hosts W j))" "source_fits (OtherAddr (host_addr W i))"
    and "fits16 (GetPeers (n_registry (h_node (cl_hosts W j))) (m_Topic req))"
    and "handleRequest req (OtherAddr (host_addr W i)) (h_node (cl_hosts W j)) = (n', Inr (Some resp))"
    and "length (reply_bytes (resp\<lparr>m_TxID := m_TxID req\<rparr>)) \<le> 65535"
  shows "\<exists>W'. cluster_rpc i target req W = (Inr (resp\<lparr>m_TxID := m_TxID req\<rparr>), W') \<and> quiet_cluster W' \<and>
    node_fits n' \<and> (\<forall>k. h_node (cl_hosts W' k) = (if k = j then n' else h_node (cl_hosts W k)))"
proof -
  have len: "length (m_SenderID req) = 32" "length (m_TxID req) = 4" using assms(4) by (simp_all add: wf_message_def)
  have ty: "m_Type req \<in> {MsgPing, MsgFindNode, MsgAnnounce, MsgLookup}" using assms(5) by (simp add: request_types_def)
  from handled_reply_wf [OF assms(7,8) len assms(9) ty] assms(10) have
    wf: "wf_message (resp\<lparr>m_TxID := m_TxID req\<rparr>)" "\<not> ends_empty (resp\<lparr>m_TxID := m_TxID req\<rparr>)" by auto
  obtain b where b: "EncodeMessage (Some (resp\<lparr>m_TxID := m_TxID req\<rparr>)) = Inr b"
    "DecodeMessage b = Inr (payload_of (resp\<lparr>m_TxID := m_TxID req\<rparr>))"
    using decode_encode_message [OF wf(1)] wf(2) by (metis append_Nil2)
  then have "take 65535 b = b" using assms(11) by (simp add: reply_bytes_def)
  then have dec: "DecodeMessage (take 65535 b) = Inr (resp\<lparr>m_TxID := m_TxID req\<rparr>)"
    using b(2) handled_reply_payload [of req "OtherAddr (host_addr W i)" "h_node (cl_hosts W j)" resp "m_TxID req"] assms(10) by simp
  obtain data where data: "EncodeMessage (Some req) = Inr data" "DecodeMessage (take 65535 data) = Inr req"
    using request_datagram [OF assms(4,5)] assms(6) by metis
  have at: "handle_at i j req W = (n', Inr (Some resp))" using assms(10) by (simp add: handle_at_def)
  then have rep: "reply_datagram req (snd (handle_at i j req W)) = Some b" using b(1) by (simp add: reply_datagram_def)
  from cluster_rpc_request [OF assms(1-3) data request_not_response [OF assms(5)] len(2)] obtain r d W' where
    rpc: "cluster_rpc i target req W = (r, set_disp i d W')" "W' = set_node j (fst (handle_at i j req W)) W"
    "\<And>b resp. reply_datagram req (snd (handle_at i j req W)) = Some b \<Longrightarrow> DecodeMessage (take 65535 b) = Inr resp \<Longrightarrow>
      m_TxID resp = m_TxID req \<Longrightarrow> r = Inr resp" by blast
  have "r = Inr (resp\<lparr>m_TxID := m_TxID req\<rparr>)" by (rule rpc(3) [OF rep dec]) simp
  moreover have "node_fits n'" using handleRequest_fits [OF assms(7,8) len(1)] assms(10) by simp
  ultimately show ?thesis using rpc(1,2) assms(1) at by (intro exI [of _ "set_disp i d W'"]) simp
qed

text \<open>
  C22. A request is a call of the remote handler. In a quiet cluster whose target stores what it can
  encode, \<open>SendRequest\<close> returns exactly the message that the target's handler returned, under the
  request's transaction ID, if the reply is one datagram of at most 65535 bytes; the target's node
  is the one its handler left, no other node changes, and the cluster is quiet again.
\<close>

theorem rpc_calls_remote_handler:
  assumes "quiet_cluster W" "i < hosts W" "in_registry (cl_net W) target = Some j"
    and "wf_message req" "m_Type req \<in> request_types" "payload_of req = req"
    and "node_fits (h_node (cl_hosts W j))" "source_fits (OtherAddr (host_addr W i))"
    and "fits16 (GetPeers (n_registry (h_node (cl_hosts W j))) (m_Topic req))"
    and "handleRequest req (OtherAddr (host_addr W i)) (h_node (cl_hosts W j)) = (n', Inr (Some resp))"
    and "length (reply_bytes (resp\<lparr>m_TxID := m_TxID req\<rparr>)) \<le> 65535"
  shows "\<exists>W'. cluster_rpc i target req W = (Inr (resp\<lparr>m_TxID := m_TxID req\<rparr>), W') \<and> quiet_cluster W' \<and>
    node_fits n' \<and> (\<forall>k. h_node (cl_hosts W' k) = (if k = j then n' else h_node (cl_hosts W k)))"
  by (rule cluster_rpc_reply [OF assms])

subsection \<open>Clusters under a node's operations\<close>

definition cluster_ok :: "cluster \<Rightarrow> bool" where
  "cluster_ok W \<longleftrightarrow> quiet_cluster W \<and>
     (\<forall>k < hosts W. node_fits (h_node (cl_hosts W k)) \<and> source_fits (OtherAddr (host_addr W k)))"

text \<open>What a request of host \<open>i\<close> does to the cluster, answered or not.\<close>

lemma cluster_rpc_effect:
  assumes "quiet_cluster W" "i < hosts W" "wf_message req" "m_Type req \<in> request_types"
  shows "\<exists>d. snd (cluster_rpc i target req W) = set_disp i d
    (case in_registry (cl_net W) target of None \<Rightarrow> W
     | Some j \<Rightarrow> set_node j (fst (handle_at i j (payload_of req) W)) W)"
proof -
  obtain data where data: "EncodeMessage (Some req) = Inr data" "DecodeMessage (take 65535 data) = Inr (payload_of req)"
    using request_datagram [OF assms(3,4)] by metis
  show ?thesis
  proof (cases "in_registry (cl_net W) target")
    case None
    then have "send_datagram i data target W = (W, Some (ErrNew ''network unreachable or destination address not bound''))"
      by (simp add: send_datagram_def inprocess_WriteTo_def)
    with data(1) None show ?thesis by (auto simp: cluster_rpc_def send_start_def Let_def)
  next
    case (Some j)
    have "\<not> isResponse (m_Type (payload_of req))" "length (m_TxID (payload_of req)) = 4"
      using request_not_response [OF assms(4)] assms(3) by (simp_all add: wf_message_def)
    from cluster_rpc_request [OF assms(1,2) Some data this] Some show ?thesis by (metis option.simps(5) snd_conv)
  qed
qed

lemma cluster_rpc_keeps:
  assumes "cluster_ok W" "i < hosts W" "wf_message req" "m_Type req \<in> request_types"
    and "snd (cluster_rpc i target req W) = W'"
  shows "cluster_ok W'" "cl_net W' = cl_net W"
    and "n_registry (h_node (cl_hosts W' k)) = (if m_Type req = MsgAnnounce \<and> in_registry (cl_net W) target = Some k
      then handle_announce (payload_of req) (OtherAddr (host_addr W i)) (n_registry (h_node (cl_hosts W k)))
      else n_registry (h_node (cl_hosts W k)))"
proof -
  have quiet: "quiet_cluster W" using assms(1) by (simp add: cluster_ok_def)
  obtain d where W': "W' = set_disp i d (case in_registry (cl_net W) target of None \<Rightarrow> W
      | Some j \<Rightarrow> set_node j (fst (handle_at i j (payload_of req) W)) W)"
    using cluster_rpc_effect [OF quiet assms(2-4), of target] assms(5) by blast
  show "cl_net W' = cl_net W" by (simp add: W' split: option.split)
  have fits: "node_fits (fst (handle_at i j (payload_of req) W))" if "in_registry (cl_net W) target = Some j" for j
    using quiet_bound [OF quiet that] assms(1-3)
    by (auto simp: handle_at_def cluster_ok_def wf_message_def intro!: handleRequest_fits)
  show "cluster_ok W'"
    using assms(1) fits by (auto simp: W' cluster_ok_def split: option.split)
  have reg: "n_registry (fst (handleRequest m src n)) =
      (if m_Type m = MsgAnnounce then handle_announce m src (n_registry n) else n_registry n)" for m src n
    by (simp add: handleRequest_def Let_def msg_types)
  show "n_registry (h_node (cl_hosts W' k)) = (if m_Type req = MsgAnnounce \<and> in_registry (cl_net W) target = Some k
      then handle_announce (payload_of req) (OtherAddr (host_addr W i)) (n_registry (h_node (cl_hosts W k)))
      else n_registry (h_node (cl_hosts W k)))"
    by (auto simp: W' handle_at_def reg split: option.split)
qed

text \<open>Responses were decoded, so the cluster is a network in the sense of the node's operations.\<close>

definition decoded_chan :: "nat \<Rightarrow> dispatcher \<Rightarrow> bool" where
  "decoded_chan h d \<longleftrightarrow> h < length (d_requests d) \<and>
     (\<forall>m. pr_responseChan (d_requests d ! h) = Some m \<longrightarrow> (\<exists>data. DecodeMessage data = Inr m))"

lemma decoded_chan_deliver:
  assumes "decoded_chan h d" "DecodeMessage data = Inr m"
  shows "decoded_chan h (deliver m d)"
proof (cases "d_pending d (m_TxID m)")
  case None
  with assms(1) show ?thesis by (simp add: deliver_def)
next
  case (Some k)
  with assms show ?thesis
    by (cases "k = h") (auto simp: decoded_chan_def deliver_def Let_def split: option.split)
qed

lemma decoded_chan_serve:
  assumes "decoded_chan h (h_disp (cl_hosts W i))"
  shows "decoded_chan h (h_disp (cl_hosts (serve j W) i))"
proof -
  have "decoded_chan h (fst (on_datagram data src d))" if "decoded_chan h d" for data src d
    using that decoded_chan_deliver by (auto simp: on_datagram_def split: sum.split)
  then have "on_datagram data src (h_disp (cl_hosts W i)) = (d, r) \<Longrightarrow> decoded_chan h d" for data src d r
    using assms by (metis fst_conv)
  with assms show ?thesis
    by (auto simp: serve_def Let_def split: option.split sum.split prod.split)
qed

lemma cluster_rpc_decoded:
  assumes "cluster_rpc i target req W = (Inr resp, W')"
  shows "\<exists>data. DecodeMessage data = Inr resp"
proof -
  obtain W1 werr where w: "(case EncodeMessage (Some req) of Inl _ \<Rightarrow> (W, None) | Inr data \<Rightarrow> send_datagram i data target W) = (W1, werr)"
    by force
  obtain d h data where s: "send_start 0 werr req (h_disp (cl_hosts W i)) = (d, Inr (h, data))"
    using assms w by (auto simp: cluster_rpc_def Let_def split: prod.splits sum.splits)
  let ?W2 = "serve i (case in_registry (cl_net W) target of None \<Rightarrow> set_disp i d W1
    | Some j \<Rightarrow> serve j (set_disp i d W1))"
  have "decoded_chan h d"
    using s by (auto simp: send_start_def Let_def decoded_chan_def split: sum.splits option.splits)
  then have "decoded_chan h (h_disp (cl_hosts ?W2 i))"
    by (auto intro!: decoded_chan_serve split: option.split)
  moreover have "pr_responseChan (d_requests (h_disp (cl_hosts ?W2 i)) ! h) = Some resp"
    using assms w s by (auto simp: cluster_rpc_def Let_def send_finish_def split: option.splits)
  ultimately show ?thesis by (simp add: decoded_chan_def)
qed

lemma cluster_network_ok:
  assumes "\<And>xs. mset (order xs) = mset xs"
  shows "network_ok (cluster_network rand order i)"
proof -
  have "list_all (\<lambda>c. length (c_ID c) = 32) (m_Contacts resp)" if "cluster_rpc i a m w = (Inr resp, w')" for a m w resp w'
    using cluster_rpc_decoded [OF that] decode_lengths(2) by blast
  with assms show ?thesis unfolding network_ok_def cluster_network_def by auto
qed

subsection \<open>What a node's operations keep of the cluster\<close>

lemma ask_all_keeps:
  assumes "\<And>w a. P w \<Longrightarrow> P (snd (ask N n req a w))" "P w"
  shows "P (snd (ask_all N n req cs w))"
  using assms(2)
proof (induction cs arbitrary: w)
  case (Cons c cs)
  obtain r w1 where a: "ask N n req (c_Addr c) w = (r, w1)" by force
  have "P w1" using assms(1) [OF Cons.prems, of "c_Addr c"] a by simp
  from Cons.IH [OF this] a show ?case by (auto simp: Let_def split: prod.split)
qed simp

text \<open>Asking one of the contacts establishes what the later requests keep.\<close>

lemma ask_all_reaches:
  assumes "\<And>w a. P w \<Longrightarrow> P (snd (ask N n req a w))" "\<And>w a. Q w \<Longrightarrow> Q (snd (ask N n req a w))"
    and "\<And>w. P w \<Longrightarrow> Q (snd (ask N n req (c_Addr c) w))" "c \<in> set cs" "P w"
  shows "Q (snd (ask_all N n req cs w))"
  using assms(4,5)
proof (induction cs arbitrary: w)
  case Nil
  then show ?case by simp
next
  case (Cons d cs)
  obtain r w1 where a: "ask N n req (c_Addr d) w = (r, w1)" by force
  have "Q (snd (ask_all N n req cs w1))"
  proof (cases "c = d")
    case True
    then have "Q w1" using assms(3) [OF Cons.prems(2)] a by simp
    then show ?thesis using ask_all_keeps [of Q] assms(2) by blast
  next
    case False
    then show ?thesis using Cons.IH [of w1] Cons.prems assms(1) [of w "c_Addr d"] a by simp
  qed
  then show ?case by (auto simp: a Let_def split: prod.split)
qed

text \<open>The answer of each contact is the result of a request in a state that the requests before it left.\<close>

lemma ask_all_answer:
  assumes "\<And>w a. P w \<Longrightarrow> P (snd (ask N n req a w))" "c \<in> set cs" "P w"
  shows "\<exists>w'. P w' \<and> (c, fst (ask N n req (c_Addr c) w')) \<in> set (fst (ask_all N n req cs w))"
  using assms(2,3)
proof (induction cs arbitrary: w)
  case Nil
  then show ?case by simp
next
  case (Cons d cs)
  obtain r w1 where a: "ask N n req (c_Addr d) w = (r, w1)" by force
  show ?case
  proof (cases "c = d")
    case True
    then show ?thesis using Cons.prems(2) by (intro exI [of _ w]) (simp add: a Let_def split: prod.split)
  next
    case False
    then show ?thesis
      using Cons.IH [of w1] Cons.prems assms(1) [of w "c_Addr d"] a by (auto simp: Let_def split: prod.split)
  qed
qed

lemma fs_world_fold_take [simp]: "fs_world (fold (take_result l) rs s) = fs_world s"
proof (induction rs arbitrary: s)
  case (Cons r rs)
  then show ?case by (auto simp: take_result_def Let_def split: prod.split sum.split option.split)
qed simp

text \<open>What the requests of a lookup keep, the lookup keeps.\<close>

definition find_request :: "node_id \<Rightarrow> dht_message" where
  "find_request target = zero_message\<lparr>m_Type := MsgFindNode, m_Target := target\<rparr>"

lemma find_round_keeps:
  assumes "\<And>w a. P w \<Longrightarrow> P (snd (ask N n (find_request target) a w))" "find_round N n target s = (Some s', xs)"
    and "P (fs_world s)"
  shows "P (fs_world s')"
  using assms(2,3) ask_all_keeps [of P, OF assms(1)]
  by (auto simp: find_round_def Let_def find_request_def split: if_splits prod.splits) (metis snd_conv)

lemma find_loop_keeps:
  assumes "find_loop N n target s = Some y" "\<And>w a. P w \<Longrightarrow> P (snd (ask N n (find_request target) a w))"
    and "P (fs_world s)"
  shows "P (fs_world (snd y))"
proof -
  have "(\<forall>w a. P w \<longrightarrow> P (snd (ask N n (find_request target) a w))) \<longrightarrow> P (fs_world s) \<longrightarrow> P (fs_world (snd y))"
  proof (rule find_loop.raw_induct [OF _ assms(1)])
    fix loop :: "'a network \<Rightarrow> dht_node \<Rightarrow> node_id \<Rightarrow> 'a find_state \<Rightarrow> (contact list \<times> 'a find_state) option"
      and N n target s y
    assume IH: "\<And>N n target s y. loop N n target s = Some y \<Longrightarrow>
        (\<forall>w a. P w \<longrightarrow> P (snd (ask N n (find_request target) a w))) \<longrightarrow> P (fs_world s) \<longrightarrow> P (fs_world (snd y))"
      and body: "(case find_round N n target s of
          (None, ordered) \<Rightarrow> Some (if 20 < length ordered then take 20 ordered else ordered, s)
        | (Some s', _) \<Rightarrow> loop N n target s') = Some y"
    show "(\<forall>w a. P w \<longrightarrow> P (snd (ask N n (find_request target) a w))) \<longrightarrow> P (fs_world s) \<longrightarrow> P (fs_world (snd y))"
    proof (intro impI)
      assume keeps: "\<forall>w a. P w \<longrightarrow> P (snd (ask N n (find_request target) a w))" and s: "P (fs_world s)"
      obtain ro xs where r: "find_round N n target s = (ro, xs)" by force
      show "P (fs_world (snd y))"
      proof (cases ro)
        case None
        with body r s show ?thesis by (auto split: if_splits)
      next
        case (Some s')
        then have "P (fs_world s')" using find_round_keeps [of P] keeps r s by blast
        with IH body Some r keeps show ?thesis by auto
      qed
    qed
  qed
  with assms(2,3) show ?thesis by blast
qed

lemma iterativeFindNode_keeps:
  assumes "iterativeFindNode N n target w = Some (cs, n', w')"
    and "\<And>w a. P w \<Longrightarrow> P (snd (ask N n (find_request target) a w))" "P w"
  shows "P w'"
  using assms(1) find_loop_keeps [of N n target _ _ P, OF _ assms(2)] assms(3)
  by (fastforce simp: iterativeFindNode_def Let_def split: option.splits prod.splits)

subsection \<open>An announced peer is found\<close>

text \<open>The registry of host \<open>k\<close> is one of \<open>R\<close>, in a cluster of the transports \<open>N0\<close>.\<close>

definition reg_in :: "nat \<Rightarrow> swarm_registry set \<Rightarrow> inprocess_net \<Rightarrow> cluster \<Rightarrow> bool" where
  "reg_in k R N0 W \<longleftrightarrow> cluster_ok W \<and> cl_net W = N0 \<and> n_registry (h_node (cl_hosts W k)) \<in> R"

lemma cluster_draws [simp]:
  "cluster_ok (W\<lparr>cl_draws := x\<rparr>) = cluster_ok W" "reg_in k R N0 (W\<lparr>cl_draws := x\<rparr>) = reg_in k R N0 W"
  by (simp_all add: cluster_ok_def reg_in_def host_addr_def)

lemma ask_cluster:
  assumes "\<not> n_udp n"
  shows "ask (cluster_network rand order i) n req addr W =
    cluster_rpc i addr (req\<lparr>m_TxID := rand (cl_draws W), m_SenderID := n_localID n\<rparr>) (W\<lparr>cl_draws := Suc (cl_draws W)\<rparr>)"
  using assms by (simp add: ask_def resolveAddr_def cluster_network_def)

definition dht_request :: "dht_message \<Rightarrow> bool" where
  "dht_request req \<longleftrightarrow> wf_message (req\<lparr>m_TxID := [0, 0, 0, 0], m_SenderID := zero_id\<rparr>) \<and> m_Type req \<in> request_types \<and> payload_of req = req"

lemma dht_request_sent:
  assumes "dht_request req" "length tx = 4" "length sender = 32"
  shows "wf_message (req\<lparr>m_TxID := tx, m_SenderID := sender\<rparr>)"
    "payload_of (req\<lparr>m_TxID := tx, m_SenderID := sender\<rparr>) = req\<lparr>m_TxID := tx, m_SenderID := sender\<rparr>"
proof -
  show "wf_message (req\<lparr>m_TxID := tx, m_SenderID := sender\<rparr>)" using assms by (simp add: dht_request_def wf_message_def)
  have "payload_of (req\<lparr>m_TxID := tx, m_SenderID := sender\<rparr>) = (payload_of req)\<lparr>m_TxID := tx, m_SenderID := sender\<rparr>"
    by (simp add: payload_of_def Let_def)
  then show "payload_of (req\<lparr>m_TxID := tx, m_SenderID := sender\<rparr>) = req\<lparr>m_TxID := tx, m_SenderID := sender\<rparr>"
    using assms(1) by (simp add: dht_request_def)
qed

lemma node_requests:
  "length target = 32 \<Longrightarrow> dht_request (find_request target)"
  "length topic = 32 \<Longrightarrow> dht_request (zero_message\<lparr>m_Type := MsgAnnounce, m_Topic := topic, m_Port := port\<rparr>)"
  "length topic = 32 \<Longrightarrow> dht_request (zero_message\<lparr>m_Type := MsgLookup, m_Topic := topic\<rparr>)"
  by (simp_all add: dht_request_def find_request_def wf_message_def zero_message_def zero_id_def fits16_def
      request_types_def payload_of_def msg_types)

text \<open>A caller on the cluster: host \<open>i\<close> with the node \<open>n\<close>, and 4-byte transaction IDs.\<close>

definition caller :: "(nat \<Rightarrow> bytes) \<Rightarrow> nat \<Rightarrow> dht_node \<Rightarrow> inprocess_net \<Rightarrow> bool" where
  "caller rand i n N0 \<longleftrightarrow> (\<forall>x. length (rand x) = 4) \<and> i < length (in_transports N0) \<and> \<not> n_udp n \<and> length (n_localID n) = 32"

lemma ask_keeps_reg:
  assumes "caller rand i n N0" "dht_request req" "reg_in k R N0 W" "m_Type req = MsgAnnounce \<longrightarrow>
      (\<forall>r \<in> R. \<forall>src. src = OtherAddr (ip_addr (in_transports N0 ! i)) \<longrightarrow> handle_announce req src r \<in> R)"
  shows "reg_in k R N0 (snd (ask (cluster_network rand order i) n req addr W))"
proof -
  let ?req = "req\<lparr>m_TxID := rand (cl_draws W), m_SenderID := n_localID n\<rparr>" and ?W = "W\<lparr>cl_draws := Suc (cl_draws W)\<rparr>"
  have c: "cluster_ok ?W" "cl_net ?W = N0" "i < hosts ?W" using assms(1,3) by (simp_all add: reg_in_def caller_def)
  have r: "wf_message ?req" "payload_of ?req = ?req" "m_Type ?req \<in> request_types"
    using dht_request_sent [OF assms(2)] assms(1,2) by (simp_all add: caller_def dht_request_def)
  note keep = cluster_rpc_keeps [OF c(1,3) r(1,3) refl, of addr]
  have ann: "handle_announce ?req src q = handle_announce req src q" for src q
    by (simp add: handle_announce_def cong: if_cong)
  have "n_registry (h_node (cl_hosts W k)) \<in> R" using assms(3) by (simp add: reg_in_def)
  then show ?thesis
    using keep(1,2) keep(3) [of k] assms(3,4) r(2) c(2) ann
    by (simp add: reg_in_def ask_cluster caller_def host_addr_def assms(1) [unfolded caller_def])
qed

lemma register_known: "a \<in> set (GetPeers r t) \<Longrightarrow> RegisterPeer r t a = r"
  by (simp add: RegisterPeer_def GetPeers_def Let_def split: option.splits)

lemma register_twice: "RegisterPeer (RegisterPeer r t a) t a = RegisterPeer r t a"
  by (rule register_known) (simp add: GetPeers_register)

text \<open>The registry of a host that an announce reaches.\<close>

lemma announce_reaches:
  assumes "caller rand i n N0" "length topic = 32" "port \<noteq> 0" "reg_in j {r} N0 W"
    and "in_registry N0 (c_Addr c) = Some j" "c \<in> set cs"
  defines "r1 \<equiv> RegisterPeer r topic (announced_addr (OtherAddr (ip_addr (in_transports N0 ! i))) port)"
  shows "reg_in j {r1} N0 (snd (ask_all (cluster_network rand order i) n
    (zero_message\<lparr>m_Type := MsgAnnounce, m_Topic := topic, m_Port := port\<rparr>) cs W))"
proof -
  let ?req = "zero_message\<lparr>m_Type := MsgAnnounce, m_Topic := topic, m_Port := port\<rparr>"
    and ?src = "OtherAddr (ip_addr (in_transports N0 ! i))"
  note req = node_requests(2) [OF assms(2), of port]
  have ann: "handle_announce ?req ?src q = RegisterPeer q topic (announced_addr ?src port)" for q
    using assms(3) by (simp add: handle_announce_def)
  show ?thesis
  proof (rule ask_all_reaches [where P = "reg_in j {r, r1} N0" and c = c])
    show "reg_in j {r, r1} N0 (snd (ask (cluster_network rand order i) n ?req a w))" if "reg_in j {r, r1} N0 w" for w a
      by (rule ask_keeps_reg [OF assms(1) req that]) (simp add: ann r1_def register_twice)
    show "reg_in j {r1} N0 (snd (ask (cluster_network rand order i) n ?req a w))" if "reg_in j {r1} N0 w" for w a
      by (rule ask_keeps_reg [OF assms(1) req that]) (simp add: ann r1_def register_twice)
    show "reg_in j {r1} N0 (snd (ask (cluster_network rand order i) n ?req (c_Addr c) w))" if w: "reg_in j {r, r1} N0 w" for w
    proof -
      let ?req' = "?req\<lparr>m_TxID := rand (cl_draws w), m_SenderID := n_localID n\<rparr>"
      have c: "cluster_ok (w\<lparr>cl_draws := Suc (cl_draws w)\<rparr>)" "i < hosts (w\<lparr>cl_draws := Suc (cl_draws w)\<rparr>)"
        using assms(1) w by (simp_all add: reg_in_def caller_def)
      have r: "wf_message ?req'" "payload_of ?req' = ?req'" "m_Type ?req' \<in> request_types"
        using dht_request_sent [OF req] assms(1) req by (simp_all add: caller_def dht_request_def)
      have ann': "handle_announce ?req' ?src q = RegisterPeer q topic (announced_addr ?src port)" for q
        using assms(3) by (simp add: handle_announce_def)
      have known: "n_registry (h_node (cl_hosts w j)) \<in> {r, r1}" and net: "cl_net w = N0" using w by (simp_all add: reg_in_def)
      from known have "RegisterPeer (n_registry (h_node (cl_hosts w j))) topic (announced_addr ?src port) = r1"
        by (auto simp: r1_def register_twice)
      moreover note keep = cluster_rpc_keeps [OF c r(1,3) refl, of "c_Addr c"]
      ultimately show ?thesis
        using keep(1,2) keep(3) [of j] net assms(5) r(2) ann'
        by (simp add: reg_in_def ask_cluster host_addr_def assms(1) [unfolded caller_def])
    qed
    show "reg_in j {r, r1} N0 W" using assms(4) by (simp add: reg_in_def)
  qed (rule assms(6))
qed

definition peers_size :: "string list \<Rightarrow> nat" where
  "peers_size ps = 39 + sum_list (map (\<lambda>p. length p + 2) ps)"

lemma reply_bytes_peers:
  assumes "length tx = 4" "length l = 32"
  shows "length (reply_bytes (zero_message\<lparr>m_SenderID := l, m_Type := MsgLookupResp, m_Peers := ps, m_TxID := tx\<rparr>)) = peers_size ps"
proof -
  let ?m = "zero_message\<lparr>m_SenderID := l, m_Type := MsgLookupResp, m_Peers := ps, m_TxID := tx\<rparr>"
  have "encode_payload ?m = Inr (put_u16 (of_nat (length ps)) @ concat (map encode_peer ps))"
    by (simp add: encode_payload_def Let_def msg_types)
  moreover have "length (concat (map encode_peer ps)) = sum_list (map (\<lambda>p. length p + 2) ps)"
    by (induction ps) (simp_all add: encode_peer_def)
  ultimately show ?thesis using assms by (simp add: reply_bytes_def EncodeMessage_def peers_size_def)
qed

lemma peers_size_fits: "peers_size ps \<le> 65535 \<Longrightarrow> fits16 ps"
proof -
  have "2 * length ps \<le> sum_list (map (\<lambda>p. length p + 2) ps)" for ps :: "string list" by (induction ps) simp_all
  then have "2 * length ps + 39 \<le> peers_size ps" by (simp add: peers_size_def)
  then show "peers_size ps \<le> 65535 \<Longrightarrow> fits16 ps" by (simp add: fits16_def)
qed

text \<open>A lookup request to a host returns the peers of its registry.\<close>

lemma ask_lookup:
  assumes "caller rand i n N0" "length topic = 32" "reg_in j {r} N0 W" "in_registry N0 addr = Some j"
    and "peers_size (GetPeers r topic) \<le> 65535"
  shows "\<exists>m. fst (ask (cluster_network rand order i) n (zero_message\<lparr>m_Type := MsgLookup, m_Topic := topic\<rparr>) addr W) = Inr m \<and>
    m_Peers m = GetPeers r topic"
proof -
  let ?W = "W\<lparr>cl_draws := Suc (cl_draws W)\<rparr>"
  let ?req = "zero_message\<lparr>m_Type := MsgLookup, m_Topic := topic, m_TxID := rand (cl_draws W), m_SenderID := n_localID n\<rparr>"
  note req = node_requests(3) [OF assms(2)]
  have W: "quiet_cluster ?W" "i < hosts ?W" "in_registry (cl_net ?W) addr = Some j"
    using assms(1,3,4) by (auto simp: reg_in_def cluster_ok_def caller_def)
  have j: "j < hosts ?W" using quiet_bound(1) [OF W(1,3)] .
  have wf: "wf_message ?req" "m_Type ?req \<in> request_types" "payload_of ?req = ?req"
    using dht_request_sent [OF req] assms(1) req by (simp_all add: caller_def dht_request_def)
  have node: "node_fits (h_node (cl_hosts ?W j))" "source_fits (OtherAddr (host_addr ?W i))"
  proof -
    have "cluster_ok ?W" using assms(3) by (simp add: reg_in_def)
    then show "node_fits (h_node (cl_hosts ?W j))" "source_fits (OtherAddr (host_addr ?W i))"
      unfolding cluster_ok_def using j W(2) by blast+
  qed
  have r: "n_registry (h_node (cl_hosts ?W j)) = r" using assms(3) by (simp add: reg_in_def)
  obtain n' resp where h: "handleRequest ?req (OtherAddr (host_addr ?W i)) (h_node (cl_hosts ?W j)) = (n', Inr (Some resp))"
    "resp = zero_message\<lparr>m_SenderID := n_localID (h_node (cl_hosts ?W j)), m_Type := MsgLookupResp, m_Peers := GetPeers r topic\<rparr>"
    using r by (simp add: handleRequest_def Let_def msg_types)
  have "length (n_localID (h_node (cl_hosts ?W j))) = 32"
    using node(1) by (auto simp: node_fits_def node_inv_def rt_inv_def)
  then have size: "length (reply_bytes (resp\<lparr>m_TxID := m_TxID ?req\<rparr>)) \<le> 65535"
    using reply_bytes_peers [of "rand (cl_draws W)"] assms(1,5) by (simp add: h(2) caller_def)
  have "fits16 (GetPeers (n_registry (h_node (cl_hosts ?W j))) (m_Topic ?req))"
    using peers_size_fits [OF assms(5)] r by simp
  from cluster_rpc_reply [OF W wf node this h(1) size] show ?thesis
    using assms(1) by (auto simp: ask_cluster caller_def h(2))
qed

text \<open>The lookup of a caller keeps every registry.\<close>

lemma lookup_keeps_reg:
  assumes "caller rand i n N0" "length target = 32" "reg_in k R N0 W"
    and "iterativeFindNode (cluster_network rand order i) n target W = Some (cs, n', W')"
  shows "reg_in k R N0 W'"
  by (rule iterativeFindNode_keeps [of _ _ _ _ _ _ _ "reg_in k R N0", OF assms(4) _ assms(3)])
    (rule ask_keeps_reg [OF assms(1) node_requests(1) [OF assms(2)]], simp_all add: find_request_def msg_types)

definition meets :: "(nat \<Rightarrow> bytes) \<Rightarrow> (nat list \<Rightarrow> nat list) \<Rightarrow> nat \<Rightarrow> dht_node \<Rightarrow> node_id \<Rightarrow> nat \<Rightarrow> cluster \<Rightarrow> bool" where
  "meets rand order i n topic j W =
     (case iterativeFindNode (cluster_network rand order i) n topic W of None \<Rightarrow> False
      | Some (cs, _, _) \<Rightarrow> list_ex (\<lambda>c. in_registry (cl_net W) (c_Addr c) = Some j) cs)"

definition announcing :: "dht_node \<Rightarrow> node_id \<Rightarrow> u16 \<Rightarrow> dht_node" where
  "announcing n topic port = n\<lparr>n_registry := RegisterPeer (n_registry n) topic
     (if n_udp n then JoinHostPort ''127.0.0.1'' (itoa (unat port)) else n_addr n)\<rparr>"

text \<open>
  C21. An announced peer is found. In a cluster of nodes on in-process transports, let host \<open>i\<close>
  announce a topic with a port and host \<open>k\<close> look it up afterwards. If both of their iterative
  searches end at some common host \<open>j\<close>, and the topic's peers at \<open>j\<close> fit one datagram, then the
  lookup returns the address that the announce stands for.
\<close>

theorem announced_peer_is_found:
  assumes "cluster_ok W" "j < hosts W" "caller rand i nA (cl_net W)" "caller rand k nC (cl_net W)"
    and "length topic = 32" "port \<noteq> 0"
    and "Announce (cluster_network rand order i) nA topic port W = Some (nA', W1)"
    and "Lookup (cluster_network rand order k) nC topic W1 = Some (peers, nC', W2)"
    and "meets rand order i (announcing nA topic port) topic j W" "meets rand order k nC topic j W1"
    and "peers_size (GetPeers (n_registry (h_node (cl_hosts W1 j))) topic) \<le> 65535"
  shows "announced_addr (OtherAddr (host_addr W i)) port \<in> set peers"
proof -
  let ?N = "cl_net W" and ?A = "cluster_network rand order i" and ?C = "cluster_network rand order k"
  let ?r = "n_registry (h_node (cl_hosts W j))" and ?a = "announced_addr (OtherAddr (host_addr W i)) port"
  let ?r1 = "RegisterPeer ?r topic ?a"
  have callA: "caller rand i (announcing nA topic port) ?N" using assms(3) by (simp add: caller_def announcing_def)
  have start: "reg_in j {?r} ?N W" using assms(1) by (simp add: reg_in_def)
  obtain csA nA2 WA where fA: "iterativeFindNode ?A (announcing nA topic port) topic W = Some (csA, nA2, WA)"
    and exA: "list_ex (\<lambda>c. in_registry ?N (c_Addr c) = Some j) csA"
    using assms(9) by (auto simp: meets_def split: option.splits prod.splits)
  then obtain cA where cA: "cA \<in> set csA" "in_registry ?N (c_Addr cA) = Some j" by (auto simp: list_ex_iff)
  have neA: "csA \<noteq> []" using cA(1) by auto
  have WA: "reg_in j {?r} ?N WA" by (rule lookup_keeps_reg [OF callA assms(5) start fA])
  have nA2: "nA2 = (announcing nA topic port)\<lparr>n_routing := n_routing nA2\<rparr>"
    using fA by (auto simp: iterativeFindNode_def Let_def split: option.splits prod.splits)
  then have callA2: "caller rand i nA2 ?N" using callA by (simp add: caller_def) (metis dht_node.select_convs dht_node.update_convs(4) dht_node.surjective)
  have "W1 = snd (ask_all ?A nA2 (zero_message\<lparr>m_Type := MsgAnnounce, m_Topic := topic, m_Port := port\<rparr>) csA WA)"
    using assms(6,7) fA neA by (auto simp: Announce_def Let_def announcing_def split: prod.splits)
  then have W1: "reg_in j {?r1} ?N W1"
    using announce_reaches [OF callA2 assms(5,6) WA cA(2,1), of order] by (simp add: host_addr_def)
  then have net1: "cl_net W1 = ?N" and reg1: "n_registry (h_node (cl_hosts W1 j)) = ?r1" by (simp_all add: reg_in_def)
  obtain csC nC2 WC where fC: "iterativeFindNode ?C nC topic W1 = Some (csC, nC2, WC)"
    and exC: "list_ex (\<lambda>c. in_registry ?N (c_Addr c) = Some j) csC"
    using assms(10) net1 by (auto simp: meets_def split: option.splits prod.splits)
  then obtain cC where cC: "cC \<in> set csC" "in_registry ?N (c_Addr cC) = Some j" by (auto simp: list_ex_iff)
  have WC: "reg_in j {?r1} ?N WC" by (rule lookup_keeps_reg [OF assms(4,5) W1 fC])
  have "caller rand k nC2 ?N"
    using fC assms(4) by (auto simp: iterativeFindNode_def Let_def caller_def split: option.splits prod.splits)
  note callC2 = this
  let ?req = "zero_message\<lparr>m_Type := MsgLookup, m_Topic := topic\<rparr>"
  have keepC: "reg_in j {?r1} ?N (snd (ask ?C nC2 ?req a w))" if "reg_in j {?r1} ?N w" for w a
    by (rule ask_keeps_reg [OF callC2 node_requests(3) [OF assms(5)] that]) (simp add: msg_types)
  obtain w where w: "reg_in j {?r1} ?N w" "(cC, fst (ask ?C nC2 ?req (c_Addr cC) w)) \<in> set (fst (ask_all ?C nC2 ?req csC WC))"
    using ask_all_answer [of "reg_in j {?r1} ?N", OF keepC cC(1) WC] by blast
  obtain m where m: "fst (ask ?C nC2 ?req (c_Addr cC) w) = Inr m" "m_Peers m = GetPeers ?r1 topic"
    using ask_lookup [OF callC2 assms(5) w(1) cC(2)] assms(11) reg1 by auto
  have "?a \<in> set (m_Peers m)" by (simp add: m(2) GetPeers_register)
  obtain rs w2 where rs: "ask_all ?C nC2 ?req csC WC = (rs, w2)" by force
  have "csC \<noteq> []" using cC(1) by auto
  then have "peers = remdups (concat (map (\<lambda>(_, r). case r of Inl _ \<Rightarrow> [] | Inr m \<Rightarrow> m_Peers m) rs) @
      GetPeers (n_registry nC2) topic)"
    using assms(8) fC by (auto simp: Lookup_def Let_def rs)
  moreover have "(cC, Inr m) \<in> set rs" using w(2) m(1) rs by simp
  ultimately show ?thesis using \<open>?a \<in> set (m_Peers m)\<close> by (auto intro!: bexI [of _ "(cC, Inr m)"])
qed

subsection \<open>A cluster of two\<close>

text \<open>Host 0 knows host 1, whose routing table is empty at first and has host 0 once it was asked.\<close>

definition duo_id :: "nat \<Rightarrow> node_id" where
  "duo_id k = replicate 32 (if k = 0 then 1 else 2)"

definition duo_contact :: "nat \<Rightarrow> contact" where
  "duo_contact k = \<lparr>c_ID = duo_id k, c_Addr = (if k = 0 then ''a'' else ''b'')\<rparr>"

definition duo_node :: "nat \<Rightarrow> dht_node" where
  "duo_node k = \<lparr>n_localID = duo_id k, n_udp = False, n_addr = c_Addr (duo_contact k),
     n_routing = (if k = 0 then AddContact (duo_contact 1) (NewRoutingTable (duo_id 0)) else NewRoutingTable (duo_id k)),
     n_registry = NewSwarmRegistry, n_bootstrap = [], n_announces = [], n_interval = 1\<rparr>"

definition duo_net :: inprocess_net where
  "duo_net = fst (NewInProcessTransport ''b'' (fst (NewInProcessTransport ''a'' empty_inprocess)))"

definition duo_cluster :: cluster where
  "duo_cluster = \<lparr>cl_net = duo_net, cl_hosts = (\<lambda>k. \<lparr>h_node = duo_node k, h_disp = NewDispatcher\<rparr>), cl_draws = 0\<rparr>"

definition duo_topic :: node_id where "duo_topic = replicate 32 7"

lemma one_contact:
  assumes "c_ID c \<noteq> l"
  shows "FindClosestPeers (AddContact c (NewRoutingTable l)) t 20 = [c]"
    and "c_Addr c \<noteq> [] \<Longrightarrow> AddContact c (AddContact c (NewRoutingTable l)) = AddContact c (NewRoutingTable l)"
    and "addr_fits (c_Addr c) \<Longrightarrow> table_fits (AddContact c (NewRoutingTable l))"
    and "table_fits (NewRoutingTable l)"
proof -
  let ?i = "commonPrefixLength l (c_ID c)"
  have i: "?i < 256" by (rule cpl_index)
  have cat: "concat ((replicate n [])[j := xs]) = xs" if "j < n" for n j and xs :: "contact list"
    using that by (simp add: upd_conv_take_nth_drop)
  have t: "AddContact c (NewRoutingTable l) = \<lparr>rt_localID = l, rt_buckets = (replicate 256 [])[?i := [c]]\<rparr>"
    using assms i by (simp add: AddContact_def NewRoutingTable_def refresh_bucket_def Let_def)
  then have "all_contacts (AddContact c (NewRoutingTable l)) = [c]" using cat [OF i] by (simp add: all_contacts_def)
  then show "FindClosestPeers (AddContact c (NewRoutingTable l)) t 20 = [c]"
    by (simp add: FindClosestPeers_def sort_slice_def)
  show "c_Addr c \<noteq> [] \<Longrightarrow> AddContact c (AddContact c (NewRoutingTable l)) = AddContact c (NewRoutingTable l)"
    using assms i by (simp add: t) (simp add: AddContact_def refresh_bucket_def)
  show "addr_fits (c_Addr c) \<Longrightarrow> table_fits (AddContact c (NewRoutingTable l))"
    unfolding t table_fits_def
    by (auto simp: list_all_iff dest!: subsetD [OF set_update_subset_insert])
  show "table_fits (NewRoutingTable l)" by (simp add: table_fits_def NewRoutingTable_def list_all_iff)
qed

lemma duo_basics [simp]:
  "length (duo_id k) = 32" "duo_id 0 \<noteq> duo_id (Suc 0)" "duo_id (Suc 0) \<noteq> duo_id 0" "c_ID (duo_contact k) = duo_id k"
  "c_Addr (duo_contact k) = (if k = 0 then ''a'' else ''b'')" "length duo_topic = 32"
  by (simp_all add: duo_id_def duo_contact_def duo_topic_def)

lemma duo_net_facts:
  "quiet_net duo_net" "length (in_transports duo_net) = 2" "in_registry duo_net ''b'' = Some 1"
  "ip_addr (in_transports duo_net ! 0) = ''a''" "ip_addr (in_transports duo_net ! 1) = ''b''"
  by (auto simp: duo_net_def NewInProcessTransport_def empty_inprocess_def quiet_net_def inprocess_inv_def
      Let_def less_Suc_eq nth_Cons' split: if_splits)

lemma duo_ok: "cluster_ok duo_cluster"
proof -
  have "node_fits (duo_node k)" for k
    using one_contact(3) [of "duo_contact 1" "duo_id 0"] one_contact(4) [of "duo_contact 1" "duo_id 0"]
    by (auto simp: node_fits_def node_inv_def duo_node_def registry_fits_def registry_inv_def GetPeers_def NewSwarmRegistry_def
        addr_fits_def fits16_def new_rt_inv intro!: AddContact_inv) (simp add: table_fits_def NewRoutingTable_def list_all_iff)+
  then show ?thesis
    using duo_net_facts by (auto simp: cluster_ok_def duo_cluster_def host_addr_def source_fits_def less_Suc_eq numeral_2_eq_2)
qed

text \<open>The states between the requests of host 0.\<close>

definition duo_state :: "cluster \<Rightarrow> bool" where
  "duo_state W \<longleftrightarrow> cluster_ok W \<and> cl_net W = duo_net \<and> n_localID (h_node (cl_hosts W 1)) = duo_id 1 \<and>
     GetPeers (n_registry (h_node (cl_hosts W 1))) duo_topic \<in> {[], [''a'']} \<and>
     (\<forall>t. t \<noteq> duo_topic \<longrightarrow> GetPeers (n_registry (h_node (cl_hosts W 1))) t = []) \<and>
     n_routing (h_node (cl_hosts W 1)) \<in> {NewRoutingTable (duo_id 1), AddContact (duo_contact 0) (NewRoutingTable (duo_id 1))}"

definition tx4 :: "nat \<Rightarrow> bytes" where "tx4 k = put_u32 (of_nat k)"

lemma duo_caller:
  "n_localID n = duo_id 0 \<Longrightarrow> \<not> n_udp n \<Longrightarrow> caller tx4 0 n duo_net"
  by (simp add: caller_def duo_net_facts tx4_def)

lemma duo_start: "duo_state duo_cluster"
  using duo_ok by (simp add: duo_state_def duo_cluster_def duo_node_def GetPeers_def NewSwarmRegistry_def)

lemma duo_announced: "announced_addr (OtherAddr ''a'') p = ''a''"
  by (simp add: announced_addr_def SplitHostPort_def last_index_def)

text \<open>Host 1 answers each of the three requests, and stays in one of the states.\<close>

lemma duo_ask:
  assumes "duo_state W" "n_localID n = duo_id 0" "\<not> n_udp n" "dht_request req"
    and "m_Type req \<in> {MsgFindNode, MsgAnnounce, MsgLookup}" "m_Type req = MsgAnnounce \<longrightarrow> m_Topic req = duo_topic \<and> m_Port req \<noteq> 0"
  shows "\<exists>resp W'. ask (cluster_network tx4 order 0) n req ''b'' W = (Inr resp, W') \<and> duo_state W' \<and>
    (m_Type req = MsgFindNode \<longrightarrow> m_Contacts resp = [duo_contact 0])"
proof -
  let ?W = "W\<lparr>cl_draws := Suc (cl_draws W)\<rparr>"
  let ?req = "req\<lparr>m_TxID := tx4 (cl_draws W), m_SenderID := duo_id 0\<rparr>"
  define B where "B = h_node (cl_hosts W 1)"
  have st: "cluster_ok ?W" "cl_net ?W = duo_net" "n_localID B = duo_id 1" "GetPeers (n_registry B) duo_topic \<in> {[], [''a'']}"
    "\<And>t. t \<noteq> duo_topic \<Longrightarrow> GetPeers (n_registry B) t = []"
    "n_routing B \<in> {NewRoutingTable (duo_id 1), AddContact (duo_contact 0) (NewRoutingTable (duo_id 1))}"
    using assms(1) by (simp_all add: duo_state_def B_def)
  have W: "quiet_cluster ?W" "0 < hosts ?W" "in_registry (cl_net ?W) ''b'' = Some 1"
    using st(2) duo_net_facts by simp_all
  have addr: "host_addr ?W 0 = ''a''" using st(2) duo_net_facts(4) by (simp add: host_addr_def)
  have wf: "wf_message ?req" "m_Type ?req \<in> request_types" "payload_of ?req = ?req"
    using dht_request_sent [OF assms(4)] assms(4) by (simp_all add: tx4_def dht_request_def)
  have node: "node_fits B" "source_fits (OtherAddr (host_addr ?W 0))"
    using st(1,2) duo_net_facts(2) by (auto simp: cluster_ok_def B_def)
  have table: "AddContact \<lparr>c_ID = duo_id 0, c_Addr = ''a''\<rparr> (n_routing B) = AddContact (duo_contact 0) (NewRoutingTable (duo_id 1))"
  proof -
    have eq: "\<lparr>c_ID = duo_id 0, c_Addr = ''a''\<rparr> = duo_contact 0" by (simp add: duo_contact_def)
    show ?thesis unfolding eq using st(6) one_contact(2) [of "duo_contact 0" "duo_id 1"] by auto
  qed
  have peers: "GetPeers (n_registry B) t \<in> {[], [''a'']}" for t using st(4,5) by (cases "t = duo_topic") simp_all
  define n' where "n' = fst (handleRequest ?req (OtherAddr ''a'') B)"
  obtain resp where h: "handleRequest ?req (OtherAddr ''a'') B = (n', Inr (Some resp))"
    and fn: "m_Type req = MsgFindNode \<longrightarrow> m_Contacts resp = [duo_contact 0]"
    using assms(5) table one_contact(1) [of "duo_contact 0" "duo_id 1"]
    by (auto simp: handleRequest_def Let_def n'_def msg_types split: if_splits)
  have n': "n_localID n' = duo_id 1" "n_routing n' = AddContact (duo_contact 0) (NewRoutingTable (duo_id 1))"
    "n_registry n' = (if m_Type req = MsgAnnounce then RegisterPeer (n_registry B) duo_topic ''a'' else n_registry B)"
    using st(3) table assms(6) duo_announced
    by (auto simp: n'_def handleRequest_def Let_def handle_announce_def msg_types)
  have psize: "peers_size (GetPeers (n_registry B) t) \<le> 42" for t
    using peers [of t] by (auto simp: peers_size_def)
  have "resp = zero_message\<lparr>m_SenderID := duo_id 1, m_Type := MsgPong\<rparr> \<or>
      resp = zero_message\<lparr>m_SenderID := duo_id 1, m_Type := MsgFindNodeResp, m_Contacts := [duo_contact 0]\<rparr> \<or>
      resp = zero_message\<lparr>m_SenderID := duo_id 1, m_Type := MsgLookupResp, m_Peers := GetPeers (n_registry B) (m_Topic req)\<rparr>"
    using assms(5) h table st(3) one_contact(1) [of "duo_contact 0" "duo_id 1"]
    by (auto simp: handleRequest_def Let_def msg_types split: if_splits)
  then consider "resp = zero_message\<lparr>m_SenderID := duo_id 1, m_Type := MsgPong\<rparr>"
    | "resp = zero_message\<lparr>m_SenderID := duo_id 1, m_Type := MsgFindNodeResp, m_Contacts := [duo_contact 0]\<rparr>"
    | "resp = zero_message\<lparr>m_SenderID := duo_id 1, m_Type := MsgLookupResp, m_Peers := GetPeers (n_registry B) (m_Topic req)\<rparr>"
    by blast
  then have size: "length (reply_bytes (resp\<lparr>m_TxID := m_TxID ?req\<rparr>)) \<le> 65535"
  proof cases
    case 3
    have "length (reply_bytes (resp\<lparr>m_TxID := m_TxID ?req\<rparr>)) = peers_size (GetPeers (n_registry B) (m_Topic req))"
      unfolding 3 by (rule reply_bytes_peers) (simp_all add: tx4_def)
    with psize [of "m_Topic req"] show ?thesis by linarith
  qed (simp_all add: reply_bytes_def EncodeMessage_def encode_payload_def Let_def msg_types encode_contact_def tx4_def)
  have "fits16 (GetPeers (n_registry (h_node (cl_hosts ?W 1))) (m_Topic ?req))"
    using peers [of "m_Topic req"] by (auto simp: fits16_def B_def)
  from cluster_rpc_reply [OF W wf _ node(2) this _ size] node(1) h addr obtain W' where
    rpc: "cluster_rpc 0 ''b'' ?req ?W = (Inr (resp\<lparr>m_TxID := m_TxID ?req\<rparr>), W')" "quiet_cluster W'"
    "node_fits n'" "\<forall>k. h_node (cl_hosts W' k) = (if k = 1 then n' else h_node (cl_hosts W k))"
    by (auto simp: B_def)
  have "snd (cluster_rpc 0 ''b'' ?req ?W) = W'" by (simp add: rpc(1))
  note keep = cluster_rpc_keeps(1,2) [OF st(1) W(2) wf(1,2) this]
  have "cluster_ok W'" "cl_net W' = duo_net" by (rule keep(1), simp only: keep(2) st(2))
  moreover have "GetPeers (n_registry n') duo_topic \<in> {[], [''a'']}" "\<forall>t. t \<noteq> duo_topic \<longrightarrow> GetPeers (n_registry n') t = []"
    using st(4,5) by (auto simp: n'(3) GetPeers_register)
  ultimately have "duo_state W'" using rpc(4) n'(1,2) by (simp add: duo_state_def)
  with rpc(1) fn assms(2,3) show ?thesis by (simp add: ask_cluster)
qed

lemma duo_find:
  assumes "duo_state W" "n_localID n = duo_id 0" "\<not> n_udp n" "length t = 32"
    and "n_routing n = AddContact (duo_contact 1) (NewRoutingTable (duo_id 0))"
  shows "\<exists>n' W'. iterativeFindNode (cluster_network tx4 id 0) n t W = Some ([duo_contact 1], n', W') \<and> duo_state W' \<and>
    n_localID n' = duo_id 0 \<and> \<not> n_udp n' \<and> n_registry n' = n_registry n"
proof -
  let ?c = "duo_contact 1" and ?N = "cluster_network tx4 id 0"
  have cand: "FindClosestPeers (n_routing n) t 20 = [?c]" using one_contact(1) [of ?c "duo_id 0"] by (simp add: assms(5))
  obtain resp W' where a: "ask ?N n (find_request t) ''b'' W = (Inr resp, W')" "duo_state W'" "m_Contacts resp = [duo_contact 0]"
    using duo_ask [OF assms(1-3) node_requests(1) [OF assms(4)], of id] by (auto simp: find_request_def msg_types)
  define s where "s = \<lparr>fs_routing = n_routing n, fs_list = [?c], fs_seen = {duo_id 1}, fs_queried = {}, fs_world = W\<rparr>"
  define s' where "s' = s\<lparr>fs_queried := {duo_id 1}, fs_world := W', fs_routing := AddContact ?c (n_routing n)\<rparr>"
  have all: "ask_all ?N n (find_request t) [?c] W = ([(?c, Inr resp)], W')" using a(1) by (simp add: Let_def)
  have order: "nw_order ?N w xs = xs" for w xs by (simp add: cluster_network_def)
  have "find_round ?N n t s = (Some s', [?c])"
    using all a(3) assms(2)
    by (simp add: find_round_def s_def s'_def sort_slice_def Let_def order take_result_def add_new_def flip: find_request_def)
  moreover have "find_round ?N n t s' = (None, [?c])"
    by (simp add: find_round_def s_def s'_def sort_slice_def Let_def)
  ultimately have "find_loop ?N n t s = Some ([?c], s')"
    by (simp add: find_loop.simps [of ?N n t s] find_loop.simps [of ?N n t s'])
  then have "iterativeFindNode ?N n t W = Some ([?c], n\<lparr>n_routing := fs_routing s'\<rparr>, fs_world s')"
    by (simp add: iterativeFindNode_def cand Let_def s_def)
  then show ?thesis using a(2) assms(2,3) by (simp add: s'_def)
qed

lemma duo_ask_all:
  assumes "duo_state W" "n_localID n = duo_id 0" "\<not> n_udp n" "dht_request req"
    and "m_Type req \<in> {MsgFindNode, MsgAnnounce, MsgLookup}" "m_Type req = MsgAnnounce \<longrightarrow> m_Topic req = duo_topic \<and> m_Port req \<noteq> 0"
  shows "\<exists>rs W'. ask_all (cluster_network tx4 id 0) n req [duo_contact 1] W = (rs, W') \<and> duo_state W'"
  using duo_ask [OF assms, of id] by (auto simp: Let_def)

theorem announced_peer_is_found_witness:
  "\<exists>nA' W1 peers nC' W2. Announce (cluster_network tx4 id 0) (duo_node 0) duo_topic 80 duo_cluster = Some (nA', W1) \<and>
    Lookup (cluster_network tx4 id 0) (duo_node 0) duo_topic W1 = Some (peers, nC', W2) \<and> ''a'' \<in> set peers"
proof -
  let ?N = "cluster_network tx4 id 0" and ?A = "announcing (duo_node 0) duo_topic 80"
  have n: "n_localID ?A = duo_id 0" "\<not> n_udp ?A" "n_routing ?A = AddContact (duo_contact 1) (NewRoutingTable (duo_id 0))"
    "n_localID (duo_node 0) = duo_id 0" "\<not> n_udp (duo_node 0)"
    "n_routing (duo_node 0) = AddContact (duo_contact 1) (NewRoutingTable (duo_id 0))"
    by (simp_all add: announcing_def duo_node_def)
  obtain nA WA where fA: "iterativeFindNode ?N ?A duo_topic duo_cluster = Some ([duo_contact 1], nA, WA)" "duo_state WA"
    "n_localID nA = duo_id 0" "\<not> n_udp nA"
    using duo_find [OF duo_start n(1,2) duo_basics(6) n(3)] by auto
  obtain rs W1 where a1: "ask_all ?N nA (zero_message\<lparr>m_Type := MsgAnnounce, m_Topic := duo_topic, m_Port := 80\<rparr>) [duo_contact 1] WA = (rs, W1)"
    "duo_state W1"
    using duo_ask_all [OF fA(2-4) node_requests(2) [OF duo_basics(6)], of 80] by (auto simp: msg_types)
  have ann: "Announce ?N (duo_node 0) duo_topic 80 duo_cluster = Some (startReannounce duo_topic 80 nA, W1)"
    using fA(1) a1(1) by (simp add: Announce_def announcing_def Let_def del: ask_all.simps)
  obtain nC WC where fC: "iterativeFindNode ?N (duo_node 0) duo_topic W1 = Some ([duo_contact 1], nC, WC)" "duo_state WC"
    "n_localID nC = duo_id 0" "\<not> n_udp nC"
    using duo_find [OF a1(2) n(4,5) duo_basics(6) n(6)] by auto
  obtain rs2 W2 where a2: "ask_all ?N nC (zero_message\<lparr>m_Type := MsgLookup, m_Topic := duo_topic\<rparr>) [duo_contact 1] WC = (rs2, W2)"
    using duo_ask_all [OF fC(2-4) node_requests(3) [OF duo_basics(6)]] by (auto simp: msg_types)
  then obtain peers where look: "Lookup ?N (duo_node 0) duo_topic W1 = Some (peers, nC, W2)"
    using fC(1) by (simp add: Lookup_def Let_def del: ask_all.simps)
  have net: "cl_net duo_cluster = duo_net" "cl_net W1 = duo_net" using a1(2) by (simp_all add: duo_cluster_def duo_state_def)
  have call: "caller tx4 0 (duo_node 0) (cl_net duo_cluster)" using duo_caller [OF n(4,5)] net by simp
  have meetA: "meets tx4 id 0 ?A duo_topic 1 duo_cluster" and meetC: "meets tx4 id 0 (duo_node 0) duo_topic 1 W1"
    using fA(1) fC(1) net duo_net_facts(3) by (simp_all add: meets_def)
  have size: "peers_size (GetPeers (n_registry (h_node (cl_hosts W1 1))) duo_topic) \<le> 65535"
    using a1(2) by (auto simp: duo_state_def peers_size_def)
  have one: "1 < hosts duo_cluster" using net duo_net_facts(2) by simp
  have "announced_addr (OtherAddr (host_addr duo_cluster 0)) 80 \<in> set peers"
    by (rule announced_peer_is_found [OF duo_ok one call call _ _ ann look meetA meetC size]) simp_all
  then have "''a'' \<in> set peers" using duo_announced net duo_net_facts(4) by (simp add: host_addr_def)
  with ann look show ?thesis by blast
qed

text \<open>Host 0 pings host 1.\<close>

theorem rpc_calls_remote_handler_witness:
  "\<exists>r W'. cluster_rpc 0 ''b'' (zero_message\<lparr>m_Type := MsgPing, m_SenderID := duo_id 0\<rparr>) duo_cluster = (Inr r, W') \<and>
    m_Type r = MsgPong \<and> m_SenderID r = duo_id 1 \<and>
    n_routing (h_node (cl_hosts W' 1)) = AddContact (duo_contact 0) (NewRoutingTable (duo_id 1))"
proof -
  let ?req = "zero_message\<lparr>m_Type := MsgPing, m_SenderID := duo_id 0\<rparr>"
  have W: "quiet_cluster duo_cluster" "0 < hosts duo_cluster" "in_registry (cl_net duo_cluster) ''b'' = Some 1"
    "host_addr duo_cluster 0 = ''a''"
    using duo_net_facts by (simp_all add: duo_cluster_def host_addr_def)
  have wf: "wf_message ?req" "m_Type ?req \<in> request_types" "payload_of ?req = ?req"
    by (simp_all add: wf_message_def zero_message_def zero_id_def fits16_def request_types_def payload_of_def msg_types)
  have node: "node_fits (h_node (cl_hosts duo_cluster 1))" "source_fits (OtherAddr (host_addr duo_cluster 0))"
    using duo_ok duo_net_facts(2) by (auto simp: cluster_ok_def duo_cluster_def)
  have peers: "fits16 (GetPeers (n_registry (h_node (cl_hosts duo_cluster 1))) (m_Topic ?req))"
    by (simp add: duo_cluster_def duo_node_def GetPeers_def NewSwarmRegistry_def fits16_def)
  let ?resp = "zero_message\<lparr>m_SenderID := duo_id 1, m_Type := MsgPong\<rparr>"
  let ?n = "(duo_node 1)\<lparr>n_routing := AddContact \<lparr>c_ID = duo_id 0, c_Addr = ''a''\<rparr> (NewRoutingTable (duo_id 1))\<rparr>"
  have h: "handleRequest ?req (OtherAddr (host_addr duo_cluster 0)) (h_node (cl_hosts duo_cluster 1)) = (?n, Inr (Some ?resp))"
    unfolding W(4) by (simp add: handleRequest_def duo_cluster_def duo_node_def Let_def)
  have size: "length (reply_bytes (?resp\<lparr>m_TxID := m_TxID ?req\<rparr>)) \<le> 65535"
    by (simp add: reply_bytes_def EncodeMessage_def encode_payload_def zero_message_def msg_types)
  have c: "\<lparr>c_ID = duo_id 0, c_Addr = ''a''\<rparr> = duo_contact 0" by (simp add: duo_contact_def)
  show ?thesis using rpc_calls_remote_handler [OF W(1-3) wf node peers h size, unfolded c] by auto
qed

end
