(* ===== verification/Chat_Message.thy ===== *)
theory Chat_Message
  imports Keet_Prelude
begin

section \<open>Chat messages (pkg/chat/message.go)\<close>

text \<open>
  A chat message and its validation. The JSON encoder and decoder are parameters: \<open>marshal\<close> of a
  struct, and \<open>unmarshal\<close> into the zero struct. Lengths count bytes, as Go's \<open>len\<close> of a string does.
\<close>

record chat_message =
  cm_Sender :: string
  cm_Timestamp :: "64 word"
  cm_Content :: string

definition chat_Validate :: "chat_message \<Rightarrow> error option" where
  "chat_Validate m =
     (if cm_Sender m = [] then Some (ErrNew ''sender public key cannot be empty'')
      else if sint (cm_Timestamp m) \<le> 0 then Some (ErrNew ''invalid timestamp'')
      else if cm_Content m = [] then Some (ErrNew ''message content cannot be empty'')
      else if 4096 < length (cm_Content m) then
        Some (ErrNew ''message content exceeds maximum limit of 4096 characters'')
      else None)"

definition SerializeMessage :: "(chat_message \<Rightarrow> bytes result) \<Rightarrow> chat_message \<Rightarrow> bytes result" where
  "SerializeMessage marshal m = (case chat_Validate m of Some e \<Rightarrow> Inl e | None \<Rightarrow> marshal m)"

definition DeserializeMessage :: "(bytes \<Rightarrow> chat_message result) \<Rightarrow> bytes \<Rightarrow> chat_message result" where
  "DeserializeMessage unmarshal data =
     (case unmarshal data of Inl e \<Rightarrow> Inl e
      | Inr m \<Rightarrow> (case chat_Validate m of Some e \<Rightarrow> Inl e | None \<Rightarrow> Inr m))"

text \<open>What is serialised is accepted again; what is accepted would be serialised.\<close>

lemma chat_roundtrip [roundtrip]:
  assumes "\<And>b. marshal m = Inr b \<Longrightarrow> unmarshal b = Inr m" "SerializeMessage marshal m = Inr b"
  shows "DeserializeMessage unmarshal b = Inr m"
  using assms by (auto simp: SerializeMessage_def DeserializeMessage_def split: option.splits)

lemma deserialized_is_valid:
  "DeserializeMessage unmarshal b = Inr m \<Longrightarrow> SerializeMessage marshal m = marshal m"
  by (auto simp: SerializeMessage_def DeserializeMessage_def split: option.splits sum.splits)

lemma content_limit:
  assumes "cm_Sender m \<noteq> []" "0 < sint (cm_Timestamp m)"
  shows "chat_Validate m = None \<longleftrightarrow> length (cm_Content m) \<in> {1..4096}"
  using assms by (cases "cm_Content m") (auto simp: chat_Validate_def)

end
