(* ===== verification/Log_Files.thy ===== *)
theory Log_Files
  imports Go_Net "HOL-Library.AList" "HOL-Library.Sublist"
begin

section \<open>Log files and handlers (pkg/logger)\<close>

text \<open>
  The rotator writes to one file of a directory and renames it to a backup when it grows too large.
  The directory is an association list from names to contents and modification times; its order only
  matters between backups of equal modification time, which \<open>sort.Slice\<close> does not order either. \<open>int64\<close> sizes are 64-bit words read as signed.
\<close>

type_synonym log_dir = "(string \<times> (bytes \<times> nat)) list"

record log_rotator =
  lr_filename :: string
  lr_maxSize :: u64
  lr_maxBackups :: int
  lr_file :: bool
  lr_size :: u64
  lr_dir :: log_dir

text \<open>What the system calls of one operation return, the clock and its text.\<close>

record log_env =
  le_stat :: "error option"
  le_open :: "error option"
  le_rename :: "error option"
  le_readdir :: "error option"
  le_stat_backup :: "string \<Rightarrow> bool"
  le_remove :: "string \<Rightarrow> bool"
  le_write :: "(nat \<times> error) option"
  le_timestamp :: string
  le_now :: nat

text \<open>\<open>filepath.Ext\<close> and \<open>strings.TrimSuffix\<close> of a name without path separators.\<close>

definition filepath_Ext :: "string \<Rightarrow> string" where
  "filepath_Ext name = (case last_index (\<lambda>c. c = CHR ''.'') name of None \<Rightarrow> [] | Some i \<Rightarrow> drop i name)"

definition TrimSuffix :: "string \<Rightarrow> string \<Rightarrow> string" where
  "TrimSuffix s suf = (if suffix suf s then take (length s - length suf) s else s)"

definition log_base :: "string \<Rightarrow> string" where
  "log_base filename = TrimSuffix filename (filepath_Ext filename)"

definition backup_name :: "string \<Rightarrow> string \<Rightarrow> string" where
  "backup_name filename timestamp = log_base filename @ ''.'' @ timestamp @ filepath_Ext filename"

subsection \<open>open and pruneBackups\<close>

definition log_open :: "log_env \<Rightarrow> log_rotator \<Rightarrow> log_rotator \<times> error option" where
  "log_open L r =
     (case le_stat L of
        Some e \<Rightarrow> (r, Some (Wrap ''stat log file'' e))
      | None \<Rightarrow>
          let r1 = (case map_of (lr_dir r) (lr_filename r) of
                      Some (content, _) \<Rightarrow> r\<lparr>lr_size := of_nat (length content)\<rparr>
                    | None \<Rightarrow> r)
          in (case le_open L of
                Some e \<Rightarrow> (r1, Some (Wrap ''open log file'' e))
              | None \<Rightarrow>
                  (r1\<lparr>lr_file := True,
                      lr_dir := (if map_of (lr_dir r) (lr_filename r) = None
                                 then AList.update (lr_filename r) ([], le_now L) (lr_dir r) else lr_dir r)\<rparr>, None)))"

definition NewLogRotator ::
  "log_env \<Rightarrow> error option \<Rightarrow> string \<Rightarrow> u64 \<Rightarrow> int \<Rightarrow> log_dir \<Rightarrow> log_rotator result" where
  "NewLogRotator L mkdir_err filename maxSizeMB maxBackups d =
     (case mkdir_err of
        Some e \<Rightarrow> Inl (Wrap ''create log dir'' e)
      | None \<Rightarrow>
          (case log_open L \<lparr>lr_filename = filename, lr_maxSize = maxSizeMB * 1024 * 1024, lr_maxBackups = maxBackups,
                  lr_file = False, lr_size = 0, lr_dir = d\<rparr> of
             (_, Some e) \<Rightarrow> Inl e
           | (r, None) \<Rightarrow> Inr r))"

definition is_backup :: "string \<Rightarrow> string \<Rightarrow> bool" where
  "is_backup filename name \<longleftrightarrow>
     prefix (log_base filename @ ''.'') name \<and> suffix (filepath_Ext filename) name \<and> name \<noteq> filename"

definition list_backups :: "log_env \<Rightarrow> log_rotator \<Rightarrow> (string \<times> nat) list" where
  "list_backups L r =
     map (\<lambda>(n, (_, t)). (n, t)) (filter (\<lambda>(n, _). is_backup (lr_filename r) n \<and> le_stat_backup L n) (lr_dir r))"

text \<open>With a negative \<open>maxBackups\<close> the deletion loop runs past the list and panics.\<close>

definition pruneBackups :: "log_env \<Rightarrow> log_rotator \<Rightarrow> log_rotator result" where
  "pruneBackups L r =
     (case le_readdir L of Some _ \<Rightarrow> Inr r
      | None \<Rightarrow>
          let backups = list_backups L r in
          if int (length backups) \<le> lr_maxBackups r then Inr r
          else let toDelete = int (length backups) - lr_maxBackups r in
            if int (length backups) < toDelete then Inl (Panic ''index out of range'')
            else Inr (r\<lparr>lr_dir := fold (\<lambda>(n, _) d. if le_remove L n then AList.delete n d else d)
                    (take (nat toDelete) (sort_slice (\<lambda>a b. snd a < snd b) backups)) (lr_dir r)\<rparr>))"

subsection \<open>rotate, Write and Close\<close>

text \<open>\<open>rotate\<close> closes the file, renames it, opens a new one and prunes; its error is only printed.\<close>

definition log_rotate :: "log_env \<Rightarrow> log_rotator \<Rightarrow> log_rotator result" where
  "log_rotate L r =
     (let r1 = r\<lparr>lr_file := False\<rparr> in
      case (case map_of (lr_dir r1) (lr_filename r1) of None \<Rightarrow> None | Some f \<Rightarrow>
              if le_rename L = None then Some f else None) of
        None \<Rightarrow> Inr (fst (log_open L r1))
      | Some f \<Rightarrow>
          let backup = backup_name (lr_filename r1) (le_timestamp L);
              r2 = r1\<lparr>lr_dir := AList.update backup f (AList.delete (lr_filename r1) (lr_dir r1))\<rparr>
          in (case log_open L r2 of
                (r3, Some _) \<Rightarrow> Inr r3
              | (r3, None) \<Rightarrow> pruneBackups L r3))"

definition log_append :: "log_env \<Rightarrow> bytes \<Rightarrow> log_rotator \<Rightarrow> log_rotator \<times> (nat \<times> error option)" where
  "log_append L p r =
     (let (n, err) = (case le_write L of None \<Rightarrow> (length p, None) | Some (k, e) \<Rightarrow> (min k (length p), Some e));
          content = (case map_of (lr_dir r) (lr_filename r) of None \<Rightarrow> [] | Some (c, _) \<Rightarrow> c)
      in (r\<lparr>lr_dir := AList.update (lr_filename r) (content @ take n p, le_now L) (lr_dir r),
            lr_size := lr_size r + of_nat n\<rparr>, (n, err)))"

definition rotator_Write :: "log_env \<Rightarrow> bytes \<Rightarrow> log_rotator \<Rightarrow> (log_rotator \<times> nat \<times> error option) result" where
  "rotator_Write L p r =
     (case (if sint (lr_maxSize r) < sint (lr_size r + of_nat (length p)) then log_rotate L r else Inr r) of
        Inl e \<Rightarrow> Inl e
      | Inr r1 \<Rightarrow>
          if lr_file r1 then Inr (log_append L p r1)
          else (case log_open L r1 of
                  (r2, Some e) \<Rightarrow> Inr (r2, 0, Some e)
                | (r2, None) \<Rightarrow> Inr (log_append L p r2)))"

definition rotator_Close :: "error option \<Rightarrow> log_rotator \<Rightarrow> log_rotator \<times> error option" where
  "rotator_Close close_err r = (if lr_file r then (r\<lparr>lr_file := False\<rparr>, close_err) else (r, None))"

subsection \<open>What is written is in the log\<close>

definition current :: "log_rotator \<Rightarrow> bytes option" where
  "current r = map_option fst (map_of (lr_dir r) (lr_filename r))"

definition no_faults :: "log_env \<Rightarrow> bool" where
  "no_faults L \<longleftrightarrow> le_stat L = None \<and> le_open L = None \<and> le_rename L = None \<and> le_readdir L = None \<and> le_write L = None \<and>
     (\<forall>n. le_stat_backup L n \<and> le_remove L n)"

definition rotates :: "bytes \<Rightarrow> log_rotator \<Rightarrow> bool" where
  "rotates p r \<longleftrightarrow> sint (lr_maxSize r) < sint (lr_size r + of_nat (length p))"

text \<open>The rotator has its file open, and the directory holds each name once.\<close>

definition rotator_inv :: "log_rotator \<Rightarrow> bool" where
  "rotator_inv r \<longleftrightarrow> lr_file r \<and> current r \<noteq> None \<and> 0 \<le> lr_maxBackups r \<and> distinct (map fst (lr_dir r))"

lemma log_base_ext: "log_base f @ filepath_Ext f = f"
proof (cases "last_index (\<lambda>c. c = CHR ''.'') f")
  case (Some i)
  then have "i \<le> length f" by (auto simp: last_index_def)
  with Some show ?thesis by (simp add: log_base_def TrimSuffix_def filepath_Ext_def suffix_drop)
qed (simp add: log_base_def TrimSuffix_def filepath_Ext_def)

lemma backup_name_neq: "backup_name f ts \<noteq> f"
proof
  assume "backup_name f ts = f"
  then have "length (backup_name f ts) = length (log_base f @ filepath_Ext f)" by (simp add: log_base_ext)
  then show False by (simp add: backup_name_def)
qed

lemma backup_name_backup: "is_backup f (backup_name f ts)"
  by (simp add: is_backup_def backup_name_neq) (simp add: backup_name_def suffix_def)

lemma map_of_AList [simp]:
  "map_of (AList.update k v d) k' = (if k' = k then Some v else map_of d k')"
  "map_of (AList.delete k d) k' = (if k' = k then None else map_of d k')"
  by (simp_all add: update_conv' delete_conv')

lemma fold_delete_filter:
  "fold (\<lambda>(n, _) d. AList.delete n d) xs d = filter (\<lambda>(m, _). m \<notin> fst ` set xs) d"
proof (induction xs arbitrary: d)
  case Nil
  then show ?case by simp
next
  case (Cons x xs)
  then show ?case by (auto simp: AList.delete_eq split: prod.splits intro!: filter_cong)
qed

lemma list_backups_filter:
  "list_backups L (r\<lparr>lr_dir := filter (\<lambda>(m, _). m \<notin> D) (lr_dir r)\<rparr>) = filter (\<lambda>x. fst x \<notin> D) (list_backups L r)"
proof -
  have "map (\<lambda>(n, _, t). (n, t)) (filter (\<lambda>(n, _). Q n) (filter (\<lambda>(m, _). m \<notin> D) d)) =
      filter (\<lambda>x. fst x \<notin> D) (map (\<lambda>(n, _, t). (n, t)) (filter (\<lambda>(n, _). Q n) d))" for Q and d :: log_dir
    by (induction d) auto
  then show ?thesis by (simp add: list_backups_def)
qed

lemma map_of_filter_other: "n \<notin> D \<Longrightarrow> map_of (filter (\<lambda>(m, _). m \<notin> D) d) n = map_of d n"
  by (induction d) auto

lemma filter_not_taken:
  assumes "distinct (map fst S)" "mset S = mset bs"
  shows "length (filter (\<lambda>x. fst x \<notin> fst ` set (take k S)) bs) = length bs - k"
proof -
  let ?P = "\<lambda>x. fst x \<notin> fst ` set (take k S)"
  have "distinct (map fst (take k S) @ map fst (drop k S))"
    using assms(1) by (simp flip: map_append)
  then have "filter ?P (drop k S) = drop k S" by (auto simp: filter_id_conv)
  moreover have "filter ?P (take k S) = []" by (auto simp: filter_empty_conv)
  moreover have "filter ?P S = filter ?P (take k S) @ filter ?P (drop k S)" by (metis append_take_drop_id filter_append)
  ultimately have "filter ?P S = drop k S" by simp
  moreover have "mset (filter ?P bs) = mset (filter ?P S)" using assms(2) by simp
  then have "length (filter ?P bs) = length (filter ?P S)" by (rule mset_eq_length)
  ultimately show ?thesis using assms(2) mset_eq_length by fastforce
qed

lemma distinct_backups: "distinct (map fst (lr_dir r)) \<Longrightarrow> distinct (map fst (list_backups L r))"
proof -
  have "distinct (map fst d) \<Longrightarrow> distinct (map fst (map (\<lambda>(n, (_, t)). (n, t)) (filter (\<lambda>(n, _). Q n) d)))"
    for d :: log_dir and Q
    by (induction d) (auto, force)
  then show "distinct (map fst (lr_dir r)) \<Longrightarrow> ?thesis" by (simp add: list_backups_def)
qed

definition pruned :: "string set \<Rightarrow> log_rotator \<Rightarrow> log_rotator" where
  "pruned D r = r\<lparr>lr_dir := filter (\<lambda>(m, _). m \<notin> D) (lr_dir r)\<rparr>"

lemma pruned_simps [simp]:
  "lr_filename (pruned D r) = lr_filename r" "lr_size (pruned D r) = lr_size r" "lr_maxSize (pruned D r) = lr_maxSize r"
  "lr_file (pruned D r) = lr_file r" "lr_maxBackups (pruned D r) = lr_maxBackups r"
  "lr_filename r \<notin> D \<Longrightarrow> current (pruned D r) = current r"
  by (simp_all add: pruned_def current_def map_of_filter_other)

lemma pruneBackups_pruned:
  assumes "no_faults L" "0 \<le> lr_maxBackups r" "lr_maxBackups r < int (length (list_backups L r))"
  shows "pruneBackups L r = Inr (pruned (fst ` set (take (nat (int (length (list_backups L r)) - lr_maxBackups r))
    (sort_slice (\<lambda>a b. snd a < snd b) (list_backups L r)))) r)"
proof -
  have "le_readdir L = None" "(if le_remove L n then AList.delete n d else d) = AList.delete n d"
    for n and d :: log_dir using assms(1) by (simp_all add: no_faults_def)
  then show ?thesis using assms(2,3) by (simp add: pruneBackups_def Let_def fold_delete_filter pruned_def)
qed

lemma prune_keeps:
  assumes "no_faults L" "0 \<le> lr_maxBackups r" "distinct (map fst (lr_dir r))"
  obtains r' where "pruneBackups L r = Inr r'" "current r' = current r" "lr_filename r' = lr_filename r"
    "lr_size r' = lr_size r" "lr_maxSize r' = lr_maxSize r" "lr_file r' = lr_file r" "lr_maxBackups r' = lr_maxBackups r"
    "distinct (map fst (lr_dir r'))" "int (length (list_backups L r')) \<le> lr_maxBackups r"
proof (cases "int (length (list_backups L r)) \<le> lr_maxBackups r")
  case True
  then show thesis using that [of r] assms by (simp add: pruneBackups_def no_faults_def)
next
  case False
  define bs where "bs = list_backups L r"
  define S where "S = sort_slice (\<lambda>a b. snd a < snd b) bs"
  define k where "k = nat (int (length bs) - lr_maxBackups r)"
  define D where "D = fst ` set (take k S)"
  have S: "mset S = mset bs" by (simp add: S_def)
  then have "distinct (map fst S)"
    using distinct_backups [OF assms(3)] by (metis bs_def mset_eq_imp_distinct_iff mset_map)
  from filter_not_taken [OF this S, of k] have "length (list_backups L (pruned D r)) = length bs - k"
    by (simp add: pruned_def list_backups_filter bs_def D_def)
  then have n: "int (length (list_backups L (pruned D r))) \<le> lr_maxBackups r"
    using False assms(2) by (simp add: k_def bs_def)
  have "set S = set bs" using S by (rule mset_eq_setD)
  then have "lr_filename r \<notin> D"
    by (auto simp: D_def bs_def list_backups_def is_backup_def dest!: in_set_takeD)
  moreover have "distinct (map fst (lr_dir (pruned D r)))"
    using assms(3) by (simp add: pruned_def distinct_map_filter)
  moreover have "pruneBackups L r = Inr (pruned D r)"
    using pruneBackups_pruned [OF assms(1,2)] False by (simp add: D_def S_def k_def bs_def)
  ultimately show thesis using that [of "pruned D r"] n by simp
qed

lemma open_new:
  assumes "no_faults L" "map_of (lr_dir r) (lr_filename r) = None" "distinct (map fst (lr_dir r))"
  obtains r' where "log_open L r = (r', None)" "current r' = Some []" "lr_size r' = lr_size r" "lr_file r'"
    "lr_filename r' = lr_filename r" "lr_maxSize r' = lr_maxSize r" "lr_maxBackups r' = lr_maxBackups r"
    "distinct (map fst (lr_dir r'))"
proof -
  let ?r = "r\<lparr>lr_file := True, lr_dir := AList.update (lr_filename r) ([], le_now L) (lr_dir r)\<rparr>"
  have "log_open L r = (?r, None)" using assms(1,2) by (simp add: log_open_def no_faults_def)
  moreover have "current ?r = Some []" by (simp add: current_def)
  moreover have "distinct (map fst (lr_dir ?r))" using assms(3) by (simp add: distinct_update)
  ultimately show thesis using that [of ?r] by simp
qed

lemma rotate_fresh:
  assumes "no_faults L" "rotator_inv r"
  obtains r' where "log_rotate L r = Inr r'" "rotator_inv r'" "current r' = Some []" "lr_size r' = lr_size r"
    "lr_maxSize r' = lr_maxSize r" "int (length (list_backups L r')) \<le> lr_maxBackups r'" "lr_filename r' = lr_filename r"
proof -
  obtain f where f: "map_of (lr_dir r) (lr_filename r) = Some f"
    using assms(2) by (auto simp: rotator_inv_def current_def)
  let ?r2 = "r\<lparr>lr_file := False,
    lr_dir := AList.update (backup_name (lr_filename r) (le_timestamp L)) f (AList.delete (lr_filename r) (lr_dir r))\<rparr>"
  have d: "distinct (map fst (lr_dir ?r2))"
    using assms(2) by (simp add: rotator_inv_def distinct_update distinct_delete)
  have "map_of (lr_dir ?r2) (lr_filename ?r2) = None"
    using backup_name_neq [of "lr_filename r" "le_timestamp L"] by auto
  from open_new [OF assms(1) this d] obtain r3 where r3: "log_open L ?r2 = (r3, None)" "current r3 = Some []"
    "lr_size r3 = lr_size r" "lr_file r3" "lr_filename r3 = lr_filename r" "lr_maxSize r3 = lr_maxSize r"
    "lr_maxBackups r3 = lr_maxBackups r" "distinct (map fst (lr_dir r3))" by auto
  have "0 \<le> lr_maxBackups r3" using assms(2) r3 by (simp add: rotator_inv_def)
  from prune_keeps [OF assms(1) this r3(8)] obtain r4 where r4: "pruneBackups L r3 = Inr r4" "current r4 = current r3"
    "lr_filename r4 = lr_filename r3" "lr_size r4 = lr_size r3" "lr_maxSize r4 = lr_maxSize r3" "lr_file r4 = lr_file r3"
    "lr_maxBackups r4 = lr_maxBackups r3" "distinct (map fst (lr_dir r4))"
    "int (length (list_backups L r4)) \<le> lr_maxBackups r3" by blast
  have "log_rotate L r = Inr r4" using f assms(1) r3(1) r4(1) by (simp add: log_rotate_def no_faults_def Let_def)
  with that r3 r4 assms(2) show thesis by (simp add: rotator_inv_def)
qed

lemma append_no_fault:
  assumes "no_faults L" "rotator_inv r" "current r = Some c"
  shows "snd (log_append L p r) = (length p, None)" "current (fst (log_append L p r)) = Some (c @ p)"
    "rotator_inv (fst (log_append L p r))" "lr_size (fst (log_append L p r)) = lr_size r + of_nat (length p)"
    "lr_maxSize (fst (log_append L p r)) = lr_maxSize r" "lr_maxBackups (fst (log_append L p r)) = lr_maxBackups r"
    "list_backups L (fst (log_append L p r)) = list_backups L r"
proof -
  obtain t where m: "map_of (lr_dir r) (lr_filename r) = Some (c, t)" using assms(3) by (auto simp: current_def)
  have "filter (\<lambda>(n, _). is_backup f n \<and> le_stat_backup L n) (AList.update f v d) =
      filter (\<lambda>(n, _). is_backup f n \<and> le_stat_backup L n) d" for f and v :: "bytes \<times> nat" and d
    by (induction d) (auto simp: is_backup_def)
  then show "list_backups L (fst (log_append L p r)) = list_backups L r"
    using assms(1) by (simp add: log_append_def no_faults_def list_backups_def)
qed (use assms in \<open>auto simp: log_append_def no_faults_def current_def rotator_inv_def distinct_update\<close>)

text \<open>
  What is written is in the log. Without faults of the file system a write reports all its bytes
  written; they are the end of the current file, behind the previous contents, or alone in it if the
  write did not fit. A file that was rotated keeps its contents under its backup name or is pruned,
  and after a rotation at most \<open>maxBackups\<close> backups are left.
\<close>

lemma log_write_reaches_file:
  assumes "no_faults L" "rotator_inv r" "current r = Some c"
  shows "\<exists>r'. rotator_Write L p r = Inr (r', length p, None) \<and> rotator_inv r' \<and>
    current r' = Some (if rotates p r then p else c @ p) \<and>
    (rotates p r \<longrightarrow> int (length (list_backups L r')) \<le> lr_maxBackups r')"
proof (cases "rotates p r")
  case False
  obtain r' x where a: "log_append L p r = (r', x)" by (rule prod.exhaust)
  with False assms(2) have "rotator_Write L p r = Inr (r', x)"
    by (simp add: rotator_Write_def rotates_def rotator_inv_def)
  with append_no_fault [OF assms, of p, unfolded a] False show ?thesis by simp
next
  case True
  obtain r1 where r1: "log_rotate L r = Inr r1" "rotator_inv r1" "current r1 = Some []"
    "int (length (list_backups L r1)) \<le> lr_maxBackups r1" using rotate_fresh [OF assms(1,2)] by blast
  obtain r' x where a: "log_append L p r1 = (r', x)" by (rule prod.exhaust)
  with True r1(1,2) have "rotator_Write L p r = Inr (r', x)"
    by (simp add: rotator_Write_def rotates_def rotator_inv_def)
  with append_no_fault [OF assms(1) r1(2,3), of p, unfolded a] r1(4) True show ?thesis by simp
qed

definition quiet :: "string \<Rightarrow> nat \<Rightarrow> log_env" where
  "quiet ts now = \<lparr>le_stat = None, le_open = None, le_rename = None, le_readdir = None, le_stat_backup = (\<lambda>_. True),
     le_remove = (\<lambda>_. True), le_write = None, le_timestamp = ts, le_now = now\<rparr>"

definition small_log :: log_rotator where
  "small_log = \<lparr>lr_filename = ''g.log'', lr_maxSize = 4, lr_maxBackups = 1, lr_file = True, lr_size = 3,
     lr_dir = [(''g.log'', ([1, 2, 3], 0))]\<rparr>"

lemma small_log: "rotator_inv small_log" "current small_log = Some [1, 2, 3]" "no_faults (quiet ts now)"
  by (simp_all add: rotator_inv_def small_log_def current_def no_faults_def quiet_def)

text \<open>
  C39. Once full, the log keeps single writes. The size is not reset when a file is rotated: when it has
  passed the limit, every later write starts a new file, so after any number of further writes the
  current file holds the last of them only and at most \<open>maxBackups\<close> backups are left.
\<close>

lemma write_when_full:
  assumes "no_faults L" "rotator_inv r" "sint (lr_maxSize r) < sint (lr_size r)" "0 \<le> sint (lr_size r)"
    and "sint (lr_size r) + int (length p) < 2 ^ 63"
  obtains r' where "rotator_Write L p r = Inr (r', length p, None)" "rotator_inv r'" "current r' = Some p"
    "sint (lr_size r') = sint (lr_size r) + int (length p)" "lr_maxSize r' = lr_maxSize r"
    "int (length (list_backups L r')) \<le> lr_maxBackups r'"
proof -
  have "lr_size r + of_nat (length p) = word_of_int (sint (lr_size r) + int (length p))" by simp
  then have "sint (lr_size r + of_nat (length p)) = signed_take_bit 63 (sint (lr_size r) + int (length p))"
    using signed_of_int [where 'b = 64 and 'a = int, of "sint (lr_size r) + int (length p)"] by (simp del: of_int_add)
  also have "\<dots> = sint (lr_size r) + int (length p)"
    using assms(4,5) by (intro signed_take_bit_int_eq_self) auto
  finally have sz: "sint (lr_size r + of_nat (length p)) = sint (lr_size r) + int (length p)" .
  then have rot: "rotates p r" using assms(3) by (simp add: rotates_def)
  obtain r1 where r1: "log_rotate L r = Inr r1" "rotator_inv r1" "current r1 = Some []" "lr_size r1 = lr_size r"
    "lr_maxSize r1 = lr_maxSize r" "int (length (list_backups L r1)) \<le> lr_maxBackups r1"
    using rotate_fresh [OF assms(1,2)] by blast
  obtain r' x where a: "log_append L p r1 = (r', x)" by (rule prod.exhaust)
  have w: "rotator_Write L p r = Inr (r', x)"
    using rot r1(1,2) a by (simp add: rotator_Write_def rotates_def rotator_inv_def)
  show thesis
    using that [of r'] append_no_fault [OF assms(1) r1(2,3), of p, unfolded a] r1 w sz by simp
qed

fun write_all :: "(log_env \<times> bytes) list \<Rightarrow> log_rotator \<Rightarrow> log_rotator result" where
  "write_all [] r = Inr r"
| "write_all ((L, p) # ws) r = (case rotator_Write L p r of Inl e \<Rightarrow> Inl e | Inr (r', _) \<Rightarrow> write_all ws r')"

theorem full_log_keeps_last_write:
  assumes "ws \<noteq> []" "\<forall>(L, p)\<in>set ws. no_faults L" "rotator_inv r" "sint (lr_maxSize r) < sint (lr_size r)"
    and "0 \<le> sint (lr_size r)" "sint (lr_size r) + int (sum_list (map (length \<circ> snd) ws)) < 2 ^ 63"
  shows "\<exists>r'. write_all ws r = Inr r' \<and> current r' = Some (snd (last ws)) \<and>
    int (length (list_backups (fst (last ws)) r')) \<le> lr_maxBackups r'"
  using assms
proof (induction ws arbitrary: r)
  case Nil
  then show ?case by simp
next
  case (Cons w ws)
  obtain L p where w: "w = (L, p)" by force
  have L: "no_faults L" using Cons.prems(2) w by simp
  have fit: "sint (lr_size r) + int (length p) < 2 ^ 63" using Cons.prems(6) w by simp
  obtain r' where r': "rotator_Write L p r = Inr (r', length p, None)" "rotator_inv r'" "current r' = Some p"
    "sint (lr_size r') = sint (lr_size r) + int (length p)" "lr_maxSize r' = lr_maxSize r"
    "int (length (list_backups L r')) \<le> lr_maxBackups r'"
    by (rule write_when_full [OF L Cons.prems(3-5) fit])
  show ?case
  proof (cases "ws = []")
    case True
    then show ?thesis using w r' by simp
  next
    case False
    have "\<exists>r''. write_all ws r' = Inr r'' \<and> current r'' = Some (snd (last ws)) \<and>
        int (length (list_backups (fst (last ws)) r'')) \<le> lr_maxBackups r''"
      by (rule Cons.IH [OF False _ r'(2)]) (use Cons.prems r' w in \<open>simp_all add: comp_def\<close>)
    then show ?thesis using False w r'(1) by simp
  qed
qed

definition two_writes :: "(log_env \<times> bytes) list" where
  "two_writes = [(quiet ''t'' 1, [7]), (quiet ''u'' 2, [8])]"

theorem full_log_keeps_last_write_witness:
  "\<exists>r'. write_all two_writes (small_log\<lparr>lr_size := 5\<rparr>) = Inr r' \<and> current r' = Some [8]"
proof -
  have "rotator_inv (small_log\<lparr>lr_size := 5\<rparr>)" by (simp add: rotator_inv_def small_log_def current_def)
  moreover have "sint (lr_maxSize (small_log\<lparr>lr_size := 5\<rparr>)) < sint (lr_size (small_log\<lparr>lr_size := 5\<rparr>))"
    "0 \<le> sint (lr_size (small_log\<lparr>lr_size := 5\<rparr>))"
    "sint (lr_size (small_log\<lparr>lr_size := 5\<rparr>)) + int (sum_list (map (length \<circ> snd) two_writes)) < 2 ^ 63"
    by (simp_all add: small_log_def two_writes_def)
  ultimately have "\<exists>r'. write_all two_writes (small_log\<lparr>lr_size := 5\<rparr>) = Inr r' \<and>
      current r' = Some (snd (last two_writes)) \<and>
      int (length (list_backups (fst (last two_writes)) r')) \<le> lr_maxBackups r'"
    by (intro full_log_keeps_last_write) (simp_all add: two_writes_def small_log(3))
  then show ?thesis by (simp add: two_writes_def del: write_all.simps) blast
qed

end
