(* ===== verification/Gateway_Config.thy ===== *)
theory Gateway_Config
  imports Go_Net "HOL-Library.Sublist"
begin

section \<open>Configuration (pkg/config/config.go)\<close>

text \<open>
  The environment is a map of strings, the command line a list, the file system a test for existence.
  The YAML decoder is a parameter: from the file's path and the configuration so far to the
  configuration it leaves (fields it set before an error stay set), or \<open>None\<close> if the file cannot be
  opened.
\<close>

record config =
  LogLevel :: string
  ConsoleEnabled :: bool
  FileEnabled :: bool
  LogDir :: string
  LogFileName :: string
  LogMaxSizeMB :: int
  LogMaxBackups :: int
  SocketPath :: string
  StorageDir :: string
  DBType :: string
  BBoltPath :: string
  DBHost :: string
  DBPort :: string
  DBUser :: string
  DBPassword :: string
  DBName :: string
  DBSSLMode :: string
  P2PPort :: string
  P2PListenAddr :: string
  ClientWhitelist :: "string list"
  AgenticURL :: string

type_synonym environ = "string \<Rightarrow> string option"

subsection \<open>Environment variables\<close>

text \<open>\<open>strconv.ParseBool\<close> and \<open>strconv.Atoi\<close>, an optional sign and decimal digits within 64 bits.\<close>

definition ParseBool :: "string \<Rightarrow> bool option" where
  "ParseBool s =
     (if s \<in> {''1'', ''t'', ''T'', ''TRUE'', ''true'', ''True''} then Some True
      else if s \<in> {''0'', ''f'', ''F'', ''FALSE'', ''false'', ''False''} then Some False
      else None)"

definition digits_value :: "string \<Rightarrow> nat" where
  "digits_value s = foldl (\<lambda>n c. 10 * n + (of_char c - 48)) 0 s"

definition Atoi :: "string \<Rightarrow> int option" where
  "Atoi s =
     (let (neg, ds) = (case s of [] \<Rightarrow> (False, [])
            | c # r \<Rightarrow> if c = CHR ''-'' then (True, r) else if c = CHR ''+'' then (False, r) else (False, s));
          v = (if neg then - int (digits_value ds) else int (digits_value ds))
      in if ds \<noteq> [] \<and> list_all is_digit ds \<and> - (2 ^ 63) \<le> v \<and> v < 2 ^ 63 then Some v else None)"

definition getEnv :: "environ \<Rightarrow> string \<Rightarrow> string \<Rightarrow> string" where
  "getEnv env key fallback = (case env key of Some v \<Rightarrow> v | None \<Rightarrow> fallback)"

definition getEnvBool :: "environ \<Rightarrow> string \<Rightarrow> bool \<Rightarrow> bool" where
  "getEnvBool env key fallback =
     (case env key of Some v \<Rightarrow> (case ParseBool v of Some b \<Rightarrow> b | None \<Rightarrow> fallback) | None \<Rightarrow> fallback)"

definition getEnvInt :: "environ \<Rightarrow> string \<Rightarrow> int \<Rightarrow> int" where
  "getEnvInt env key fallback =
     (case env key of Some v \<Rightarrow> (case Atoi v of Some i \<Rightarrow> i | None \<Rightarrow> fallback) | None \<Rightarrow> fallback)"

definition getEnvSlice :: "environ \<Rightarrow> string \<Rightarrow> string list \<Rightarrow> string list" where
  "getEnvSlice env key fallback =
     (case env key of
        Some v \<Rightarrow> if v = [] then [] else map trim_space (split_on (CHR '','') v)
      | None \<Rightarrow> fallback)"

definition env_config :: "environ \<Rightarrow> config" where
  "env_config env =
     \<lparr>LogLevel = getEnv env ''LOG_LEVEL'' ''INFO'',
      ConsoleEnabled = getEnvBool env ''CONSOLE_LOG_ENABLED'' True,
      FileEnabled = getEnvBool env ''FILE_LOG_ENABLED'' True,
      LogDir = getEnv env ''LOG_DIR'' ''logs'',
      LogFileName = getEnv env ''LOG_FILE_NAME'' ''gateway.log'',
      LogMaxSizeMB = getEnvInt env ''LOG_MAX_SIZE_MB'' 10,
      LogMaxBackups = getEnvInt env ''LOG_MAX_BACKUPS'' 5,
      SocketPath = getEnv env ''SOCKET_PATH'' ''/tmp/keet-adk.sock'',
      StorageDir = getEnv env ''STORAGE_DIR'' ''storage'',
      DBType = getEnv env ''DB_TYPE'' ''bbolt'',
      BBoltPath = getEnv env ''BBOLT_PATH'' ''storage/gateway.db'',
      DBHost = getEnv env ''DB_HOST'' ''localhost'',
      DBPort = getEnv env ''DB_PORT'' ''5432'',
      DBUser = getEnv env ''DB_USER'' ''postgres'',
      DBPassword = getEnv env ''DB_PASSWORD'' ''postgres'',
      DBName = getEnv env ''DB_NAME'' ''keet_gateway'',
      DBSSLMode = getEnv env ''DB_SSLMODE'' ''disable'',
      P2PPort = getEnv env ''P2P_PORT'' ''0'',
      P2PListenAddr = getEnv env ''P2P_LISTEN_ADDR'' ''127.0.0.1'',
      ClientWhitelist = getEnvSlice env ''CLIENT_WHITELIST'' [],
      AgenticURL = getEnv env ''AGENTIC_URL'' ''''\<rparr>"

subsection \<open>The configuration file\<close>

text \<open>The loop over the arguments behind the program's name; the empty string is no path.\<close>

fun config_flag :: "string list \<Rightarrow> string" where
  "config_flag [] = []"
| "config_flag (arg # rest) =
     (if arg = ''--config'' \<or> arg = ''-config'' then (case rest of p # _ \<Rightarrow> p | [] \<Rightarrow> config_flag rest)
      else if prefix ''--config='' arg then drop 9 arg
      else if prefix ''-config='' arg then drop 8 arg
      else config_flag rest)"

text \<open>\<open>exec_config\<close> is the path \<open>config.yaml\<close> in the executable's directory, if that is known.\<close>

definition config_path :: "string list \<Rightarrow> (string \<Rightarrow> bool) \<Rightarrow> string option \<Rightarrow> string" where
  "config_path args file_exists exec_config =
     (let path = config_flag (drop 1 args);
          path = (if path = [] \<and> file_exists ''config.yaml'' then ''config.yaml'' else path)
      in if path = [] then (case exec_config of Some p \<Rightarrow> if file_exists p then p else [] | None \<Rightarrow> []) else path)"

definition LoadConfig ::
  "environ \<Rightarrow> string list \<Rightarrow> (string \<Rightarrow> bool) \<Rightarrow> string option \<Rightarrow> (string \<Rightarrow> config \<Rightarrow> config option) \<Rightarrow> config" where
  "LoadConfig env args file_exists exec_config yaml =
     (let cfg = env_config env; path = config_path args file_exists exec_config in
      if path = [] then cfg else (case yaml path cfg of Some cfg' \<Rightarrow> cfg' | None \<Rightarrow> cfg))"

subsection \<open>Facts\<close>

lemma digits_value_snoc: "digits_value (s @ [c]) = 10 * digits_value s + (of_char c - 48)"
  by (simp add: digits_value_def)

lemma digits_value_itoa: "digits_value (itoa n) = n"
proof (induction n rule: itoa.induct)
  case (1 n)
  have d: "(of_char (digit_char k) :: nat) = 48 + k" if "k < 10" for k using that by (simp add: digit_char_def)
  show ?case
  proof (cases "n < 10")
    case True
    then show ?thesis using d [of n] by (simp add: itoa.simps [of n] digits_value_def)
  next
    case False
    then show ?thesis using 1 d [of "n mod 10"] by (subst itoa.simps) (simp add: digits_value_snoc)
  qed
qed

text \<open>Numbers in the environment are read back as they are printed.\<close>

lemma Atoi_itoa: "n < 2 ^ 63 \<Longrightarrow> Atoi (itoa n) = Some (int n)"
proof -
  assume n: "n < 2 ^ 63"
  have dig: "list_all is_digit (itoa n)" by (rule itoa_digits)
  have ne: "itoa n \<noteq> []" by (subst itoa.simps) simp
  then obtain c r where c: "itoa n = c # r" by (cases "itoa n") auto
  with dig have "is_digit c" by simp
  then have "c \<noteq> CHR ''-''" "c \<noteq> CHR ''+''" by (auto simp: is_digit_def)
  with c dig n digits_value_itoa [of n] show ?thesis by (simp add: Atoi_def Let_def)
qed

text \<open>A flag wins over the working directory's file, and that over the executable's.\<close>

lemma config_path_precedence:
  "config_flag (drop 1 args) \<noteq> [] \<Longrightarrow> config_path args ex p = config_flag (drop 1 args)"
  "config_flag (drop 1 args) = [] \<Longrightarrow> ex ''config.yaml'' \<Longrightarrow> config_path args ex p = ''config.yaml''"
  "config_flag (drop 1 args) = [] \<Longrightarrow> \<not> ex ''config.yaml'' \<Longrightarrow> p = Some q \<Longrightarrow> ex q \<Longrightarrow> config_path args ex p = q"
  by (simp_all add: config_path_def)

text \<open>An empty \<open>CLIENT_WHITELIST\<close> is an empty whitelist, which the IPC handler takes as none.\<close>

lemma empty_whitelist_is_open:
  "env ''CLIENT_WHITELIST'' = Some [] \<Longrightarrow> ClientWhitelist (env_config env) = []"
  by (simp add: env_config_def getEnvSlice_def)

end
