(* ===== verification/Log_Handlers.thy ===== *)
theory Log_Handlers
  imports Log_Files Gateway_Config
begin

section \<open>The logger (pkg/logger/logger.go)\<close>

text \<open>
  A \<open>slog.Handler\<close> is a value of a type \<open>'h\<close> with the interface's operations; handling a record may
  change the handler's sink. Levels are Go's integers.
\<close>

record ('h, 'rec) handler_ops =
  h_Enabled :: "'h \<Rightarrow> int \<Rightarrow> bool"
  h_Handle :: "'h \<Rightarrow> 'rec \<Rightarrow> 'h \<times> error option"
  h_WithAttrs :: "'h \<Rightarrow> (string \<times> string) list \<Rightarrow> 'h"
  h_WithGroup :: "'h \<Rightarrow> string \<Rightarrow> 'h"

definition LevelDebug :: int where "LevelDebug = -4"
definition LevelInfo :: int where "LevelInfo = 0"
definition LevelWarn :: int where "LevelWarn = 4"
definition LevelError :: int where "LevelError = 8"

subsection \<open>MultiHandler\<close>

definition mh_Enabled :: "('h, 'rec) handler_ops \<Rightarrow> 'h list \<Rightarrow> int \<Rightarrow> bool" where
  "mh_Enabled ops hs level = list_ex (\<lambda>h. h_Enabled ops h level) hs"

fun mh_Handle :: "('h, 'rec) handler_ops \<Rightarrow> int \<Rightarrow> 'rec \<Rightarrow> 'h list \<Rightarrow> 'h list \<times> error option" where
  "mh_Handle ops level r [] = ([], None)"
| "mh_Handle ops level r (h # hs) =
     (if h_Enabled ops h level
      then (case h_Handle ops h r of
              (h', Some e) \<Rightarrow> (h' # hs, Some e)
            | (h', None) \<Rightarrow> (let (hs', err) = mh_Handle ops level r hs in (h' # hs', err)))
      else (let (hs', err) = mh_Handle ops level r hs in (h # hs', err)))"

definition mh_WithAttrs :: "('h, 'rec) handler_ops \<Rightarrow> (string \<times> string) list \<Rightarrow> 'h list \<Rightarrow> 'h list" where
  "mh_WithAttrs ops attrs hs = map (\<lambda>h. h_WithAttrs ops h attrs) hs"

definition mh_WithGroup :: "('h, 'rec) handler_ops \<Rightarrow> string \<Rightarrow> 'h list \<Rightarrow> 'h list" where
  "mh_WithGroup ops name hs = map (\<lambda>h. h_WithGroup ops h name) hs"

subsection \<open>Init\<close>

definition ToUpper :: "string \<Rightarrow> string" where
  "ToUpper s = map (\<lambda>c. if (97 :: nat) \<le> of_char c \<and> of_char c \<le> (122 :: nat) then char_of (of_char c - (32 :: nat)) else c) s"

definition log_level :: "string \<Rightarrow> int" where
  "log_level s =
     (let u = ToUpper s in
      if u = ''DEBUG'' then LevelDebug
      else if u = ''WARN'' \<or> u = ''WARNING'' then LevelWarn
      else if u = ''ERROR'' then LevelError
      else LevelInfo)"

text \<open>The two library handlers \<open>Init\<close> builds, with their minimum level.\<close>

datatype log_handler = StderrHandler int | FileHandler int log_rotator

fun handler_level :: "log_handler \<Rightarrow> int" where
  "handler_level (StderrHandler l) = l"
| "handler_level (FileHandler l r) = l"

definition logger_Init :: "log_env \<Rightarrow> error option \<Rightarrow> log_dir \<Rightarrow> config \<Rightarrow> log_handler list result" where
  "logger_Init L mkdir_err d cfg =
     (let level = log_level (LogLevel cfg);
          console = (if ConsoleEnabled cfg then [StderrHandler level] else [])
      in case (if FileEnabled cfg
               then (case NewLogRotator L mkdir_err (LogFileName cfg) (of_int (LogMaxSizeMB cfg)) (LogMaxBackups cfg) d of
                       Inl e \<Rightarrow> Inl (Wrap ''failed to init rotator'' e)
                     | Inr r \<Rightarrow> Inr (console @ [FileHandler level r]))
               else Inr console) of
           Inl e \<Rightarrow> Inl e
         | Inr hs \<Rightarrow> Inr (if hs = [] then [StderrHandler LevelError] else hs))"

subsection \<open>CustomLogger\<close>

text \<open>
  The frames behind the wrappers, innermost first, as function names with program counters: the first
  that is neither a method of the logger nor of the run time, or 0.
\<close>

definition Contains :: "string \<Rightarrow> string \<Rightarrow> bool" where
  "Contains s sub = list_ex (prefix sub) (suffixes s)"

fun caller_pc :: "(string \<times> nat) list \<Rightarrow> nat" where
  "caller_pc [] = 0"
| "caller_pc ((fn, pc) # frames) =
     (if \<not> Contains fn ''(*CustomLogger)'' \<and> \<not> Contains fn ''runtime.'' then pc else caller_pc frames)"

record log_record =
  rec_level :: int
  rec_message :: string
  rec_pc :: nat

definition custom_log ::
  "('h, log_record) handler_ops \<Rightarrow> string \<Rightarrow> int \<Rightarrow> string \<Rightarrow> (string \<times> nat) list \<Rightarrow> 'h list \<Rightarrow> 'h list" where
  "custom_log ops module level msg frames hs =
     (if \<not> mh_Enabled ops hs level then hs
      else let text = (if module \<noteq> [] then ''['' @ module @ ''] '' @ msg else msg)
           in fst (mh_Handle ops level \<lparr>rec_level = level, rec_message = text, rec_pc = caller_pc frames\<rparr> hs))"

definition Debugf :: "('h, log_record) handler_ops \<Rightarrow> string \<Rightarrow> string \<Rightarrow> (string \<times> nat) list \<Rightarrow> 'h list \<Rightarrow> 'h list" where
  "Debugf ops module = custom_log ops module LevelDebug"

definition Infof :: "('h, log_record) handler_ops \<Rightarrow> string \<Rightarrow> string \<Rightarrow> (string \<times> nat) list \<Rightarrow> 'h list \<Rightarrow> 'h list" where
  "Infof ops module = custom_log ops module LevelInfo"

definition Warnf :: "('h, log_record) handler_ops \<Rightarrow> string \<Rightarrow> string \<Rightarrow> (string \<times> nat) list \<Rightarrow> 'h list \<Rightarrow> 'h list" where
  "Warnf ops module = custom_log ops module LevelWarn"

definition Errorf :: "('h, log_record) handler_ops \<Rightarrow> string \<Rightarrow> string \<Rightarrow> (string \<times> nat) list \<Rightarrow> 'h list \<Rightarrow> 'h list" where
  "Errorf ops module = custom_log ops module LevelError"

subsection \<open>Facts\<close>

text \<open>
  Each enabled handler in front of the first failing one gets the record once; the ones behind a
  failure get nothing, so a failing console handler keeps the record out of the file.
\<close>

lemma mh_Handle_all:
  "\<forall>h\<in>set hs. h_Enabled ops h level \<longrightarrow> snd (h_Handle ops h r) = None \<Longrightarrow>
     mh_Handle ops level r hs = (map (\<lambda>h. if h_Enabled ops h level then fst (h_Handle ops h r) else h) hs, None)"
  by (induction hs) (auto split: prod.splits)

lemma mh_Handle_stops:
  assumes "\<forall>h\<in>set hs. h_Enabled ops h level \<longrightarrow> snd (h_Handle ops h r) = None"
    and "h_Enabled ops h level" "h_Handle ops h r = (h', Some e)"
  shows "mh_Handle ops level r (hs @ h # hs') =
    (map (\<lambda>h. if h_Enabled ops h level then fst (h_Handle ops h r) else h) hs @ h' # hs', Some e)"
  using assms(1) by (induction hs) (auto simp: assms(2,3) split: prod.splits)

text \<open>The logger has a handler, and without both outputs it is for errors on the console only.\<close>

lemma logger_Init_handlers:
  assumes "logger_Init L mkdir_err d cfg = Inr hs"
  shows "hs \<noteq> []"
    and "list_all (\<lambda>h. handler_level h = (if ConsoleEnabled cfg \<or> FileEnabled cfg then log_level (LogLevel cfg) else LevelError)) hs"
  using assms by (auto simp: logger_Init_def Let_def split: if_splits sum.splits)

lemma log_levels:
  "log_level ''debug'' = LevelDebug" "log_level ''Warning'' = LevelWarn" "log_level ''error'' = LevelError" "log_level ''x'' = LevelInfo"
  by code_simp+

end
