(* ===== verification/Db_Postgres.thy ===== *)
theory Db_Postgres
  imports Db_Bolt Gateway_Config
begin

section \<open>The PostgreSQL backend (pkg/db/postgres.go, migrations.go, swarm_repo.go, block_repo.go, init.go)\<close>

text \<open>
  The driver \<open>pgx\<close> and the server are third-party code: the operations of the pool that the
  repositories call are the record \<open>pg_pool\<close>, on the text of a query and its arguments. What Postgres
  promises for the six statements of the repositories is the locale \<open>pg_store\<close>. A \<open>nil\<close> byte slice
  is the SQL value NULL, and an index travels as the \<open>int64\<close> of its 64 bits.
\<close>

datatype sql_value = SqlText string | SqlInt u64 | SqlBytes "bytes option"

record 'db pg_pool =
  pool_Exec :: "'db \<Rightarrow> string \<Rightarrow> sql_value list \<Rightarrow> 'db \<times> error option"
  pool_QueryRow :: "'db \<Rightarrow> string \<Rightarrow> sql_value list \<Rightarrow> sql_value list result"
  pool_Query :: "'db \<Rightarrow> string \<Rightarrow> (sql_value list list \<times> error option) result"
  pool_Ping :: "'db \<Rightarrow> error option"
  tx_Begin :: "'db \<Rightarrow> error option"
  tx_Commit :: "'db \<Rightarrow> error option"

subsection \<open>Connection and migrations\<close>

definition conn_string :: "config \<Rightarrow> string" where
  "conn_string cfg =
     ''postgres://'' @ DBUser cfg @ '':'' @ DBPassword cfg @ ''@'' @ DBHost cfg @ '':'' @ DBPort cfg @ ''/'' @
     DBName cfg @ ''?sslmode='' @ DBSSLMode cfg"

text \<open>\<open>create\<close> parses the connection string and builds the pool, in this order of errors.\<close>

definition pg_Connect ::
  "'db pg_pool \<Rightarrow> (string \<Rightarrow> error option) \<Rightarrow> (string \<Rightarrow> 'db result) \<Rightarrow> config \<Rightarrow> 'db result" where
  "pg_Connect P parse create cfg =
     (case parse (conn_string cfg) of
        Some e \<Rightarrow> Inl (Wrap ''parse connection string'' e)
      | None \<Rightarrow>
          (case create (conn_string cfg) of
             Inl e \<Rightarrow> Inl (Wrap ''create connection pool'' e)
           | Inr db \<Rightarrow> (case pool_Ping P db of Some e \<Rightarrow> Inl (Wrap ''ping database'' e) | None \<Rightarrow> Inr db)))"

definition swarms_schema :: string where
  "swarms_schema = ''CREATE TABLE IF NOT EXISTS swarms (topic_key TEXT PRIMARY KEY, topic_name TEXT NOT NULL, created_at TIMESTAMP WITH TIME ZONE DEFAULT CURRENT_TIMESTAMP);''"

definition blocks_schema :: string where
  "blocks_schema = ''CREATE TABLE IF NOT EXISTS blocks (feed_key TEXT NOT NULL, block_index BIGINT NOT NULL, value BYTEA NOT NULL, signature BYTEA NOT NULL, created_at TIMESTAMP WITH TIME ZONE DEFAULT CURRENT_TIMESTAMP, PRIMARY KEY (feed_key, block_index));''"

text \<open>The statements run in a transaction that is rolled back on any error.\<close>

definition RunMigrations :: "'db pg_pool \<Rightarrow> 'db \<Rightarrow> 'db \<times> error option" where
  "RunMigrations P db =
     (case tx_Begin P db of
        Some e \<Rightarrow> (db, Some (Wrap ''begin transaction'' e))
      | None \<Rightarrow>
          (case pool_Exec P db swarms_schema [] of
             (_, Some e) \<Rightarrow> (db, Some (Wrap ''create swarms table'' e))
           | (db1, None) \<Rightarrow>
               (case pool_Exec P db1 blocks_schema [] of
                  (_, Some e) \<Rightarrow> (db, Some (Wrap ''create blocks table'' e))
                | (db2, None) \<Rightarrow>
                    (case tx_Commit P db2 of
                       Some e \<Rightarrow> (db, Some (Wrap ''commit transaction'' e))
                     | None \<Rightarrow> (db2, None)))))"

subsection \<open>Repositories\<close>

definition put_block_query :: string where
  "put_block_query = ''INSERT INTO blocks (feed_key, block_index, value, signature) VALUES ($1, $2, $3, $4) ON CONFLICT (feed_key, block_index) DO UPDATE SET value = $3, signature = $4;''"

definition get_block_query :: string where
  "get_block_query = ''SELECT value, signature FROM blocks WHERE feed_key = $1 AND block_index = $2;''"

definition register_swarm_query :: string where
  "register_swarm_query = ''INSERT INTO swarms (topic_key, topic_name) VALUES ($1, $2) ON CONFLICT (topic_key) DO UPDATE SET topic_name = $2;''"

definition unregister_swarm_query :: string where
  "unregister_swarm_query = ''DELETE FROM swarms WHERE topic_key = $1;''"

definition active_swarms_query :: string where
  "active_swarms_query = ''SELECT topic_key FROM swarms;''"

definition exec_wrapped :: "'db pg_pool \<Rightarrow> string \<Rightarrow> 'db \<Rightarrow> string \<Rightarrow> sql_value list \<Rightarrow> 'db \<times> error option" where
  "exec_wrapped P context db query args =
     (case pool_Exec P db query args of (db', Some e) \<Rightarrow> (db', Some (Wrap context e)) | (db', None) \<Rightarrow> (db', None))"

definition pg_PutBlock :: "'db pg_pool \<Rightarrow> 'db \<Rightarrow> string \<Rightarrow> u64 \<Rightarrow> bytes \<Rightarrow> bytes option \<Rightarrow> 'db \<times> error option" where
  "pg_PutBlock P db feedKey index val signature =
     exec_wrapped P ''db put block'' db put_block_query [SqlText feedKey, SqlInt index, SqlBytes (Some val), SqlBytes signature]"

definition pg_GetBlock :: "'db pg_pool \<Rightarrow> 'db \<Rightarrow> string \<Rightarrow> u64 \<Rightarrow> (bytes \<times> bytes) result" where
  "pg_GetBlock P db feedKey index =
     (case pool_QueryRow P db get_block_query [SqlText feedKey, SqlInt index] of
        Inl e \<Rightarrow> Inl (Wrap ''db get block'' e)
      | Inr [SqlBytes v, SqlBytes s] \<Rightarrow> Inr (sig_bytes v, sig_bytes s)
      | Inr _ \<Rightarrow> Inl (Wrap ''db get block'' (ErrNew ''scan'')))"

definition pg_RegisterSwarm :: "'db pg_pool \<Rightarrow> 'db \<Rightarrow> string \<Rightarrow> string \<Rightarrow> 'db \<times> error option" where
  "pg_RegisterSwarm P db topicKey topicName =
     exec_wrapped P ''db register swarm'' db register_swarm_query [SqlText topicKey, SqlText topicName]"

definition pg_UnregisterSwarm :: "'db pg_pool \<Rightarrow> 'db \<Rightarrow> string \<Rightarrow> 'db \<times> error option" where
  "pg_UnregisterSwarm P db topicKey =
     exec_wrapped P ''db unregister swarm'' db unregister_swarm_query [SqlText topicKey]"

fun scan_keys :: "sql_value list list \<Rightarrow> string list result" where
  "scan_keys [] = Inr []"
| "scan_keys (row # rows) =
     (case row of
        [SqlText k] \<Rightarrow> (case scan_keys rows of Inl e \<Rightarrow> Inl e | Inr ks \<Rightarrow> Inr (k # ks))
      | _ \<Rightarrow> Inl (Wrap ''db scan swarm row'' (ErrNew ''scan'')))"

definition pg_GetActiveSwarms :: "'db pg_pool \<Rightarrow> 'db \<Rightarrow> string list result" where
  "pg_GetActiveSwarms P db =
     (case pool_Query P db active_swarms_query of
        Inl e \<Rightarrow> Inl (Wrap ''db get active swarms'' e)
      | Inr (rows, rows_err) \<Rightarrow>
          (case scan_keys rows of Inl e \<Rightarrow> Inl e
           | Inr keys \<Rightarrow> (case rows_err of Some e \<Rightarrow> Inl (Wrap ''db active swarms iteration error'' e) | None \<Rightarrow> Inr keys)))"

definition pg_block_repo :: "'db pg_pool \<Rightarrow> 'db block_repo" where
  "pg_block_repo P = \<lparr>PutBlock = pg_PutBlock P, GetBlock = pg_GetBlock P\<rparr>"

definition pg_swarm_repo :: "'db pg_pool \<Rightarrow> 'db swarm_repo" where
  "pg_swarm_repo P = \<lparr>RegisterSwarm = pg_RegisterSwarm P, UnregisterSwarm = pg_UnregisterSwarm P,
     GetActiveSwarms = pg_GetActiveSwarms P\<rparr>"

subsection \<open>InitDatabase\<close>

datatype ('b, 'p) database = BoltDatabase 'b | PostgresDatabase 'p

definition InitDatabase ::
  "'b bolt_api \<Rightarrow> (string \<Rightarrow> error option) \<Rightarrow> (string \<Rightarrow> 'b result) \<Rightarrow>
   'p pg_pool \<Rightarrow> (string \<Rightarrow> error option) \<Rightarrow> (string \<Rightarrow> 'p result) \<Rightarrow> config \<Rightarrow> ('b, 'p) database result" where
  "InitDatabase B mkdir bopen P parse create cfg =
     (if DBType cfg = ''bbolt''
      then (case NewBoltDB B (mkdir (BBoltPath cfg)) (bopen (BBoltPath cfg)) of
              Inl e \<Rightarrow> Inl (Wrap ''init bbolt database'' e)
            | Inr db \<Rightarrow> Inr (BoltDatabase db))
      else (case pg_Connect P parse create cfg of
              Inl e \<Rightarrow> Inl (Wrap ''connect postgres database'' e)
            | Inr db \<Rightarrow>
                (case RunMigrations P db of
                   (_, Some e) \<Rightarrow> Inl (Wrap ''run postgres migrations'' e)
                 | (db', None) \<Rightarrow> Inr (PostgresDatabase db'))))"

subsection \<open>The contract on Postgres\<close>

text \<open>
  What the block statements do to the table: an upsert needs valid text and no NULL, a select returns
  the row. \<open>blocks_row\<close> reads the table of a database.
\<close>

definition valid_text :: "string \<Rightarrow> bool" where
  "valid_text s \<longleftrightarrow> list_all (\<lambda>c. 0 < (of_char c :: nat) \<and> of_char c < (128 :: nat)) s"

locale pg_store =
  fixes P :: "'db pg_pool" and good :: "'db \<Rightarrow> bool"
    and blocks_row :: "'db \<Rightarrow> string \<times> u64 \<Rightarrow> (bytes \<times> bytes) option"
  assumes upsert_block: "good db \<Longrightarrow> valid_text f \<Longrightarrow>
      \<exists>db'. pool_Exec P db put_block_query [SqlText f, SqlInt i, SqlBytes (Some v), SqlBytes (Some s)] = (db', None) \<and>
        good db' \<and> blocks_row db' = (blocks_row db)((f, i) \<mapsto> (v, s))"
    and null_block: "good db \<Longrightarrow>
      \<exists>e. pool_Exec P db put_block_query [SqlText f, SqlInt i, SqlBytes (Some v), SqlBytes None] = (db, Some e)"
    and select_block: "good db \<Longrightarrow>
      case blocks_row db (f, i) of
        Some (v, s) \<Rightarrow> pool_QueryRow P db get_block_query [SqlText f, SqlInt i] = Inr [SqlBytes (Some v), SqlBytes (Some s)]
      | None \<Rightarrow> \<exists>e. pool_QueryRow P db get_block_query [SqlText f, SqlInt i] = Inl e"

definition pg_storable :: "string \<Rightarrow> bytes \<Rightarrow> bytes option \<Rightarrow> bool" where
  "pg_storable f v sg \<longleftrightarrow> valid_text f \<and> sg \<noteq> None"

context pg_store
begin

lemma get_block: "good db \<Longrightarrow> pg_GetBlock P db f i = Inr x \<longleftrightarrow> blocks_row db (f, i) = Some x"
  using select_block [of db f i]
  by (cases "blocks_row db (f, i)") (auto simp: pg_GetBlock_def sig_bytes_def)

lemma put_block:
  assumes "good db" "pg_storable f v sg"
  shows "\<exists>db' s. sg = Some s \<and> pg_PutBlock P db f i v sg = (db', None) \<and> good db' \<and>
    blocks_row db' = (blocks_row db)((f, i) \<mapsto> (v, s))"
  using upsert_block [of db f i v "the sg"] assms by (auto simp: pg_PutBlock_def exec_wrapped_def pg_storable_def)

end

sublocale pg_store \<subseteq> pg_blocks: block_repository "pg_block_repo P" good pg_storable
proof unfold_locales
  fix r f i v sg
  assume a: "good r" "pg_storable f v sg"
  show "snd (PutBlock (pg_block_repo P) r f i v sg) = None \<and> good (fst (PutBlock (pg_block_repo P) r f i v sg))"
    using put_block [OF a, of i] by (auto simp: pg_block_repo_def)
next
  fix r f i v b
  assume a: "good r" "pg_storable f v (Some b)"
  show "GetBlock (pg_block_repo P) (fst (PutBlock (pg_block_repo P) r f i v (Some b))) f i = Inr (v, b)"
    using put_block [OF a, of i] by (auto simp: pg_block_repo_def get_block)
next
  fix r f i v sg f' and i' :: u64 and x
  assume a: "good r" "pg_storable f v sg" "(f', i') \<noteq> (f, i)"
  show "GetBlock (pg_block_repo P) (fst (PutBlock (pg_block_repo P) r f i v sg)) f' i' = Inr x \<longleftrightarrow>
      GetBlock (pg_block_repo P) r f' i' = Inr x"
    using put_block [OF a(1,2), of i] a by (auto simp: pg_block_repo_def get_block)
qed

subsection \<open>A table in memory with Postgres' documented behaviour\<close>

type_synonym mem_table = "((string \<times> u64) \<times> (bytes \<times> bytes)) list"

definition mem_exec :: "mem_table \<Rightarrow> string \<Rightarrow> sql_value list \<Rightarrow> mem_table \<times> error option" where
  "mem_exec db query args =
     (case args of
        [SqlText f, SqlInt i, SqlBytes (Some v), SqlBytes sg] \<Rightarrow>
          (if query \<noteq> put_block_query then (db, Some (ErrNew ''syntax error''))
           else case sg of None \<Rightarrow> (db, Some (ErrNew ''null value in column signature''))
             | Some s \<Rightarrow> if valid_text f then (AList.update (f, i) (v, s) db, None)
                 else (db, Some (ErrNew ''invalid byte sequence'')))
      | [] \<Rightarrow> (db, if query = swarms_schema \<or> query = blocks_schema then None else Some (ErrNew ''syntax error''))
      | _ \<Rightarrow> (db, Some (ErrNew ''syntax error'')))"

definition mem_pg :: "mem_table pg_pool" where
  "mem_pg = \<lparr>pool_Exec = mem_exec,
     pool_QueryRow = (\<lambda>db query args. case args of
       [SqlText f, SqlInt i] \<Rightarrow> (case map_of db (f, i) of None \<Rightarrow> Inl (ErrNew ''no rows in result set'')
         | Some (v, s) \<Rightarrow> Inr [SqlBytes (Some v), SqlBytes (Some s)])
       | _ \<Rightarrow> Inl (ErrNew ''syntax error'')),
     pool_Query = (\<lambda>db query. Inr ([], None)), pool_Ping = (\<lambda>_. None), tx_Begin = (\<lambda>_. None), tx_Commit = (\<lambda>_. None)\<rparr>"

interpretation mem_pg_store: pg_store mem_pg "\<lambda>_. True" map_of
  by unfold_locales (auto simp: mem_pg_def mem_exec_def update_conv' split: option.splits)

subsection \<open>The two backends store the same blocks\<close>

context bolt_store
begin

lemmas bolt_put_all = bolt_blocks.put_all_map

end

context pg_store
begin

lemmas pg_put_all = pg_blocks.put_all_map

end

text \<open>
  C38. The backends agree. Over any sequence of blocks that both can store, starting from databases
  without blocks, a bbolt and a Postgres repository return the same blocks and signatures for the
  same feeds and indices, the last stored of each, and an error for every other.
\<close>

theorem block_backends_agree:
  assumes "bolt_store B bgood" "pg_store P pgood row" "bolt_ready B bgood b0" "pgood p0"
    and "\<And>f i x. bolt_GetBlock B b0 f i \<noteq> Inr x" "\<And>f i. row p0 (f, i) = None"
    and "\<forall>(f, i, v, sg)\<in>set ops. bolt_storable f v (Some sg) \<and> valid_text f"
  shows "(GetBlock (bolt_block_repo B) (put_all (bolt_block_repo B) b0 ops) f i = Inr x \<longleftrightarrow>
      GetBlock (pg_block_repo P) (put_all (pg_block_repo P) p0 ops) f i = Inr x) \<and>
    (GetBlock (pg_block_repo P) (put_all (pg_block_repo P) p0 ops) f i = Inr x \<longleftrightarrow>
      foldl (\<lambda>m (f, i, v, sg). m((f, i) \<mapsto> (v, sg))) (\<lambda>_. None) ops (f, i) = Some x)"
proof -
  let ?m = "\<lambda>_ :: string \<times> u64. None :: (bytes \<times> bytes) option"
  have "GetBlock (bolt_block_repo B) (put_all (bolt_block_repo B) b0 ops) f i = Inr x \<longleftrightarrow>
      foldl (\<lambda>m (f, i, v, sg). m((f, i) \<mapsto> (v, sg))) ?m ops (f, i) = Some x"
    by (rule conjunct2 [OF bolt_store.bolt_put_all [OF assms(1,3)]])
      (use assms(5,7) in \<open>auto simp: bolt_block_repo_def\<close>)
  moreover have "GetBlock (pg_block_repo P) (put_all (pg_block_repo P) p0 ops) f i = Inr x \<longleftrightarrow>
      foldl (\<lambda>m (f, i, v, sg). m((f, i) \<mapsto> (v, sg))) ?m ops (f, i) = Some x"
    by (rule conjunct2 [OF pg_store.pg_put_all [OF assms(2,4)]])
      (use assms(4,6,7) pg_store.get_block [OF assms(2,4)] in \<open>auto simp: pg_block_repo_def pg_storable_def\<close>)
  ultimately show ?thesis by simp
qed

theorem block_backends_agree_witness:
  "\<exists>b0. GetBlock (bolt_block_repo mem_bolt) (put_all (bolt_block_repo mem_bolt) b0 [(''f'', 0, [1], [2]), (''f'', 0, [3], [4])]) ''f'' 0 = Inr ([3], [4]) \<and>
    GetBlock (pg_block_repo mem_pg) (put_all (pg_block_repo mem_pg) [] [(''f'', 0, [1], [2]), (''f'', 0, [3], [4])]) ''f'' 0 = Inr ([3], [4])"
proof -
  obtain b0 where b0: "NewBoltDB mem_bolt None (Inr []) = Inr b0" "bolt_ready mem_bolt (\<lambda>_. True) b0"
    using new_mem_bolt by blast
  have "bolt_GetBlock mem_bolt b0 f i \<noteq> Inr x" for f i x
    using b0(1) by (auto simp: NewBoltDB_def bolt_update_def create_if_missing_def mem_bolt_def bolt_GetBlock_def
        valid_key_def swarmsBucket_def blocksBucket_def byte_of_char_def split: if_splits)
  moreover have "\<forall>(f, i, v, sg)\<in>set [(''f'', 0 :: u64, [1], [2]), (''f'', 0, [3], [4])]. bolt_storable f v (Some sg) \<and> valid_text f"
    by (simp add: bolt_storable_def valid_key_def valid_value_def valid_text_def encodeBlock_def sig_bytes_def)
  ultimately show ?thesis
    using block_backends_agree [OF mem_store.bolt_store_axioms mem_pg_store.pg_store_axioms b0(2) TrueI,
        of "[]" "[(''f'', 0, [1], [2]), (''f'', 0, [3], [4])]" "''f''" 0 "([3], [4])"]
    by (intro exI [of _ b0]) auto
qed

text \<open>A block without a signature is stored by bbolt only: Postgres refuses the row.\<close>

lemma unsigned_block_refused:
  assumes "pg_store P good row" "good db"
  shows "\<exists>e. PutBlock (pg_block_repo P) db f i v None = (db, Some e)"
proof -
  obtain e where "pool_Exec P db put_block_query [SqlText f, SqlInt i, SqlBytes (Some v), SqlBytes None] = (db, Some e)"
    using pg_store.null_block [OF assms, of f i v] by blast
  then show ?thesis by (simp add: pg_block_repo_def pg_PutBlock_def exec_wrapped_def)
qed

lemma unsigned_block_stored_by_bolt:
  assumes "bolt_store B good" "bolt_ready B good db" "bolt_storable f v None"
  shows "snd (PutBlock (bolt_block_repo B) db f i v None) = None"
  using bolt_store.put_block_effect [OF assms, of i] by (auto simp: bolt_block_repo_def)

end
