(* ===== verification/Gateway_Main.thy ===== *)
theory Gateway_Main
  imports Ipc_Client Net_Peers Log_Handlers Db_Postgres Crypto_Secure
begin

section \<open>The gateway process (cmd/gateway/main.go)\<close>

text \<open>
  \<open>main\<close> composes the components: it builds the logger, the IPC listener, the DHT node, the database,
  the block storage, the node key and the peer manager, wires their callbacks and serves IPC clients.
  The environment supplies the outcome of everything outside the program; a start ends with
  \<open>os.Exit(1)\<close>, which skips the deferred calls, with a panic, which runs them, or in the accept loop.
\<close>

subsection \<open>The repositories of either database\<close>

text \<open>The interface values that \<open>InitDatabase\<close> returns dispatch to the backend that it opened.\<close>

definition database_block_repo :: "'b bolt_api \<Rightarrow> 'p pg_pool \<Rightarrow> ('b, 'p) database block_repo" where
  "database_block_repo B P =
     \<lparr>PutBlock = (\<lambda>d f i v s. case d of
          BoltDatabase b \<Rightarrow> (let (b', e) = PutBlock (bolt_block_repo B) b f i v s in (BoltDatabase b', e))
        | PostgresDatabase p \<Rightarrow> (let (p', e) = PutBlock (pg_block_repo P) p f i v s in (PostgresDatabase p', e))),
      GetBlock = (\<lambda>d f i. case d of
          BoltDatabase b \<Rightarrow> GetBlock (bolt_block_repo B) b f i
        | PostgresDatabase p \<Rightarrow> GetBlock (pg_block_repo P) p f i)\<rparr>"

definition database_swarm_repo :: "'b bolt_api \<Rightarrow> 'p pg_pool \<Rightarrow> ('b, 'p) database swarm_repo" where
  "database_swarm_repo B P =
     \<lparr>RegisterSwarm = (\<lambda>d k n. case d of
          BoltDatabase b \<Rightarrow> (let (b', e) = RegisterSwarm (bolt_swarm_repo B) b k n in (BoltDatabase b', e))
        | PostgresDatabase p \<Rightarrow> (let (p', e) = RegisterSwarm (pg_swarm_repo P) p k n in (PostgresDatabase p', e))),
      UnregisterSwarm = (\<lambda>d k. case d of
          BoltDatabase b \<Rightarrow> (let (b', e) = UnregisterSwarm (bolt_swarm_repo B) b k in (BoltDatabase b', e))
        | PostgresDatabase p \<Rightarrow> (let (p', e) = UnregisterSwarm (pg_swarm_repo P) p k in (PostgresDatabase p', e))),
      GetActiveSwarms = (\<lambda>d. case d of
          BoltDatabase b \<Rightarrow> GetActiveSwarms (bolt_swarm_repo B) b
        | PostgresDatabase p \<Rightarrow> GetActiveSwarms (pg_swarm_repo P) p)\<rparr>"

subsection \<open>Start-up\<close>

definition defaultFeedKey :: string where
  "defaultFeedKey = ''default_feed''"

record ('o, 'w, 'b, 'p) boot_env =
  be_log :: log_env
  be_log_mkdir :: "error option"
  be_log_dir :: log_dir
  be_os :: "'o os"
  be_bootstrap :: string
  be_random_id :: node_id
  be_udp_listen :: "int \<Rightarrow> string result"
  be_bolt :: "'b bolt_api"
  be_db_mkdir :: "string \<Rightarrow> error option"
  be_bolt_open :: "string \<Rightarrow> 'b result"
  be_pool :: "'p pg_pool"
  be_pool_parse :: "string \<Rightarrow> error option"
  be_pool_create :: "string \<Rightarrow> 'p result"
  be_storage :: open_faults
  be_disk :: disk
  be_key :: key_env
  be_key_file :: "bytes option"
  be_p2p_bind :: "string \<Rightarrow> go_addr result"
  be_net :: "'w network"

text \<open>\<open>gw_store\<close> and \<open>pm_storage\<close>, and the two block repositories, are one object each in the program.\<close>

record ('w, 'b, 'p, 'f) running =
  run_log :: "log_handler list"
  run_listener :: socket_listener
  run_gateway :: "('w, ('b, 'p) database, ('b, 'p) database, 'f) gateway"
  run_peers :: "('b, 'p) database peer_manager"

datatype 'g outcome = Exited error | Crashed error | Serving 'g

text \<open>\<open>uint16(pm.Addr().(*net.TCPAddr).Port)\<close>.\<close>

definition tcp_port :: "go_addr option \<Rightarrow> u16 result" where
  "tcp_port a = (case a of Some (GoTCPAddr _ port) \<Rightarrow> Inr (of_nat port) | _ \<Rightarrow> Inl (Panic ''interface conversion''))"

text \<open>
  From the port on: the node starts, the registry's callback is set and the accept loop is reached.
  \<open>None\<close> stands for a start of the node that does not return.
\<close>

definition main_serve ::
  "('o, 'w, 'b, 'p) boot_env \<Rightarrow> log_handler list \<Rightarrow> socket_listener \<Rightarrow> dht_node \<Rightarrow> ('b, 'p) database \<Rightarrow>
     ('b, 'p) database peer_manager \<Rightarrow> u16 \<Rightarrow> 'w \<Rightarrow> ('w, 'b, 'p, 'f) running option" where
  "main_serve E hs l node db pm p2pPort w =
     (let swarmRegistry = NewSwarmRegistry\<lparr>sr_P2PPort := p2pPort\<rparr>;
          swarmRepo = database_swarm_repo (be_bolt E) (be_pool E)
      in case node_Start (be_net E) (Some (GetActiveSwarms swarmRepo db)) (SetP2PPort p2pPort node) w of
           None \<Rightarrow> None
         | Some (node', w') \<Rightarrow>
             Some \<lparr>run_log = hs, run_listener = l,
               run_gateway = \<lparr>gw_node = Some node', gw_reg = Some (swarmRegistry\<lparr>sr_OnRegisterPeer := True\<rparr>),
                 gw_store = Some (pm_storage pm), gw_swarmRepo = Some (swarmRepo, db),
                 gw_blockRepo = pm_blockRepo pm, gw_world = w', gw_clients = [], gw_sent = []\<rparr>,
               run_peers = pm\<rparr>)"

definition main_boot ::
  "('o, 'w, 'b, 'p) boot_env \<Rightarrow> config \<Rightarrow> 'o \<Rightarrow> 'w \<Rightarrow> ('o \<times> ('w, 'b, 'p, 'f) running outcome) option" where
  "main_boot E cfg o0 w =
     (case logger_Init (be_log E) (be_log_mkdir E) (be_log_dir E) cfg of Inl e \<Rightarrow> Some (o0, Exited e) | Inr hs \<Rightarrow>
     (case NewSocketListener (be_os E) (SocketPath cfg) o0 of (o1, Inl e) \<Rightarrow> Some (o1, Exited e) | (o1, Inr l) \<Rightarrow>
     (case NewDHTNode (be_bootstrap E) (be_random_id E) (be_udp_listen E) None of Inl e \<Rightarrow> Some (o1, Exited e) | Inr node \<Rightarrow>
     (case InitDatabase (be_bolt E) (be_db_mkdir E) (be_bolt_open E) (be_pool E) (be_pool_parse E) (be_pool_create E) cfg of
        Inl e \<Rightarrow> Some (o1, Exited e) | Inr db \<Rightarrow>
     (case NewStorage (be_storage E) (be_disk E) of Inl e \<Rightarrow> Some (o1, Exited e) | Inr st \<Rightarrow>
     (case LoadOrGenerateNodeKey (be_key E) (be_key_file E) of (_, Inl e) \<Rightarrow> Some (o1, Exited e) | (_, Inr priv) \<Rightarrow>
     (let pm = NewPeerManager priv st (Some (database_block_repo (be_bolt E) (be_pool E), db)) defaultFeedKey in
      case StartListener (be_p2p_bind E (P2PListenAddr cfg @ '':'' @ P2PPort cfg)) pm of
        (_, Some e) \<Rightarrow> Some (o1, Exited e)
      | ((pm', mux), None) \<Rightarrow>
          (case tcp_port (pm_Addr pm') of
             Inl e \<Rightarrow> Some (fst (SocketListener_Close (be_os E) l o1), Crashed e)
           | Inr p2pPort \<Rightarrow> map_option (\<lambda>r. (o1, Serving r)) (main_serve E hs l node db pm' p2pPort w)))))))))"

subsection \<open>Replies of the agentic service\<close>

text \<open>
  The HTTP service is \<open>ag_post\<close>: from the URL, the sender and the content to the status and the
  decoded body, if any; \<open>ag_marshal\<close> is the block of a reply, with the time of the clock.
\<close>

record 'f agentic_env =
  ag_post :: "string \<Rightarrow> string \<Rightarrow> string \<Rightarrow> (nat \<times> 'f object result) result"
  ag_marshal :: "string \<Rightarrow> bytes result"

text \<open>The first of the three fields that is a string, even an empty one.\<close>

definition reply_text :: "'f object \<Rightarrow> string" where
  "reply_text resp =
     (case resp ''response'' of Some (JString t) \<Rightarrow> t
      | _ \<Rightarrow> (case resp ''content'' of Some (JString t) \<Rightarrow> t
          | _ \<Rightarrow> (case resp ''message'' of Some (JString t) \<Rightarrow> t | _ \<Rightarrow> [])))"

definition agentic_answer :: "'f agentic_env \<Rightarrow> string \<Rightarrow> string \<Rightarrow> string \<Rightarrow> string option" where
  "agentic_answer A url sender content =
     (case ag_post A url sender content of Inl _ \<Rightarrow> None
      | Inr (status, body) \<Rightarrow>
          if status \<noteq> 200 \<and> status \<noteq> 201 then None
          else (case body of Inl _ \<Rightarrow> None
                | Inr resp \<Rightarrow> (let t = reply_text resp in if t = [] then None else Some t)))"

text \<open>As for \<open>append_block\<close>, the length is read before the append, under a lock of its own.\<close>

definition agentic_at ::
  "('w, 'f) ipc_env \<Rightarrow> write_fault \<times> write_fault \<Rightarrow> bytes \<Rightarrow> u64 \<Rightarrow> storage \<Rightarrow>
     ('w, 's, 'r, 'f) gateway \<Rightarrow> ('w, 's, 'r, 'f) gateway" where
  "agentic_at E ff responseBlock currIndex store g =
     (case storage_append (fst ff) (snd ff) store responseBlock of
        (st, Some _) \<Rightarrow> g\<lparr>gw_store := Some st\<rparr>
      | (st, None) \<Rightarrow>
          BroadcastChatMessage E defaultFeedKey currIndex responseBlock
            (g\<lparr>gw_store := Some st,
               gw_blockRepo := map_option (\<lambda>(R, r). (R, fst (PutBlock R r defaultFeedKey currIndex responseBlock None))) (gw_blockRepo g)\<rparr>))"

definition agentic_append ::
  "('w, 'f) ipc_env \<Rightarrow> 'f agentic_env \<Rightarrow> write_fault \<times> write_fault \<Rightarrow> string \<Rightarrow>
     ('w, 's, 'r, 'f) gateway \<Rightarrow> ('w, 's, 'r, 'f) gateway" where
  "agentic_append E A ff text g =
     (case (ag_marshal A text, gw_store g) of
        (Inr responseBlock, Some store) \<Rightarrow> agentic_at E ff responseBlock (storage_len store) store g
      | _ \<Rightarrow> g)"

text \<open>
  \<open>pm.OnAppendBlock\<close>: the block goes to the local clients, and a chat message that the service did
  not write itself is forwarded to it. The forwarding goroutine runs to its end here.
\<close>

definition forwarded :: "('w, 'f) ipc_env \<Rightarrow> string \<Rightarrow> bytes \<Rightarrow> (string \<times> string) option" where
  "forwarded E url value =
     (if url = [] then None
      else (case ie_unmarshal E value of None \<Rightarrow> None
        | Some payload \<Rightarrow>
            let sender = req_string payload ''sender''; content = req_string payload ''content'' in
            if sender \<noteq> [] \<and> sender \<noteq> ''agentic'' \<and> content \<noteq> [] then Some (sender, content) else None))"

definition on_append_block ::
  "('w, 'f) ipc_env \<Rightarrow> 'f agentic_env \<Rightarrow> write_fault \<times> write_fault \<Rightarrow> string \<Rightarrow> u64 \<Rightarrow> bytes \<Rightarrow>
     ('w, 's, 'r, 'f) gateway \<Rightarrow> ('w, 's, 'r, 'f) gateway" where
  "on_append_block E A ff url index value g =
     (let g1 = BroadcastChatMessage E defaultFeedKey index value g in
      case forwarded E url value of None \<Rightarrow> g1
      | Some (sender, content) \<Rightarrow>
          (case agentic_answer A url sender content of None \<Rightarrow> g1
           | Some text \<Rightarrow> agentic_append E A ff text g1))"

subsection \<open>The start never reaches the accept loop\<close>

text \<open>Every component initialises: the conditions under which \<open>main\<close> gets past its error checks.\<close>

definition components_ready :: "('o, 'w, 'b, 'p) boot_env \<Rightarrow> config \<Rightarrow> 'o \<Rightarrow> bool" where
  "components_ready E cfg o0 \<longleftrightarrow>
     \<not> isl (logger_Init (be_log E) (be_log_mkdir E) (be_log_dir E) cfg) \<and>
     \<not> isl (snd (NewSocketListener (be_os E) (SocketPath cfg) o0)) \<and>
     \<not> isl (NewDHTNode (be_bootstrap E) (be_random_id E) (be_udp_listen E) None) \<and>
     \<not> isl (InitDatabase (be_bolt E) (be_db_mkdir E) (be_bolt_open E) (be_pool E) (be_pool_parse E) (be_pool_create E) cfg) \<and>
     \<not> isl (NewStorage (be_storage E) (be_disk E)) \<and>
     \<not> isl (snd (LoadOrGenerateNodeKey (be_key E) (be_key_file E))) \<and>
     \<not> isl (be_p2p_bind E (P2PListenAddr cfg @ '':'' @ P2PPort cfg))"

text \<open>
  C36. The gateway never serves a client. The peer manager's address is that of a uTP listener, so the
  type assertion to a TCP address panics on every start on which all components initialise; every
  other start ends with \<open>os.Exit(1)\<close> at the first component that fails.
\<close>

theorem gateway_never_serves:
  "\<exists>o1 x. main_boot E cfg o0 w = Some (o1, x) \<and>
     (if components_ready E cfg o0 then x = Crashed (Panic ''interface conversion'') else (\<exists>e. x = Exited e))"
proof -
  obtain o1 lr where l: "NewSocketListener (be_os E) (SocketPath cfg) o0 = (o1, lr)" by force
  obtain f kr where k: "LoadOrGenerateNodeKey (be_key E) (be_key_file E) = (f, kr)" by force
  show ?thesis
    by (simp add: main_boot_def components_ready_def l k Let_def StartListener_def tcp_port_def pm_Addr_def split: sum.split)
qed

text \<open>With the default configuration on a working machine all components are ready.\<close>

definition working_machine :: "(unit, unit, mem_db, mem_table) boot_env" where
  "working_machine = \<lparr>be_log = quiet [] 0, be_log_mkdir = None, be_log_dir = [],
     be_os = \<lparr>os_Remove = (\<lambda>_ u. (u, None)), os_IsNotExist = (\<lambda>_. True), net_Listen = (\<lambda>_ _ u. (u, None)), net_Close = (\<lambda>_ _ u. (u, None))\<rparr>,
     be_bootstrap = [], be_random_id = zero_id, be_udp_listen = (\<lambda>_. Inr ''0.0.0.0:1''),
     be_bolt = mem_bolt, be_db_mkdir = (\<lambda>_. None), be_bolt_open = (\<lambda>_. Inr []),
     be_pool = mem_pg, be_pool_parse = (\<lambda>_. None), be_pool_create = (\<lambda>_. Inr []),
     be_storage = Hyper_Storage.no_faults, be_disk = \<lparr>d_data = [], d_index = []\<rparr>,
     be_key = \<lparr>k_read_err = None, k_generate = Inr (replicate 64 1), k_mkdir_err = None, k_open_err = None, k_write_fault = None\<rparr>,
     be_key_file = None, be_p2p_bind = (\<lambda>_. Inr (GoUDPAddr ''127.0.0.1'' 9)),
     be_net = ie_net no_ipc\<rparr>"

lemma default_start_is_ready: "components_ready working_machine (env_config Map.empty) ()"
proof -
  obtain db where db: "NewBoltDB mem_bolt None (Inr []) = Inr db" using new_mem_bolt by blast
  then show ?thesis
    by (simp add: components_ready_def working_machine_def quiet_def logger_Init_def NewLogRotator_def log_open_def
        NewSocketListener_def socket_address_def NewDHTNode_def InitDatabase_def NewStorage_def Hyper_Storage.no_faults_def
        LoadOrGenerateNodeKey_def env_config_def getEnv_def getEnvBool_def getEnvInt_def Let_def)
qed

subsection \<open>Replies\<close>

lemma agentic_append_ok:
  assumes "gw_store g = Some st" "storage_inv st" "storage_room st block" "ag_marshal A text = Inr block"
  shows "\<exists>st'. gw_store (agentic_append E A (None, None) text g) = Some st' \<and> storage_inv st' \<and>
    blocks_of st' = blocks_of st @ [block] \<and>
    agentic_append E A (None, None) text g = BroadcastChatMessage E defaultFeedKey (storage_len st) block
      (g\<lparr>gw_store := Some st', gw_blockRepo := map_option (\<lambda>(R, r). (R, fst (PutBlock R r defaultFeedKey (storage_len st) block None))) (gw_blockRepo g)\<rparr>)"
proof -
  obtain st' where st': "storage_append None None st block = (st', None)"
    using storage_append_reliable [OF assms(2), of block] by (metis prod.collapse)
  moreover have "storage_inv st'" "blocks_of st' = blocks_of st @ [block]"
    using hc_log.inv_append [OF assms(2,3)] hc_log.blocks_append [OF assms(2,3)] st' by simp_all
  ultimately show ?thesis using assms(1,4) by (simp add: agentic_append_def agentic_at_def)
qed

text \<open>
  One reply per forwarded message. When the service answers a forwarded chat block, its reply is the
  next block of the storage, stored without a signature, and the clients are told of the received block
  and then of the reply; on whatever gateway the reply arrives, it is broadcast and not forwarded
  again.
\<close>

lemma agentic_reply_ends_the_exchange:
  assumes "forwarded E url value = Some (sender, content)" "agentic_answer A url sender content = Some text"
    and "ag_marshal A text = Inr block" "ie_unmarshal E block = Some rep" "rep ''sender'' = Some (JString ''agentic'')"
    and "gw_store g = Some st" "storage_inv st" "storage_room st block"
  shows "\<exists>st' g'. on_append_block E A (None, None) url index value g = g' \<and> gw_store g' = Some st' \<and>
    storage_inv st' \<and> blocks_of st' = blocks_of st @ [block] \<and>
    gw_blockRepo g' = map_option (\<lambda>(R, r). (R, fst (PutBlock R r defaultFeedKey (storage_len st) block None))) (gw_blockRepo g) \<and>
    gw_sent g' = gw_sent (BroadcastChatMessage E defaultFeedKey (storage_len st) block
      (BroadcastChatMessage E defaultFeedKey index value g)) \<and>
    (\<forall>A2 ff url2 i h. on_append_block E A2 ff url2 i block h = BroadcastChatMessage E defaultFeedKey i block h)"
proof -
  let ?g1 = "BroadcastChatMessage E defaultFeedKey index value g"
  have final: "on_append_block E A2 ff url2 i block h = BroadcastChatMessage E defaultFeedKey i block h"
    for A2 ff url2 i h
    using assms(4,5) by (simp add: on_append_block_def forwarded_def req_string_def Let_def)
  have run: "on_append_block E A (None, None) url index value g = agentic_append E A (None, None) text ?g1"
    using assms(1,2) by (simp add: on_append_block_def)
  have "gw_store ?g1 = Some st" using assms(6) by simp
  from agentic_append_ok [OF this assms(7,8,3), of E] obtain st' where
    st': "gw_store (agentic_append E A (None, None) text ?g1) = Some st'" "storage_inv st'" "blocks_of st' = blocks_of st @ [block]"
    and eq: "agentic_append E A (None, None) text ?g1 = BroadcastChatMessage E defaultFeedKey (storage_len st) block
      (?g1\<lparr>gw_store := Some st', gw_blockRepo := map_option (\<lambda>(R, r). (R, fst (PutBlock R r defaultFeedKey (storage_len st) block None))) (gw_blockRepo ?g1)\<rparr>)"
    by blast
  have sent: "gw_sent (BroadcastChatMessage E f i v (h\<lparr>gw_store := a, gw_blockRepo := b\<rparr>)) = gw_sent (BroadcastChatMessage E f i v h)"
    for f i v a b and h :: "('a, 'c, 'd, 'b) gateway"
    by (simp add: BroadcastChatMessage_def Broadcast_def split: option.split)
  show ?thesis
    by (intro exI [where x = st'] exI [where x = "agentic_append E A (None, None) text ?g1"] conjI allI)
      (simp_all add: run st' final, simp_all add: eq sent)
qed

definition echo_service :: "nat agentic_env" where
  "echo_service = \<lparr>ag_post = (\<lambda>url sender content. Inr (200, Inr [''response'' \<mapsto> JString content])),
     ag_marshal = (\<lambda>text. Inr (bytes_of_string text))\<rparr>"

definition chat_ipc :: "(unit, nat) ipc_env" where
  "chat_ipc = no_ipc\<lparr>ie_unmarshal := (\<lambda>b. Some [''sender'' \<mapsto> JString (if b = [1] then ''ann'' else ''agentic''),
     ''timestamp'' \<mapsto> JNumber 0, ''content'' \<mapsto> JString ''hi''])\<rparr>"

end
