(* ===== verification/Hyper_Relay.thy ===== *)
theory Hyper_Relay
  imports Net_Peers Db_Bolt
begin

section \<open>A replica as a source (pkg/hypercore/sync.go with pkg/db)\<close>

text \<open>
  A session checks every block against the key of its peer, and a replica stores each block with the
  signature it came with. So what a replica hands on are the author's signatures, and its own peers check
  them against the replica's key.
\<close>

lemma accepted_block:
  assumes "handle_data E None None s b = (s1, None)" "ss_appended s1 = ss_appended s @ [(i, v)]"
    and "DecodeData b = Inr m" "storage_inv (ss_storage s)" "ss_repo s = Some (R, r)"
  shows "i = storage_len (ss_storage s)"
    and "ss_repo s1 = Some (R, fst (PutBlock R r (ss_feedKey s) i v (Some (data_signature m))))"
    and "\<exists>root. ComputeRootHash (blake2b E) (blocks_of (ss_storage s) @ [v]) = Inr root \<and>
      VerifySignature E (ss_remotePub s) root (data_signature m)"
proof -
  obtain m' v' where c: "data_check E s b = Inr (m', v')"
    using assms(1,2) by (cases "data_check E s b") (auto simp: handle_data_split)
  then have m: "m' = m" using assms(3) by (auto simp: data_check_def Let_def split: sum.splits if_splits)
  obtain st where "storage_append None None (ss_storage s) v' = (st, None)"
    using storage_append_reliable [OF assms(4), of v'] by (metis prod.collapse)
  with assms(1,2,5) c m have s1: "i = data_index m" "v = v'"
    "ss_repo s1 = Some (R, fst (PutBlock R r (ss_feedKey s) i v (Some (data_signature m))))"
    by (auto simp: handle_data_split data_commit_def Let_def)
  note ver = data_check_verified [OF c assms(4)]
  show "i = storage_len (ss_storage s)" using ver(1) s1(1) m by simp
  show "ss_repo s1 = Some (R, fst (PutBlock R r (ss_feedKey s) i v (Some (data_signature m))))" by (rule s1(3))
  show "\<exists>root. ComputeRootHash (blake2b E) (blocks_of (ss_storage s) @ [v]) = Inr root \<and>
      VerifySignature E (ss_remotePub s) root (data_signature m)" using ver(2) m s1(2) by simp
qed

text \<open>
  C8. A replica cannot be replicated. When a node has accepted a block from its author and put it into a
  repository that keeps what it is given, then the block that it sends to a peer of its own carries the
  author's signature, and if that does not verify under the replica's key, it ends the session of every
  peer that needs the block; the peer's log does not grow.
\<close>

theorem replica_cannot_be_replicated:
  assumes "block_repository R ok storable" "ok r" "storable (ss_feedKey s) v (Some (data_signature m))"
    and "handle_data E None None s b = (s1, None)" "ss_appended s1 = ss_appended s @ [(i, v)]" "DecodeData b = Inr m"
    and "storage_inv (ss_storage s)" "ss_repo s = Some (R, r)"
    and "ss_repo s2 = ss_repo s1" "ss_feedKey s2 = ss_feedKey s" "ss_writes_left s2 = None"
    and "zlib_ok E" "ss_deflate c = ss_deflate s2" "fits (value_to_send E s2 v)" "fits (data_signature m)"
    and "storage_inv (ss_storage c)" "blocks_of (ss_storage c) = blocks_of (ss_storage s)"
    and "ComputeRootHash (blake2b E) (blocks_of (ss_storage s) @ [v]) = Inr root"
    and "\<not> VerifySignature E (ss_remotePub c) root (data_signature m)"
  shows "VerifySignature E (ss_remotePub s) root (data_signature m) \<and>
    (\<exists>p. sendBlockData E s2 i = (s2\<lparr>ss_out := ss_out s2 @ frame p\<rparr>, None) \<and>
       handle_frame E fd fi c p = (c, Some (ErrNew ''cryptographic verification failed for block'')))"
proof -
  note acc = accepted_block [OF assms(4-8)]
  have "storage_len (ss_storage c) = i"
    using acc(1) storage_len_of_nat [OF assms(16)] storage_len_of_nat [OF assms(7)] assms(17) by simp
  moreover have "GetBlock R (fst (PutBlock R r (ss_feedKey s) i v (Some (data_signature m)))) (ss_feedKey s2) i =
      Inr (v, data_signature m)"
    using block_repository.get_put_same [OF assms(1-3)] assms(10) by simp
  ultimately show ?thesis
    using unverifiable_repo_block_ends_session [where sv = s2 and cl = c and fd = fd and fi = fi] acc(2,3) assms(9,11-19)
    by auto
qed

text \<open>An author with key \<open>[1]\<close>, a replica with key \<open>[2]\<close>: signatures verify under the author's key only.\<close>

definition author_env :: sync_env where
  "author_env = (toy_env only_signed)\<lparr>ed_verify := (\<lambda>pub m sig. pub = [1] \<and> sig = take 64 m)\<rparr>"

definition author_block :: hc_data where
  "author_block = \<lparr>data_index = 0, data_value = [1], data_signature = take 64 toy_root\<rparr>"

lemma author_block_decodes: "DecodeData toy_block = Inr author_block"
proof -
  obtain root where "ComputeRootHash toy_hash [[1]] = Inr root" using root_exists by blast
  then show ?thesis
    by (simp add: DecodeData_def toy_block_def author_block_def fits_def MaxMessageSize_def)
qed

lemma author_block_accepted:
  assumes "ss_storage s = empty_storage" "\<not> ss_deflate s" "ss_remotePub s = [1]"
  shows "\<exists>s1. handle_data author_env None None s toy_block = (s1, None) \<and> ss_appended s1 = ss_appended s @ [(0, [1])] \<and>
    ss_writes_left s1 = ss_writes_left s \<and> ss_deflate s1 = ss_deflate s \<and> ss_feedKey s1 = ss_feedKey s"
proof -
  obtain root where r: "ComputeRootHash toy_hash [[1]] = Inr root" using root_exists by blast
  then have root: "toy_root = root" by (simp add: toy_root_def root_or_zero_def toy_env_def)
  have "storage_len empty_storage = 0" by (simp add: storage_len_def empty_storage_def)
  then have "data_check author_env s toy_block = Inr (author_block, [1])"
    using assms r root author_block_decodes
    by (simp add: data_check_def received_value_def toy_env_def author_env_def VerifySignature_def author_block_def)
  moreover obtain st where "storage_append None None empty_storage [1] = (st, None)"
    using storage_append_reliable [OF empty_storage_inv, of "[1]"] by (metis prod.collapse)
  ultimately show ?thesis
    using assms(1) by (simp add: handle_data_split data_commit_def author_block_def)
qed

theorem replica_cannot_be_replicated_witness:
  "\<exists>db s1 p. handle_data author_env None None (NewSyncSession empty_storage (Some (bolt_block_repo mem_bolt, db)) ''feed'' [] [1]) toy_block = (s1, None) \<and>
    ss_appended s1 = [(0, [1])] \<and> sendBlockData author_env s1 0 = (s1\<lparr>ss_out := ss_out s1 @ frame p\<rparr>, None) \<and>
    handle_frame author_env None None (NewSyncSession empty_storage None ''feed'' [] [2] :: unit session) p =
      (NewSyncSession empty_storage None ''feed'' [] [2], Some (ErrNew ''cryptographic verification failed for block''))"
proof -
  obtain db where db: "bolt_ready mem_bolt (\<lambda>_. True) db" using new_mem_bolt by blast
  let ?s = "NewSyncSession empty_storage (Some (bolt_block_repo mem_bolt, db)) ''feed'' [] [1]"
  let ?c = "NewSyncSession empty_storage None ''feed'' [] [2] :: unit session"
  have s: "ss_storage ?s = empty_storage" "\<not> ss_deflate ?s" "ss_remotePub ?s = [1]" "ss_feedKey ?s = ''feed''"
    "ss_appended ?s = []" "ss_writes_left ?s = None" "ss_repo ?s = Some (bolt_block_repo mem_bolt, db)"
    by (simp_all add: NewSyncSession_def)
  obtain s1 where s1: "handle_data author_env None None ?s toy_block = (s1, None)" "ss_appended s1 = ss_appended ?s @ [(0, [1])]"
    "ss_writes_left s1 = None" "\<not> ss_deflate s1" "ss_feedKey s1 = ss_feedKey ?s"
    using author_block_accepted [OF s(1-3)] s(2,4,6) by auto
  have sig: "length (data_signature author_block) \<le> 64" by (simp add: author_block_def)
  have st: "bolt_storable (ss_feedKey ?s) [1] (Some (data_signature author_block))"
    using sig by (simp add: s(4) bolt_storable_def valid_key_def valid_value_def encodeBlock_def sig_bytes_def)
  obtain root where r: "ComputeRootHash (blake2b author_env) (blocks_of (ss_storage ?s) @ [[1]]) = Inr root" using root_exists by blast
  have z: "zlib_ok author_env" by (simp add: zlib_ok_def author_env_def toy_env_def)
  have c: "ss_deflate ?c = ss_deflate s1" "storage_inv (ss_storage ?c)" "blocks_of (ss_storage ?c) = blocks_of (ss_storage ?s)"
    "\<not> VerifySignature author_env (ss_remotePub ?c) root (data_signature author_block)"
    using s1(4) empty_storage_inv by (simp_all add: NewSyncSession_def VerifySignature_def author_env_def)
  have f: "fits (value_to_send author_env s1 [1])" "fits (data_signature author_block)"
    using s1(4) sig by (simp_all add: value_to_send_def fits_def MaxMessageSize_def)
  have si: "storage_inv (ss_storage ?s)" by (simp add: s(1) empty_storage_inv)
  from replica_cannot_be_replicated [where fd = None and fi = None, OF mem_store.bolt_blocks.block_repository_axioms db st
      s1(1,2) author_block_decodes si s(7) refl s1(5) s1(3) z c(1) f c(2,3) r c(4)] s1(1,2) s(5)
  show ?thesis by auto
qed

end
