(* ===== verification/Gateway_Cache.thy ===== *)
theory Gateway_Cache
  imports Gateway_Main
begin

section \<open>The block database as a cache of the log\<close>

text \<open>
  The program writes every block it appends to the database as well, under the index that the append
  reported, and reads the database when the storage has no block at an index. It ignores what
  \<open>PutBlock\<close> returns. What it needs of a database for this is weaker than the repository contract: a
  put may fail, but what can be read afterwards was there before or is the block just put.
\<close>

locale block_cache =
  fixes repo :: "'r block_repo" and ok :: "'r \<Rightarrow> bool"
  assumes put_keeps: "ok r \<Longrightarrow> ok (fst (PutBlock repo r f i v sg))"
    and get_after_put: "ok r \<Longrightarrow> GetBlock repo (fst (PutBlock repo r f i v sg)) f' i' = Inr (w, s) \<Longrightarrow>
      (f', i') = (f, i) \<and> w = v \<or> (\<exists>s0. GetBlock repo r f' i' = Inr (w, s0))"

subsection \<open>bbolt\<close>

text \<open>As documented, bbolt refuses a blank or too long name or key and a too long value.\<close>

locale strict_bolt = bolt_store B good for B :: "'db bolt_api" and good :: "'db \<Rightarrow> bool" +
  assumes create_refuses: "\<not> valid_key (last p) \<Longrightarrow> \<exists>e. create_bucket B db p = Inl e"
    and put_refuses: "\<not> valid_value v \<Longrightarrow> \<exists>e. bucket_put B db p k v = Inl e"

lemma valid_value_lengths:
  assumes "valid_value (encodeBlock v sg)"
  shows "length v < 2 ^ 32" "length sg < 2 ^ 32"
proof -
  have "8 + length v + length sg \<le> 2 ^ 31 - 2" using assms by (simp add: valid_value_def encodeBlock_def)
  then show "length v < 2 ^ 32" "length sg < 2 ^ 32" by simp_all
qed

text \<open>A put either changes nothing or is one the repository contract speaks of, or its feed has a bucket.\<close>

context strict_bolt
begin

lemma put_cases:
  assumes "bolt_ready B good db"
  obtains "fst (bolt_PutBlock B db feed i v sg) = db"
  | "valid_value (encodeBlock v (sig_bytes sg))" "valid_key (bytes_of_string feed)"
  | "valid_value (encodeBlock v (sig_bytes sg))" "has_bucket B db [blocksBucket, bytes_of_string feed]"
proof (cases "valid_value (encodeBlock v (sig_bytes sg))")
  case False
  then have "\<exists>e. bucket_put B d p k (encodeBlock v (sig_bytes sg)) = Inl e" for d p k by (rule put_refuses)
  then have "fst (bolt_PutBlock B db feed i v sg) = db"
    by (auto simp: bolt_PutBlock_def bolt_update_def split: sum.split)
      (metis Inl_not_Inr)+
  then show ?thesis by (rule that(1))
next
  case True
  show ?thesis
  proof (cases "has_bucket B db [blocksBucket, bytes_of_string feed] \<or> valid_key (bytes_of_string feed)")
    case True
    with \<open>valid_value _\<close> that(2,3) show ?thesis by blast
  next
    case False
    then obtain e where "create_bucket B db [blocksBucket, bytes_of_string feed] = Inl e"
      using create_refuses [of "[blocksBucket, bytes_of_string feed]" db] by auto
    with False have "fst (bolt_PutBlock B db feed i v sg) = db"
      by (auto simp: bolt_PutBlock_def bolt_update_def create_if_missing_def)
    then show ?thesis by (rule that(1))
  qed
qed

lemma record_back: "valid_value (encodeBlock v sg) \<Longrightarrow> decodeBlock (encodeBlock v sg) = Inr (v, sg)"
  using decode_encodeBlock [of v sg "[]"] valid_value_lengths [of v sg] by simp

lemma put_existing_bucket:
  assumes "bolt_ready B good db" "valid_value (encodeBlock v (sig_bytes sg))" "has_bucket B db [blocksBucket, bytes_of_string feed]"
  shows "bolt_ready B good (fst (bolt_PutBlock B db feed i v sg))"
    and "bolt_GetBlock B (fst (bolt_PutBlock B db feed i v sg)) f' i' =
      (if (f', i') = (feed, i) then Inr (v, sig_bytes sg) else bolt_GetBlock B db f' i')"
proof -
  let ?p = "[blocksBucket, bytes_of_string feed]"
  have k: "valid_key (put_u64 i)" by (simp add: valid_key_def flip: length_0_conv)
  obtain db2 where db2: "bucket_put B db ?p (put_u64 i) (encodeBlock v (sig_bytes sg)) = Inr db2" "good db2"
    "\<forall>q. has_bucket B db2 q = has_bucket B db q"
    "\<forall>q k'. bucket_get B db2 q k' =
      (if q = ?p \<and> k' = put_u64 i then Some (encodeBlock v (sig_bytes sg)) else bucket_get B db q k')"
    using put_ok [OF _ assms(3) k assms(2)] assms(1) by (auto simp: bolt_ready_def)
  have put: "bolt_PutBlock B db feed i v sg = (db2, None)"
    using assms(1,3) db2(1) commit_ok [OF db2(2)]
    by (simp add: bolt_PutBlock_def bolt_update_def create_if_missing_def bolt_ready_def)
  show "bolt_ready B good (fst (bolt_PutBlock B db feed i v sg))"
    using assms(1) db2 by (auto simp: put bolt_ready_def)
  have "bytes_of_string f' = bytes_of_string feed \<and> put_u64 i' = put_u64 i \<longleftrightarrow> (f', i') = (feed, i)"
    by (auto dest: map_injective simp: inj_def dest!: arg_cong [where f = string_of_bytes])
  then show "bolt_GetBlock B (fst (bolt_PutBlock B db feed i v sg)) f' i' =
      (if (f', i') = (feed, i) then Inr (v, sig_bytes sg) else bolt_GetBlock B db f' i')"
    using assms(3) db2(3,4) record_back [OF assms(2)] assms(1)
    by (auto simp: put bolt_GetBlock_def bolt_ready_def)
qed

lemma put_law:
  assumes "bolt_ready B good db"
  shows "bolt_ready B good (fst (bolt_PutBlock B db feed i v sg)) \<and>
    (bolt_GetBlock B (fst (bolt_PutBlock B db feed i v sg)) f' i' = Inr (w, s) \<longrightarrow>
      (f', i') = (feed, i) \<and> w = v \<or> bolt_GetBlock B db f' i' = Inr (w, s))"
proof (rule put_cases [OF assms, of feed i v sg])
  assume "valid_value (encodeBlock v (sig_bytes sg))" "valid_key (bytes_of_string feed)"
  then have st: "bolt_storable feed v sg" using valid_value_lengths by (auto simp: bolt_storable_def)
  obtain db' where db': "bolt_PutBlock B db feed i v sg = (db', None)" "bolt_ready B good db'"
    "has_bucket B db' [blocksBucket, bytes_of_string feed]"
    "bucket_get B db' [blocksBucket, bytes_of_string feed] (put_u64 i) = Some (encodeBlock v (sig_bytes sg))"
    using put_block_effect [OF assms st, of i] by auto
  then have "bolt_GetBlock B db' feed i = Inr (v, sig_bytes sg)"
    using encodeBlock_inverse [OF st] by (simp add: bolt_GetBlock_def bolt_ready_def)
  moreover have "(f', i') \<noteq> (feed, i) \<Longrightarrow> bolt_GetBlock B db' f' i' = Inr (w, s) \<longleftrightarrow> bolt_GetBlock B db f' i' = Inr (w, s)"
    using bolt_blocks.get_put_other [OF assms st, of f' i' i "(w, s)"] db'(1) by (simp add: bolt_block_repo_def)
  ultimately show ?thesis using db' by (cases "(f', i') = (feed, i)") auto
qed (use assms put_existing_bucket [OF assms] in auto)

end

sublocale strict_bolt \<subseteq> bolt_cache: block_cache "bolt_block_repo B" "bolt_ready B good"
proof unfold_locales
  fix r f i v sg
  assume "bolt_ready B good r"
  then show "bolt_ready B good (fst (PutBlock (bolt_block_repo B) r f i v sg))"
    using put_law by (simp add: bolt_block_repo_def)
next
  fix r f i v sg f' i' w s
  assume "bolt_ready B good r"
    "GetBlock (bolt_block_repo B) (fst (PutBlock (bolt_block_repo B) r f i v sg)) f' i' = Inr (w, s)"
  then show "(f', i') = (f, i) \<and> w = v \<or> (\<exists>s0. GetBlock (bolt_block_repo B) r f' i' = Inr (w, s0))"
    using put_law [of r f i v sg f' i' w s] by (auto simp: bolt_block_repo_def)
qed

interpretation mem_strict: strict_bolt mem_bolt "\<lambda>_. True"
  by unfold_locales (auto simp: mem_bolt_def valid_key_def split: option.splits)

subsection \<open>Postgres\<close>

text \<open>A statement takes effect as a whole or not at all, whatever its arguments.\<close>

locale atomic_pg = pg_store P good row
  for P :: "'db pg_pool" and good :: "'db \<Rightarrow> bool" and row :: "'db \<Rightarrow> string \<times> u64 \<Rightarrow> (bytes \<times> bytes) option" +
  assumes upsert_atomic: "good db \<Longrightarrow> pool_Exec P db put_block_query [SqlText f, SqlInt i, SqlBytes (Some v), SqlBytes s] = (db', r) \<Longrightarrow>
      good db' \<and> (row db' = row db \<or> (\<exists>b. s = Some b \<and> row db' = (row db)((f, i) \<mapsto> (v, b))))"

sublocale atomic_pg \<subseteq> pg_cache: block_cache "pg_block_repo P" good
proof unfold_locales
  have upsert: "good (fst (pg_PutBlock P r f i v sg)) \<and> (row (fst (pg_PutBlock P r f i v sg)) = row r \<or>
      (\<exists>b. row (fst (pg_PutBlock P r f i v sg)) = (row r)((f, i) \<mapsto> (v, b))))" if "good r" for r f i v sg
  proof -
    obtain db' e where ex: "pool_Exec P r put_block_query [SqlText f, SqlInt i, SqlBytes (Some v), SqlBytes sg] = (db', e)"
      by force
    have "fst (pg_PutBlock P r f i v sg) = db'"
      using ex by (cases e) (simp_all add: pg_PutBlock_def exec_wrapped_def)
    with upsert_atomic [OF that ex] show ?thesis by auto
  qed
  fix r f i v sg
  assume good: "good r"
  with upsert show "good (fst (PutBlock (pg_block_repo P) r f i v sg))" by (simp add: pg_block_repo_def)
  fix f' i' w s
  assume "GetBlock (pg_block_repo P) (fst (PutBlock (pg_block_repo P) r f i v sg)) f' i' = Inr (w, s)"
  then have "row (fst (pg_PutBlock P r f i v sg)) (f', i') = Some (w, s)"
    using upsert [OF good] by (simp add: pg_block_repo_def get_block)
  then have "(f', i') = (f, i) \<and> w = v \<or> row r (f', i') = Some (w, s)"
    using upsert [OF good, of f i v sg] by (auto split: if_splits)
  then show "(f', i') = (f, i) \<and> w = v \<or> (\<exists>s0. GetBlock (pg_block_repo P) r f' i' = Inr (w, s0))"
    using good by (auto simp: pg_block_repo_def get_block)
qed

interpretation mem_atomic: atomic_pg mem_pg "\<lambda>_. True" map_of
  by unfold_locales (auto simp: mem_pg_def mem_exec_def update_conv' split: option.splits if_splits)

subsection \<open>The database that InitDatabase opened\<close>

definition database_ready :: "'b bolt_api \<Rightarrow> ('b \<Rightarrow> bool) \<Rightarrow> ('p \<Rightarrow> bool) \<Rightarrow> ('b, 'p) database \<Rightarrow> bool" where
  "database_ready B bgood pgood d =
     (case d of BoltDatabase b \<Rightarrow> bolt_ready B bgood b | PostgresDatabase p \<Rightarrow> pgood p)"

locale cached_database = strict_bolt B bgood + atomic_pg P pgood row
  for B :: "'b bolt_api" and bgood :: "'b \<Rightarrow> bool"
    and P :: "'p pg_pool" and pgood :: "'p \<Rightarrow> bool" and row :: "'p \<Rightarrow> string \<times> u64 \<Rightarrow> (bytes \<times> bytes) option"

sublocale cached_database \<subseteq> db_cache: block_cache "database_block_repo B P" "database_ready B bgood pgood"
proof unfold_locales
  fix r :: "('b, 'p) database" and f i v sg
  assume ok: "database_ready B bgood pgood r"
  show "database_ready B bgood pgood (fst (PutBlock (database_block_repo B P) r f i v sg))"
    using ok bolt_cache.put_keeps pg_cache.put_keeps
    by (cases r) (simp_all add: database_ready_def database_block_repo_def split: prod.split; metis fst_conv)+
  fix f' i' w s
  assume "GetBlock (database_block_repo B P) (fst (PutBlock (database_block_repo B P) r f i v sg)) f' i' = Inr (w, s)"
  then show "(f', i') = (f, i) \<and> w = v \<or> (\<exists>s0. GetBlock (database_block_repo B P) r f' i' = Inr (w, s0))"
    using ok bolt_cache.get_after_put [of _ f i v sg f' i' w s] pg_cache.get_after_put [of _ f i v sg f' i' w s]
    by (cases r) (simp_all add: database_ready_def database_block_repo_def split: prod.splits; metis fst_conv)+
qed

interpretation mem_database: cached_database mem_bolt "\<lambda>_. True" mem_pg "\<lambda>_. True" map_of
  by unfold_locales

end
