(* ===== verification/Gateway_System.thy ===== *)
theory Gateway_System
  imports Gateway_Cache
begin

section \<open>The running gateway: clients, peers, DHT and HTTP service on one log\<close>

text \<open>
  From the accept loop on, \<open>main\<close> has a goroutine per client, per peer connection and per forwarded
  chat block, and the node's read loop, all on one storage and one database. The state is the gateway
  of the IPC handlers, the peer manager, the running clients with their \<open>authenticated\<close> variable and
  the forwarding goroutines that wait for the HTTP service. Goroutines take turns: an event is one
  pass of one of them, without another in between.
\<close>

record ('w, 's, 'r, 'f) system =
  sy_gateway :: "('w, 's, 'r, 'f) gateway"
  sy_peers :: "'r peer_manager"
  sy_clients :: "nat \<Rightarrow> bool option"
  sy_forwarding :: "(string \<times> string) list"

record ('w, 'f) system_env =
  se_ipc :: "('w, 'f) ipc_env"
  se_agentic :: "'f agentic_env"
  se_sync :: sync_env
  se_url :: string
  se_whitelist :: "string list"

text \<open>The storage and the database are one object each: who changed them last is read by the other.\<close>

definition from_gateway :: "('w, 's, 'r, 'f) gateway \<Rightarrow> 'r peer_manager \<Rightarrow> 'r peer_manager" where
  "from_gateway g pm =
     (case gw_store g of None \<Rightarrow> pm | Some st \<Rightarrow> pm\<lparr>pm_storage := st, pm_blockRepo := gw_blockRepo g\<rparr>)"

definition from_peers :: "'r peer_manager \<Rightarrow> ('w, 's, 'r, 'f) gateway \<Rightarrow> ('w, 's, 'r, 'f) gateway" where
  "from_peers pm g = g\<lparr>gw_store := Some (pm_storage pm), gw_blockRepo := pm_blockRepo pm\<rparr>"

text \<open>\<open>main\<close> at the accept loop.\<close>

definition serving :: "('w, 'b, 'p, 'f) running \<Rightarrow> ('w, ('b, 'p) database, ('b, 'p) database, 'f) system" where
  "serving r = \<lparr>sy_gateway = run_gateway r, sy_peers = run_peers r, sy_clients = (\<lambda>_. None), sy_forwarding = []\<rparr>"

subsection \<open>Events\<close>

text \<open>The callback of a replicated block up to the \<open>go\<close> statement, and what the goroutine then does.\<close>

definition on_append_start ::
  "('w, 'f) system_env \<Rightarrow> u64 \<times> bytes \<Rightarrow> ('w, 's, 'r, 'f) system \<Rightarrow> ('w, 's, 'r, 'f) system" where
  "on_append_start V = (\<lambda>(index, value) s.
     s\<lparr>sy_gateway := BroadcastChatMessage (se_ipc V) defaultFeedKey index value (sy_gateway s),
       sy_forwarding := sy_forwarding s @ (case forwarded (se_ipc V) (se_url V) value of None \<Rightarrow> [] | Some m \<Rightarrow> [m])\<rparr>)"

definition service_reply ::
  "('w, 'f) system_env \<Rightarrow> string \<times> string \<Rightarrow> ('w, 's, 'r, 'f) gateway \<Rightarrow> ('w, 's, 'r, 'f) gateway" where
  "service_reply V = (\<lambda>(sender, content) g.
     case agentic_answer (se_agentic V) (se_url V) sender content of None \<Rightarrow> g
     | Some text \<Rightarrow> agentic_append (se_ipc V) (se_agentic V) (None, None) text g)"

lemma on_append_block_split:
  "on_append_block E A (None, None) url index value g =
     (let V = \<lparr>se_ipc = E, se_agentic = A, se_sync = S, se_url = url, se_whitelist = wl\<rparr>;
          s = on_append_start V (index, value) \<lparr>sy_gateway = g, sy_peers = pm, sy_clients = cl, sy_forwarding = []\<rparr>
      in fold (service_reply V) (sy_forwarding s) (sy_gateway s))"
  by (simp add: on_append_block_def on_append_start_def service_reply_def Let_def split: option.split prod.split)

text \<open>The blocks that a frame of connection \<open>i\<close> makes its session append and report.\<close>

definition frame_reports :: "sync_env \<Rightarrow> nat \<Rightarrow> bytes \<Rightarrow> 'r peer_manager \<Rightarrow> (u64 \<times> bytes) list" where
  "frame_reports S i b pm =
     (if i < length (pm_handlers pm)
      then drop (length (ss_appended (ph_session (pm_handlers pm ! i))))
             (ss_appended (ph_session (pm_handlers (peer_frame S i b pm) ! i)))
      else [])"

datatype 'f system_event =
    ClientConnects nat
  | ClientEvent nat "'f ipc_event"
  | PeerConnects bytes
  | PeerFrame nat bytes
  | PeerEnds nat
  | ServiceAnswers nat
  | DhtDatagram bytes net_addr

text \<open>\<open>None\<close> stands for a DHT lookup of a client's command that does not return.\<close>

definition system_step ::
  "('w, 'f) system_env \<Rightarrow> 'f system_event \<Rightarrow> ('w, 's, 'r, 'f) system \<Rightarrow> ('w, 's, 'r, 'f) system option" where
  "system_step V ev s =
     (case ev of
        ClientConnects c \<Rightarrow>
          Some (if sy_clients s c = None
            then s\<lparr>sy_gateway := Register c (sy_gateway s), sy_clients := (sy_clients s)(c \<mapsto> se_whitelist V = [])\<rparr>
            else s)
      | ClientEvent c e \<Rightarrow>
          (case sy_clients s c of None \<Rightarrow> Some s
           | Some authenticated \<Rightarrow>
               map_option (\<lambda>(status, g). s\<lparr>sy_gateway := g, sy_peers := from_gateway g (sy_peers s),
                   sy_clients := (sy_clients s)(c := status)\<rparr>)
                 (client_step (se_ipc V) c (se_whitelist V) e authenticated (sy_gateway s)))
      | PeerConnects remotePub \<Rightarrow> Some (s\<lparr>sy_peers := fst (peer_connected remotePub (sy_peers s))\<rparr>)
      | PeerFrame i b \<Rightarrow>
          let pm = peer_frame (se_sync V) i b (sy_peers s) in
          Some (fold (on_append_start V) (frame_reports (se_sync V) i b (sy_peers s))
            (s\<lparr>sy_peers := pm, sy_gateway := from_peers pm (sy_gateway s)\<rparr>))
      | PeerEnds i \<Rightarrow>
          Some (if i < length (pm_handlers (sy_peers s)) \<and> ph_running (pm_handlers (sy_peers s) ! i)
            then s\<lparr>sy_peers := peer_ended i (sy_peers s)\<rparr> else s)
      | ServiceAnswers k \<Rightarrow>
          Some (if k < length (sy_forwarding s)
            then let g = service_reply V (sy_forwarding s ! k) (sy_gateway s)
              in s\<lparr>sy_gateway := g, sy_peers := from_gateway g (sy_peers s),
                   sy_forwarding := take k (sy_forwarding s) @ drop (Suc k) (sy_forwarding s)\<rparr>
            else s)
      | DhtDatagram data src \<Rightarrow>
          Some (s\<lparr>sy_gateway := (sy_gateway s)\<lparr>gw_node := map_option (serve_datagram (data, src)) (gw_node (sy_gateway s))\<rparr>\<rparr>))"

text \<open>The disk accepts what is written: the writes of a client's append do not fail.\<close>

definition fault_free :: "'f system_event \<Rightarrow> bool" where
  "fault_free ev \<longleftrightarrow> (case ev of ClientEvent _ (Decoded _ ff _) \<Rightarrow> ff = (None, None) | _ \<Rightarrow> True)"

inductive system_run ::
  "('w, 'f) system_env \<Rightarrow> ('w, 's, 'r, 'f) system \<Rightarrow> 'f system_event list \<Rightarrow> ('w, 's, 'r, 'f) system \<Rightarrow> bool"
  for V and s0 where
  start: "system_run V s0 [] s0"
| event: "system_run V s0 evs s \<Longrightarrow> fault_free ev \<Longrightarrow> system_step V ev s = Some s' \<Longrightarrow> system_run V s0 (evs @ [ev]) s'"

subsection \<open>The invariant\<close>

text \<open>Every block that the database returns is the log's block at that index.\<close>

definition cache_agrees :: "'r block_repo \<Rightarrow> ('r \<Rightarrow> bool) \<Rightarrow> storage \<Rightarrow> ('r block_repo \<times> 'r) option \<Rightarrow> bool" where
  "cache_agrees R ok st db \<longleftrightarrow>
     (case db of None \<Rightarrow> True
      | Some (R', r) \<Rightarrow> R' = R \<and> ok r \<and>
          (\<forall>f i v sg. GetBlock R r f i = Inr (v, sg) \<longrightarrow> unat i < length (blocks_of st) \<and> blocks_of st ! unat i = v))"

text \<open>A chat notification tells of the block that the log has at its index.\<close>

definition chat_note :: "string \<Rightarrow> u64 \<Rightarrow> 'f object \<Rightarrow> 'f message" where
  "chat_note feedKey index payload =
     [(''command'', RString ''chat_message_received''), (''feed_key'', RString feedKey),
      (''index'', RUint index), (''sender'', RJson (payload ''sender'')),
      (''timestamp'', RJson (payload ''timestamp'')), (''content'', RJson (payload ''content''))]"

definition truthful :: "('w, 'f) ipc_env \<Rightarrow> bytes list \<Rightarrow> 'f message \<Rightarrow> bool" where
  "truthful E log msg \<longleftrightarrow>
     (\<forall>f i p. msg = chat_note f i p \<longrightarrow>
        unat i < length log \<and> (\<exists>q. ie_unmarshal E (log ! unat i) = Some q \<and> chat_note f i p = chat_note f i q))"

definition log_inv ::
  "'r block_repo \<Rightarrow> ('r \<Rightarrow> bool) \<Rightarrow> ('w, 'f) ipc_env \<Rightarrow> storage \<Rightarrow> ('w, 's, 'r, 'f) gateway \<Rightarrow> bool" where
  "log_inv R ok E st g \<longleftrightarrow> gw_store g = Some st \<and> storage_inv st \<and> cache_agrees R ok st (gw_blockRepo g) \<and>
     (\<forall>(c, msg) \<in> set (gw_sent g). truthful E (blocks_of st) msg)"

definition cached_put :: "string \<Rightarrow> u64 \<Rightarrow> bytes \<Rightarrow> bytes option \<Rightarrow> ('r block_repo \<times> 'r) option \<Rightarrow> ('r block_repo \<times> 'r) option" where
  "cached_put f i v sg = map_option (\<lambda>(R, r). (R, fst (PutBlock R r f i v sg)))"

lemma truthful_more: "truthful E log msg \<Longrightarrow> truthful E (log @ new) msg"
  unfolding truthful_def by (metis length_append nth_append trans_less_add1)

lemma truthful_reply: "fst (hd msg) = ''status'' \<Longrightarrow> truthful E log msg"
  by (auto simp: truthful_def chat_note_def)

lemma Broadcast_sent:
  "gw_sent (BroadcastChatMessage E f i v g) = gw_sent g @
     (case ie_unmarshal E v of None \<Rightarrow> []
      | Some p \<Rightarrow> if p ''sender'' \<noteq> None \<and> p ''timestamp'' \<noteq> None \<and> p ''content'' \<noteq> None
          then map (\<lambda>c. (c, chat_note f i p)) (gw_clients g) else [])"
  by (simp add: BroadcastChatMessage_def Broadcast_def chat_note_def split: option.split)

lemma append_effect:
  assumes "storage_inv st" "within_limits (fst (storage_append None None st b))"
  shows "storage_append None None st b = (fst (storage_append None None st b), None)"
    and "storage_inv (fst (storage_append None None st b))"
    and "blocks_of (fst (storage_append None None st b)) = blocks_of st @ [b]"
    and "unat (storage_len st) = length (blocks_of st)"
proof -
  show a: "storage_append None None st b = (fst (storage_append None None st b), None)"
    using storage_append_reliable [OF assms(1), of b] by (metis prod.collapse)
  show "storage_inv (fst (storage_append None None st b))" "blocks_of (fst (storage_append None None st b)) = blocks_of st @ [b]"
    using storage_append_room [OF assms(1) a] assms(2) by (simp_all add: within_limits_def)
  show "unat (storage_len st) = length (blocks_of st)" by (rule hc_log.len_blocks [OF assms(1)])
qed

context block_cache
begin

text \<open>A put of the block just appended, under its index, keeps the database a cache of the log.\<close>

lemma cache_put:
  assumes "cache_agrees repo ok st db" "blocks_of st' = blocks_of st @ [b]" "unat i = length (blocks_of st)"
  shows "cache_agrees repo ok st' (cached_put f i b sg db)"
proof (cases db)
  case None
  then show ?thesis by (simp add: cache_agrees_def cached_put_def)
next
  case (Some x)
  then obtain r where db: "db = Some (repo, r)" "ok r"
    and r: "\<And>f i v sg. GetBlock repo r f i = Inr (v, sg) \<Longrightarrow> unat i < length (blocks_of st) \<and> blocks_of st ! unat i = v"
    using assms(1) by (cases x) (auto simp: cache_agrees_def)
  have "unat j < length (blocks_of st') \<and> blocks_of st' ! unat j = w"
    if "GetBlock repo (fst (PutBlock repo r f i b sg)) f' j = Inr (w, s)" for f' j w s
    using get_after_put [OF db(2) that] r assms(2,3) by (auto simp: nth_append)
  with db(1) put_keeps [OF db(2)] show ?thesis unfolding cache_agrees_def cached_put_def by simp blast
qed

text \<open>What every append of the program does: the storage, the database, the notification.\<close>

lemma append_and_tell:
  assumes "log_inv repo ok E st g" "within_limits (fst (storage_append None None st b))"
    and "gw_store g' = Some (fst (storage_append None None st b))"
    and "gw_blockRepo g' = cached_put f (storage_len st) b sg (gw_blockRepo g)"
    and "gw_sent g' = gw_sent (BroadcastChatMessage E f' (storage_len st) b g)"
  shows "log_inv repo ok E (fst (storage_append None None st b)) g'"
proof -
  let ?st = "fst (storage_append None None st b)"
  have inv: "storage_inv st" "cache_agrees repo ok st (gw_blockRepo g)"
    and sent: "\<And>c m. (c, m) \<in> set (gw_sent g) \<Longrightarrow> truthful E (blocks_of st) m"
    using assms(1) by (auto simp: log_inv_def)
  note eff = append_effect [OF inv(1) assms(2)]
  have new: "truthful E (blocks_of ?st) (chat_note f' (storage_len st) p)" if "ie_unmarshal E b = Some p" for p
    using that eff(3,4) by (auto simp: truthful_def chat_note_def nth_append)
  have "truthful E (blocks_of ?st) m" if "(c, m) \<in> set (gw_sent g')" for c m
    using that sent new truthful_more [of E "blocks_of st" _ "[b]"] unfolding assms(5) Broadcast_sent eff(3)
    by (auto split: option.splits if_splits)
  then show ?thesis
    using cache_put [OF inv(2) eff(3,4)] eff(2) assms(3,4) by (auto simp: log_inv_def)
qed

end

subsection \<open>What each kind of event does to the log\<close>

text \<open>Commands other than \<open>append_block\<close> leave the log, the database and the messages alone.\<close>

definition same_store :: "('w, 's, 'r, 'f) gateway \<Rightarrow> ('w, 's, 'r, 'f) gateway \<Rightarrow> bool" where
  "same_store g g' \<longleftrightarrow> gw_store g' = gw_store g \<and> gw_blockRepo g' = gw_blockRepo g \<and> gw_sent g' = gw_sent g"

lemma same_store_refl [simp]: "same_store g g" by (simp add: same_store_def)

lemma same_store_reg: "same_store g (fold (reg_register k) as g)"
  by (induction as arbitrary: g) (auto simp: same_store_def reg_register_def)

lemma same_store_join: "join_dht E key g = Some g' \<Longrightarrow> same_store g g'"
  using same_store_reg [of "g\<lparr>gw_node := n, gw_world := w\<rparr>" key as for n w as]
  by (auto simp: join_dht_def Let_def same_store_def split: option.splits prod.splits)

lemma same_store_commands:
  "cmd_join E req p g = Some (g', m) \<Longrightarrow> same_store g g' \<and> fst (hd m) = ''status''"
  "cmd_leave E req g = Some (g', m) \<Longrightarrow> same_store g g' \<and> fst (hd m) = ''status''"
  by (auto simp: cmd_join_def cmd_leave_def Let_def success_def failure_def reg_register_def same_store_def
      dest!: same_store_join split: sum.splits option.splits prod.splits)

lemma cmd_get_status: "fst (hd (cmd_get E req g)) = ''status''"
  by (auto simp: cmd_get_def Let_def success_def failure_def split: option.splits sum.splits)

lemma same_store_inv: "log_inv R ok E st g \<Longrightarrow> same_store g g' \<Longrightarrow> log_inv R ok E st g'"
  by (simp add: log_inv_def same_store_def)

lemma reply_inv:
  "log_inv R ok E st g \<Longrightarrow> fst (hd m) = ''status'' \<Longrightarrow> log_inv R ok E st (reply c sent m g)"
  by (auto simp: log_inv_def truthful_reply)


context block_cache
begin

lemma append_command_inv:
  assumes "log_inv repo ok E st g" "cmd_append E (None, None) req g = (g', m)"
    and "gw_store g' = Some st'" "within_limits st'"
  shows "log_inv repo ok E st' g' \<and> fst (hd m) = ''status'' \<and>
    (blocks_of st' = blocks_of st \<or>
     (\<exists>b. b64_decode (req_string req ''data'') = (b, True) \<and> blocks_of st' = blocks_of st @ [b]))"
proof -
  have st: "gw_store g = Some st" "storage_inv st" using assms(1) by (simp_all add: log_inv_def)
  obtain b valid where d: "b64_decode (req_string req ''data'') = (b, valid)" by force
  show ?thesis
  proof (cases valid)
    case False
    then have "g' = g" "fst (hd m) = ''status''" using assms(2) d st(1) by (auto simp: cmd_append_def failure_def)
    with assms(1,3) st(1) show ?thesis by simp
  next
    case True
    define st1 where "st1 = fst (storage_append None None st b)"
    have ap: "storage_append None None st b = (st1, None)"
      using storage_append_reliable [OF st(2), of b] by (metis prod.collapse st1_def)
    define g1 where "g1 = g\<lparr>gw_store := Some st1, gw_blockRepo := cached_put (req_feed_key req) (storage_len st) b (req_signature req) (gw_blockRepo g)\<rparr>"
    have g': "g' = BroadcastChatMessage E (req_feed_key req) (storage_len st) b g1" "fst (hd m) = ''status''"
      using assms(2) d True st(1) ap
      by (auto simp: cmd_append_def append_at_def Let_def success_def g1_def cached_put_def)
    have st': "st' = st1" using assms(3) by (simp add: g' g1_def)
    have lim: "within_limits (fst (storage_append None None st b))" using assms(4) by (simp add: st' st1_def)
    have "log_inv repo ok E (fst (storage_append None None st b)) g'"
      by (rule append_and_tell [OF assms(1) lim, where f' = "req_feed_key req"])
        (simp_all add: g' g1_def st1_def Broadcast_sent split: option.split)
    with append_effect(3) [OF st(2) lim] d True g'(2) show ?thesis by (simp add: st' st1_def)
  qed
qed

lemma exec_command_inv:
  assumes "log_inv repo ok E st g" "exec_command E (None, None) req g = Some (g', m)"
    and "gw_store g' = Some st'" "within_limits st'"
  shows "log_inv repo ok E st' g' \<and> fst (hd m) = ''status'' \<and>
    (blocks_of st' = blocks_of st \<or>
     (\<exists>b. req_string req ''command'' = ''append_block'' \<and> b64_decode (req_string req ''data'') = (b, True) \<and>
       blocks_of st' = blocks_of st @ [b]))"
proof (cases "req_string req ''command'' = ''append_block''")
  case True
  then have "cmd_append E (None, None) req g = (g', m)" using assms(2) by (simp add: exec_command_def)
  from append_command_inv [OF assms(1) this assms(3,4)] True show ?thesis by blast
next
  case False
  then have "same_store g g' \<and> fst (hd m) = ''status''"
    using assms(2) cmd_get_status [of E req g]
    by (auto simp: exec_command_def Let_def success_def dest!: same_store_commands split: if_splits)
  moreover from this have "st' = st" using assms(1,3) by (simp add: same_store_def log_inv_def)
  ultimately show ?thesis using same_store_inv [OF assms(1)] by blast
qed

lemma client_step_inv:
  assumes "log_inv repo ok E st g" "client_step E c wl e auth g = Some (status, g')" "fault_free (ClientEvent c e)"
    and "gw_store g' = Some st'" "within_limits st'"
  shows "log_inv repo ok E st' g' \<and>
    (blocks_of st' = blocks_of st \<or>
     (\<exists>b req ff sent. e = Decoded req ff sent \<and> (auth \<or> presents_key wl req) \<and>
       req_string req ''command'' = ''append_block'' \<and> b64_decode (req_string req ''data'') = (b, True) \<and>
       blocks_of st' = blocks_of st @ [b]))"
proof -
  have unreg: "log_inv repo ok E st1 (Unregister c g1) = log_inv repo ok E st1 g1" for st1 g1
    by (simp add: log_inv_def)
  show ?thesis
  proof (cases e)
    case (Decoded req ff sent)
    then have ff: "ff = (None, None)" using assms(3) by (simp add: fault_free_def)
    show ?thesis
    proof (cases "auth \<or> presents_key wl req")
      case False
      then have "g' = Unregister c (reply c sent (unauthorized req) g)"
        using assms(2) Decoded by (simp add: client_step_def)
      moreover have "st' = st" using assms(1,4) calculation by (simp add: log_inv_def)
      moreover have "log_inv repo ok E st (reply c sent (unauthorized req) g)"
        by (rule reply_inv [OF assms(1)]) (simp add: unauthorized_def failure_def)
      ultimately show ?thesis by (simp add: unreg)
    next
      case True
      then obtain g1 m where ex: "exec_command E (None, None) req g = Some (g1, m)"
        and g': "g' = (if sent then reply c sent m g1 else Unregister c (reply c sent m g1))"
        using assms(2) Decoded ff by (auto simp: client_step_def Let_def split: option.splits prod.splits if_splits)
      have "gw_store g1 = Some st'" using assms(4) by (simp add: g' split: if_splits)
      from exec_command_inv [OF assms(1) ex this assms(5)] have
        i: "log_inv repo ok E st' g1" "fst (hd m) = ''status''"
        and b: "blocks_of st' = blocks_of st \<or> (\<exists>b. req_string req ''command'' = ''append_block'' \<and>
          b64_decode (req_string req ''data'') = (b, True) \<and> blocks_of st' = blocks_of st @ [b])" by blast+
      have "log_inv repo ok E st' g'" using reply_inv [OF i] by (simp add: g' unreg)
      with b True Decoded show ?thesis by blast
    qed
  qed (use assms unreg in \<open>auto simp: client_step_def log_inv_def\<close>)
qed

lemma service_reply_inv:
  assumes "log_inv repo ok (se_ipc V) st g" "service_reply V m g = g'"
    and "gw_store g' = Some st'" "within_limits st'"
  shows "log_inv repo ok (se_ipc V) st' g' \<and>
    (blocks_of st' = blocks_of st \<or>
     (\<exists>ans b. agentic_answer (se_agentic V) (se_url V) (fst m) (snd m) = Some ans \<and>
       ag_marshal (se_agentic V) ans = Inr b \<and> blocks_of st' = blocks_of st @ [b]))"
proof -
  have st: "gw_store g = Some st" "storage_inv st" using assms(1) by (simp_all add: log_inv_def)
  show ?thesis
  proof (cases "g' = g")
    case True
    then show ?thesis using assms(1,3) st(1) by simp
  next
    case False
    then obtain ans where t: "agentic_answer (se_agentic V) (se_url V) (fst m) (snd m) = Some ans"
      "g' = agentic_append (se_ipc V) (se_agentic V) (None, None) ans g"
      using assms(2) by (auto simp: service_reply_def split: option.splits prod.splits)
    with False obtain b where b: "ag_marshal (se_agentic V) ans = Inr b"
      using st(1) by (cases "ag_marshal (se_agentic V) ans") (auto simp: agentic_append_def)
    define st1 where "st1 = fst (storage_append None None st b)"
    have ap: "storage_append None None st b = (st1, None)"
      using storage_append_reliable [OF st(2), of b] by (metis prod.collapse st1_def)
    have g': "g' = BroadcastChatMessage (se_ipc V) defaultFeedKey (storage_len st) b
        (g\<lparr>gw_store := Some st1, gw_blockRepo := cached_put defaultFeedKey (storage_len st) b None (gw_blockRepo g)\<rparr>)"
      using t(2) b st(1) ap by (simp add: agentic_append_def agentic_at_def cached_put_def)
    have st': "st' = st1" using assms(3) by (simp add: g')
    have lim: "within_limits (fst (storage_append None None st b))" using assms(4) by (simp add: st' st1_def)
    have "log_inv repo ok (se_ipc V) (fst (storage_append None None st b)) g'"
      by (rule append_and_tell [OF assms(1) lim, where f' = defaultFeedKey])
        (simp_all add: g' st1_def Broadcast_sent split: option.split)
    with append_effect(3) [OF st(2) lim] t(1) b show ?thesis by (auto simp: st' st1_def)
  qed
qed

end

text \<open>One frame of a peer: nothing, or the block that its session verified.\<close>

lemma handle_frame_cases:
  assumes "handle_frame S None None s b = (t, r)" "storage_inv (ss_storage s)"
  obtains "ss_storage t = ss_storage s" "ss_repo t = ss_repo s" "ss_appended t = ss_appended s"
  | v sg root where "ss_storage t = fst (storage_append None None (ss_storage s) v)"
      "ss_repo t = cached_put (ss_feedKey s) (storage_len (ss_storage s)) v (Some sg) (ss_repo s)"
      "ss_appended t = ss_appended s @ [(storage_len (ss_storage s), v)]"
      "ComputeRootHash (blake2b S) (blocks_of (ss_storage s) @ [v]) = Inr root"
      "VerifySignature S (ss_remotePub s) root sg"
proof -
  from assms(1) consider "same_log s t" | "handle_data S None None s b = (t, r)"
    using handle_have_same_log [of s b] handle_want_same_log [of s S b] handle_request_same_log [of s S b]
    by (auto simp: handle_frame_def split: if_splits)
  then show ?thesis
  proof cases
    case 1
    then show ?thesis by (intro that(1)) (simp_all add: same_log_def)
  next
    case 2
    show ?thesis
    proof (cases "data_check S s b")
      case (Inl e)
      with 2 have "t = s" by (simp add: handle_data_split)
      then show ?thesis by (intro that(1)) simp_all
    next
      case (Inr mv)
      obtain m v where mv: "mv = (m, v)" by force
      note ver = data_check_verified [OF Inr [unfolded mv] assms(2)]
      then obtain root where root: "ComputeRootHash (blake2b S) (blocks_of (ss_storage s) @ [v]) = Inr root"
        "VerifySignature S (ss_remotePub s) root (data_signature m)" by blast
      obtain st where st: "storage_append None None (ss_storage s) v = (st, None)"
        using storage_append_reliable [OF assms(2), of v] by (metis prod.collapse)
      with 2 Inr mv ver(1) have "ss_storage t = fst (storage_append None None (ss_storage s) v)"
        "ss_repo t = cached_put (ss_feedKey s) (storage_len (ss_storage s)) v (Some (data_signature m)) (ss_repo s)"
        "ss_appended t = ss_appended s @ [(storage_len (ss_storage s), v)]"
        by (auto simp: handle_data_split data_commit_def Let_def cached_put_def split: option.splits)
      with root show ?thesis by (intro that(2))
    qed
  qed
qed

lemma peer_frame_cases:
  assumes "storage_inv (pm_storage pm)"
  obtains "pm_storage (peer_frame S i b pm) = pm_storage pm" "pm_blockRepo (peer_frame S i b pm) = pm_blockRepo pm"
    "frame_reports S i b pm = []"
  | v f sg root where "pm_storage (peer_frame S i b pm) = fst (storage_append None None (pm_storage pm) v)"
      "pm_blockRepo (peer_frame S i b pm) = cached_put f (storage_len (pm_storage pm)) v (Some sg) (pm_blockRepo pm)"
      "frame_reports S i b pm = [(storage_len (pm_storage pm), v)]" "i < length (pm_handlers pm)"
      "ComputeRootHash (blake2b S) (blocks_of (pm_storage pm) @ [v]) = Inr root"
      "VerifySignature S (ss_remotePub (ph_session (pm_handlers pm ! i))) root sg"
proof (cases "i < length (pm_handlers pm) \<and> ph_running (pm_handlers pm ! i)")
  case False
  then have "peer_frame S i b pm = pm" by (auto simp: peer_frame_def)
  then show ?thesis by (intro that(1)) (simp_all add: frame_reports_def)
next
  case True
  obtain t r where h: "handle_frame S None None (attach pm i) b = (t, r)" by force
  have pm': "pm_storage (peer_frame S i b pm) = ss_storage t" "pm_blockRepo (peer_frame S i b pm) = ss_repo t"
    "ph_session (pm_handlers (peer_frame S i b pm) ! i) = t"
    using True h by (auto simp: peer_frame_def detach_def peer_ended_def Let_def split: option.split)
  have at: "ss_storage (attach pm i) = pm_storage pm" "ss_repo (attach pm i) = pm_blockRepo pm"
    "ss_appended (attach pm i) = ss_appended (ph_session (pm_handlers pm ! i))"
    "ss_remotePub (attach pm i) = ss_remotePub (ph_session (pm_handlers pm ! i))"
    by (simp_all add: attach_def)
  from h assms show ?thesis
  proof (rule handle_frame_cases [of S "attach pm i" b t r, unfolded at])
    assume "ss_storage t = pm_storage pm" "ss_repo t = pm_blockRepo pm"
      "ss_appended t = ss_appended (ph_session (pm_handlers pm ! i))"
    then show ?thesis by (intro that(1)) (simp_all add: frame_reports_def pm')
  next
    fix v sg root
    assume "ss_storage t = fst (storage_append None None (pm_storage pm) v)"
      "ss_repo t = cached_put (ss_feedKey (attach pm i)) (storage_len (pm_storage pm)) v (Some sg) (pm_blockRepo pm)"
      "ss_appended t = ss_appended (ph_session (pm_handlers pm ! i)) @ [(storage_len (pm_storage pm), v)]"
      "ComputeRootHash (blake2b S) (blocks_of (pm_storage pm) @ [v]) = Inr root"
      "VerifySignature S (ss_remotePub (ph_session (pm_handlers pm ! i))) root sg"
    then show ?thesis using True by (intro that(2)) (simp_all add: frame_reports_def pm')
  qed
qed

subsection \<open>The invariant of the running gateway\<close>

definition system_log :: "('w, 's, 'r, 'f) system \<Rightarrow> storage" where
  "system_log s = pm_storage (sy_peers s)"

definition system_inv ::
  "('w, 'f) system_env \<Rightarrow> 'r block_repo \<Rightarrow> ('r \<Rightarrow> bool) \<Rightarrow> ('w, 's, 'r, 'f) system \<Rightarrow> bool" where
  "system_inv V R ok s \<longleftrightarrow>
     log_inv R ok (se_ipc V) (system_log s) (sy_gateway s) \<and>
     gw_blockRepo (sy_gateway s) = pm_blockRepo (sy_peers s) \<and> gateway_inv (sy_gateway s)"

text \<open>
  Who may append a block \<open>b\<close> behind the log of \<open>s\<close>: a running client that has presented a whitelisted key
  by then, with an \<open>append_block\<close> of \<open>b\<close>; the HTTP service, with the answer to a forwarded message; a peer
  whose key verifies a signature of the root of the log that ends with \<open>b\<close>.
\<close>

definition authenticated_client :: "('w, 'f) system_env \<Rightarrow> 'f system_event list \<Rightarrow> nat \<Rightarrow> bool" where
  "authenticated_client V past c \<longleftrightarrow> se_whitelist V = [] \<or>
     (\<exists>req ff sent. ClientEvent c (Decoded req ff sent) \<in> set past \<and> presents_key (se_whitelist V) req)"

definition authored ::
  "('w, 'f) system_env \<Rightarrow> 'f system_event list \<Rightarrow> 'f system_event \<Rightarrow> ('w, 's, 'r, 'f) system \<Rightarrow> bytes \<Rightarrow> bool" where
  "authored V past ev s b \<longleftrightarrow>
     (case ev of
        ClientEvent c (Decoded req _ _) \<Rightarrow> sy_clients s c \<noteq> None \<and> authenticated_client V (past @ [ev]) c \<and>
          req_string req ''command'' = ''append_block'' \<and> b64_decode (req_string req ''data'') = (b, True)
      | ServiceAnswers k \<Rightarrow> k < length (sy_forwarding s) \<and>
          (\<exists>text. agentic_answer (se_agentic V) (se_url V) (fst (sy_forwarding s ! k)) (snd (sy_forwarding s ! k)) = Some text \<and>
             ag_marshal (se_agentic V) text = Inr b)
      | PeerFrame i _ \<Rightarrow> i < length (pm_handlers (sy_peers s)) \<and>
          (\<exists>root sg. ComputeRootHash (blake2b (se_sync V)) (blocks_of (system_log s) @ [b]) = Inr root \<and>
             VerifySignature (se_sync V) (ss_remotePub (ph_session (pm_handlers (sy_peers s) ! i))) root sg)
      | _ \<Rightarrow> False)"

definition auth_sound :: "('w, 'f) system_env \<Rightarrow> 'f system_event list \<Rightarrow> ('w, 's, 'r, 'f) system \<Rightarrow> bool" where
  "auth_sound V past s \<longleftrightarrow> (\<forall>c. sy_clients s c = Some True \<longrightarrow> authenticated_client V past c)"

lemma authenticated_more: "authenticated_client V past c \<Longrightarrow> authenticated_client V (past @ later) c"
  by (auto simp: authenticated_client_def)

lemma authenticated_open: "se_whitelist V = [] \<Longrightarrow> authenticated_client V past c"
  by (simp add: authenticated_client_def)

lemma authenticated_now:
  assumes "presents_key (se_whitelist V) req"
  shows "authenticated_client V (past @ [ClientEvent c (Decoded req ff sent)]) c"
proof -
  have "ClientEvent c (Decoded req ff sent) \<in> set (past @ [ClientEvent c (Decoded req ff sent)])" by simp
  with assms show ?thesis unfolding authenticated_client_def by blast
qed

lemma fold_on_append_simps [simp]:
  "sy_peers (fold (on_append_start V) rs s) = sy_peers s" "sy_clients (fold (on_append_start V) rs s) = sy_clients s"
  by (induction rs arbitrary: s) (auto simp: on_append_start_def)

lemma client_step_status:
  "client_step E c wl e auth g = Some (Some auth', g') \<Longrightarrow> auth' \<longleftrightarrow> auth \<or> (\<exists>req ff sent. e = Decoded req ff sent \<and> presents_key wl req)"
  by (cases e) (auto simp: client_step_def Let_def split: option.splits prod.splits if_splits)

lemma auth_sound_step:
  assumes "auth_sound V past s" "system_step V ev s = Some s'"
  shows "auth_sound V (past @ [ev]) s'"
proof -
  have old: "sy_clients s c = Some True \<Longrightarrow> authenticated_client V (past @ [ev]) c" for c
    using assms(1) authenticated_more [of V past c "[ev]"] by (simp add: auth_sound_def)
  show ?thesis
  proof (cases ev)
    case (ClientEvent c e)
    show ?thesis
    proof (cases "sy_clients s c")
      case None
      then show ?thesis using assms(2) old ClientEvent by (simp add: system_step_def auth_sound_def)
    next
      case (Some a)
      then obtain status g where st: "client_step (se_ipc V) c (se_whitelist V) e a (sy_gateway s) = Some (status, g)"
        "sy_clients s' = (sy_clients s)(c := status)"
        using assms(2) ClientEvent by (auto simp: system_step_def)
      have "authenticated_client V (past @ [ev]) c" if "status = Some True"
        using client_step_status [of "se_ipc V" c "se_whitelist V" e a "sy_gateway s" True g] st(1) that old [of c] Some
          ClientEvent by (auto simp: authenticated_now)
      then show ?thesis using old st(2) by (simp add: auth_sound_def)
    qed
  qed (use assms(2) old in \<open>auto simp: system_step_def auth_sound_def Let_def authenticated_open split: if_splits\<close>)
qed

lemma from_gateway_simps:
  "gw_store g = Some st \<Longrightarrow> pm_storage (from_gateway g pm) = st"
  "gw_store g = Some st \<Longrightarrow> pm_blockRepo (from_gateway g pm) = gw_blockRepo g"
  by (simp_all add: from_gateway_def)

lemma gateway_inv_simps [simp]:
  "gateway_inv (BroadcastChatMessage E f i v g) = gateway_inv g" "gateway_inv (from_peers pm g) = gateway_inv g"
  "gateway_inv (Register c g) = gateway_inv g"
  by (simp_all add: gateway_inv_def from_peers_def)

subsection \<open>Every event keeps the invariant\<close>

definition linked :: "('w, 's, 'r, 'f) system \<Rightarrow> bool" where
  "linked s \<longleftrightarrow> gw_store (sy_gateway s) = Some (system_log s) \<and> gw_blockRepo (sy_gateway s) = pm_blockRepo (sy_peers s)"

text \<open>The storage of a gateway only grows.\<close>

definition store_grows :: "('w, 's, 'r, 'f) gateway \<Rightarrow> ('w, 's, 'r, 'f) gateway \<Rightarrow> bool" where
  "store_grows g g' \<longleftrightarrow> (\<forall>st. gw_store g = Some st \<longrightarrow> (\<exists>st'. gw_store g' = Some st' \<and> grows st st'))"

lemma same_store_grows: "same_store g g' \<Longrightarrow> store_grows g g'"
  by (simp add: same_store_def store_grows_def)

lemma cmd_append_store_grows: "store_grows g (fst (cmd_append E ff req g))"
proof -
  have "grows st st'" if "storage_append fd fi st b = (st', e)" for fd fi st b st' e
    using that storage_append_grows [of st fd fi b] by simp
  then show ?thesis
    by (auto simp: store_grows_def cmd_append_def append_at_def Let_def split: option.split prod.split bool.split)
qed

lemma exec_store_grows: "exec_command E ff req g = Some (g', m) \<Longrightarrow> store_grows g g'"
  using cmd_append_store_grows [of g E ff req] same_store_grows [of g g]
  by (auto simp: exec_command_def Let_def dest!: same_store_commands same_store_grows split: if_splits)

lemma client_step_store_grows: "client_step E c wl e auth g = Some (st, g') \<Longrightarrow> store_grows g g'"
  using same_store_grows [of g g]
  by (cases e) (auto simp: client_step_def Let_def store_grows_def dest!: exec_store_grows
      split: if_splits option.splits prod.splits)

lemma service_reply_store_grows: "store_grows g (service_reply V m g)"
proof -
  have "grows st st'" if "storage_append fd fi st b = (st', e)" for fd fi st b st' e
    using that storage_append_grows [of st fd fi b] by simp
  then show ?thesis
    by (auto simp: store_grows_def service_reply_def agentic_append_def agentic_at_def split: option.split prod.split sum.split)
qed

lemma fold_on_append_gateway [simp]:
  "gw_store (sy_gateway (fold (on_append_start V) rs s)) = gw_store (sy_gateway s)"
  "gw_blockRepo (sy_gateway (fold (on_append_start V) rs s)) = gw_blockRepo (sy_gateway s)"
  "gateway_inv (sy_gateway (fold (on_append_start V) rs s)) = gateway_inv (sy_gateway s)"
  by (induction rs arbitrary: s) (auto simp: on_append_start_def)

lemma system_step_linked:
  assumes "linked s" "system_step V ev s = Some s'"
  shows "linked s' \<and> grows (system_log s) (system_log s')"
proof (cases ev)
  case (ClientEvent c e)
  show ?thesis
  proof (cases "sy_clients s c")
    case None
    then show ?thesis using assms ClientEvent by (simp add: system_step_def)
  next
    case (Some a)
    then obtain status g where st: "client_step (se_ipc V) c (se_whitelist V) e a (sy_gateway s) = Some (status, g)"
      "sy_gateway s' = g" "sy_peers s' = from_gateway g (sy_peers s)"
      using assms(2) ClientEvent by (auto simp: system_step_def)
    have "gw_store (sy_gateway s) = Some (system_log s)" using assms(1) by (simp add: linked_def)
    then obtain st' where "gw_store g = Some st'" "grows (system_log s) st'"
      using client_step_store_grows [OF st(1)] unfolding store_grows_def by blast
    with st show ?thesis by (simp add: linked_def system_log_def from_gateway_simps)
  qed
next
  case (ServiceAnswers k)
  show ?thesis
  proof (cases "k < length (sy_forwarding s)")
    case False
    then show ?thesis using assms ServiceAnswers by (simp add: system_step_def)
  next
    case True
    let ?g = "service_reply V (sy_forwarding s ! k) (sy_gateway s)"
    have "gw_store (sy_gateway s) = Some (system_log s)" using assms(1) by (simp add: linked_def)
    then obtain st' where "gw_store ?g = Some st'" "grows (system_log s) st'"
      using service_reply_store_grows [of "sy_gateway s" V "sy_forwarding s ! k"] unfolding store_grows_def by blast
    moreover have "sy_gateway s' = ?g" "sy_peers s' = from_gateway ?g (sy_peers s)"
      using assms(2) ServiceAnswers True by (auto simp: system_step_def Let_def)
    ultimately show ?thesis by (simp add: linked_def system_log_def from_gateway_simps)
  qed
next
  case (PeerFrame i b)
  then show ?thesis
    using assms peer_frame_grows by (auto simp: system_step_def Let_def linked_def system_log_def from_peers_def)
qed (use assms in \<open>auto simp: system_step_def linked_def system_log_def peer_connected_def peer_ended_def Let_def split: if_splits\<close>)

lemma service_reply_gateway_inv: "gateway_inv g \<Longrightarrow> gateway_inv (service_reply V m g)"
  by (auto simp: service_reply_def agentic_append_def agentic_at_def gateway_inv_def split: option.split prod.split sum.split)

lemma system_step_total:
  assumes "ipc_env_ok (se_ipc V)" "gateway_inv (sy_gateway s)"
  shows "\<exists>s'. system_step V ev s = Some s' \<and> gateway_inv (sy_gateway s')"
proof (cases ev)
  case (ClientEvent c e)
  show ?thesis
  proof (cases "sy_clients s c")
    case None
    then show ?thesis using assms(2) ClientEvent by (simp add: system_step_def)
  next
    case (Some a)
    with client_step_total [OF assms, of c "se_whitelist V" e a] ClientEvent show ?thesis
      by (auto simp: system_step_def)
  qed
next
  case (DhtDatagram data src)
  then show ?thesis using assms(2) serve_datagram_inv by (auto simp: system_step_def gateway_inv_def)
qed (use assms(2) in \<open>auto simp: system_step_def Let_def service_reply_gateway_inv\<close>)

context block_cache
begin

text \<open>One event: the invariant holds again, and the log is the same or one authored block longer.\<close>

lemma system_step_log:
  assumes "system_inv V repo ok s" "auth_sound V past s" "fault_free ev" "system_step V ev s = Some s'"
    and "within_limits (system_log s')"
  shows "log_inv repo ok (se_ipc V) (system_log s') (sy_gateway s') \<and>
    (blocks_of (system_log s') = blocks_of (system_log s) \<or>
     (\<exists>b. blocks_of (system_log s') = blocks_of (system_log s) @ [b] \<and> authored V past ev s b))"
proof -
  have inv: "log_inv repo ok (se_ipc V) (system_log s) (sy_gateway s)" using assms(1) by (simp add: system_inv_def)
  have link: "linked s" using assms(1) by (simp add: linked_def system_inv_def log_inv_def)
  have store': "gw_store (sy_gateway s') = Some (system_log s')"
    using system_step_linked [OF link assms(4)] by (simp add: linked_def)
  show ?thesis
  proof (cases ev)
    case (ClientEvent c e)
    show ?thesis
    proof (cases "sy_clients s c")
      case None
      then show ?thesis using assms(4) inv ClientEvent by (simp add: system_step_def)
    next
      case (Some a)
      then obtain status where st: "client_step (se_ipc V) c (se_whitelist V) e a (sy_gateway s) = Some (status, sy_gateway s')"
        using assms(4) ClientEvent by (auto simp: system_step_def)
      have "authenticated_client V (past @ [ev]) c" if "a" 
        using that assms(2) Some authenticated_more [of V past c "[ev]"] by (simp add: auth_sound_def)
      moreover have "authenticated_client V (past @ [ev]) c" if "e = Decoded req ff sent" "presents_key (se_whitelist V) req" for req ff sent
        using that ClientEvent by (simp add: authenticated_now)
      ultimately show ?thesis
        using client_step_inv [OF inv st assms(3) [unfolded ClientEvent] store' assms(5)] Some ClientEvent
        by (auto simp: authored_def)
    qed
  next
    case (ServiceAnswers k)
    show ?thesis
    proof (cases "k < length (sy_forwarding s)")
      case False
      then show ?thesis using assms(4) inv ServiceAnswers by (simp add: system_step_def)
    next
      case True
      then have "service_reply V (sy_forwarding s ! k) (sy_gateway s) = sy_gateway s'"
        using assms(4) ServiceAnswers by (auto simp: system_step_def Let_def)
      from service_reply_inv [OF inv this store' assms(5)] True ServiceAnswers show ?thesis
        by (auto simp: authored_def)
    qed
  next
    case (PeerFrame i b)
    let ?pm = "peer_frame (se_sync V) i b (sy_peers s)"
    have s': "s' = fold (on_append_start V) (frame_reports (se_sync V) i b (sy_peers s))
        (s\<lparr>sy_peers := ?pm, sy_gateway := from_peers ?pm (sy_gateway s)\<rparr>)"
      using assms(4) PeerFrame by (simp add: system_step_def Let_def)
    then have log': "system_log s' = pm_storage ?pm" by (simp add: system_log_def)
    have si: "storage_inv (pm_storage (sy_peers s))" using inv by (simp add: log_inv_def system_log_def)
    then show ?thesis
    proof (rule peer_frame_cases [of "sy_peers s" "se_sync V" i b])
      assume "pm_storage ?pm = pm_storage (sy_peers s)" "pm_blockRepo ?pm = pm_blockRepo (sy_peers s)"
        "frame_reports (se_sync V) i b (sy_peers s) = []"
      then show ?thesis using inv link by (simp add: s' system_log_def log_inv_def linked_def from_peers_def)
    next
      fix v f sg root
      assume v: "pm_storage ?pm = fst (storage_append None None (pm_storage (sy_peers s)) v)"
        "pm_blockRepo ?pm = cached_put f (storage_len (pm_storage (sy_peers s))) v (Some sg) (pm_blockRepo (sy_peers s))"
        "frame_reports (se_sync V) i b (sy_peers s) = [(storage_len (pm_storage (sy_peers s)), v)]"
        "i < length (pm_handlers (sy_peers s))"
        "ComputeRootHash (blake2b (se_sync V)) (blocks_of (pm_storage (sy_peers s)) @ [v]) = Inr root"
        "VerifySignature (se_sync V) (ss_remotePub (ph_session (pm_handlers (sy_peers s) ! i))) root sg"
      have lim: "within_limits (fst (storage_append None None (system_log s) v))"
        using assms(5) log' v(1) by (simp add: system_log_def)
      have "log_inv repo ok (se_ipc V) (fst (storage_append None None (system_log s) v)) (sy_gateway s')"
        by (rule append_and_tell [OF inv lim, where f' = defaultFeedKey])
          (use v link in \<open>simp_all add: s' on_append_start_def from_peers_def system_log_def linked_def Broadcast_sent split: option.split\<close>)
      moreover have "authored V past ev s v" using v PeerFrame by (auto simp: authored_def system_log_def)
      ultimately show ?thesis
        using append_effect(3) [OF si, of v] lim v(1) log' by (simp add: system_log_def)
    qed
  qed (use assms(4) inv in \<open>auto simp: system_step_def system_log_def log_inv_def peer_connected_def peer_ended_def Let_def Register_def split: if_splits\<close>)
qed

end

subsection \<open>Any sequence of events\<close>

lemma system_run_linked:
  "system_run V s0 evs s \<Longrightarrow> linked s0 \<Longrightarrow> linked s \<and> grows (system_log s0) (system_log s)"
  by (induction rule: system_run.induct) (auto dest: system_step_linked intro: grows_trans)

lemma system_inv_linked: "system_inv V R ok s \<Longrightarrow> linked s"
  by (simp add: linked_def system_inv_def log_inv_def)

lemma system_run_before:
  assumes "system_run V s0 evs s" "linked s0" "system_step V ev s = Some s'" "within_limits (system_log s')"
  shows "within_limits (system_log s)"
  using system_run_linked [OF assms(1,2)] system_step_linked [of s V ev s'] assms(3,4) within_limits_back by blast

lemma system_run_auth:
  "system_run V s0 evs s \<Longrightarrow> auth_sound V [] s0 \<Longrightarrow> auth_sound V evs s"
  by (induction rule: system_run.induct) (auto intro: auth_sound_step)

context block_cache
begin

lemma system_run_inv:
  assumes "system_run V s0 evs s" "system_inv V repo ok s0" "ipc_env_ok (se_ipc V)" "auth_sound V [] s0"
    and "within_limits (system_log s)"
  shows "system_inv V repo ok s \<and> prefix (blocks_of (system_log s0)) (blocks_of (system_log s))"
  using assms(1,5)
proof (induction rule: system_run.induct)
  case start
  then show ?case using assms(2) by simp
next
  case (event evs s ev s')
  have lim: "within_limits (system_log s)"
    by (rule system_run_before [OF event.hyps(1) system_inv_linked [OF assms(2)] event.hyps(3) event.prems])
  have IH: "system_inv V repo ok s" "prefix (blocks_of (system_log s0)) (blocks_of (system_log s))"
    using event.IH [OF lim] by blast+
  from system_step_log [OF IH(1) system_run_auth [OF event.hyps(1) assms(4)] event.hyps(2,3) event.prems]
  have "log_inv repo ok (se_ipc V) (system_log s') (sy_gateway s')"
    "prefix (blocks_of (system_log s)) (blocks_of (system_log s'))" by auto
  moreover have "gateway_inv (sy_gateway s')"
    using system_step_total [OF assms(3), of s ev] IH(1) event.hyps(3) by (auto simp: system_inv_def)
  moreover have "linked s'"
    using system_step_linked [OF system_inv_linked [OF IH(1)] event.hyps(3)] by blast
  ultimately show ?case using IH(2) by (auto simp: system_inv_def linked_def intro: prefix_order.trans)
qed

lemma system_run_authored:
  assumes "system_run V s0 evs s" "system_inv V repo ok s0" "ipc_env_ok (se_ipc V)" "auth_sound V [] s0"
    and "within_limits (system_log s)" "length (blocks_of (system_log s0)) \<le> k" "k < length (blocks_of (system_log s))"
  shows "\<exists>past ev later m. evs = past @ ev # later \<and> system_run V s0 past m \<and>
    blocks_of (system_log m) = take k (blocks_of (system_log s)) \<and> authored V past ev m (blocks_of (system_log s) ! k)"
  using assms(1,5-7)
proof (induction rule: system_run.induct)
  case start
  then show ?case by simp
next
  case (event evs s ev s')
  have lim: "within_limits (system_log s)"
    by (rule system_run_before [OF event.hyps(1) system_inv_linked [OF assms(2)] event.hyps(3) event.prems(1)])
  have inv: "system_inv V repo ok s" using system_run_inv [OF event.hyps(1) assms(2-4) lim] by blast
  note ext = conjunct2 [OF system_step_log [OF inv system_run_auth [OF event.hyps(1) assms(4)] event.hyps(2,3) event.prems(1)]]
  show ?case
  proof (cases "k < length (blocks_of (system_log s))")
    case True
    from event.IH [OF lim event.prems(2) this] obtain past e later m where
      m: "evs = past @ e # later" "system_run V s0 past m" "blocks_of (system_log m) = take k (blocks_of (system_log s))"
        "authored V past e m (blocks_of (system_log s) ! k)" by blast
    have "blocks_of (system_log s') ! k = blocks_of (system_log s) ! k" "take k (blocks_of (system_log s')) = take k (blocks_of (system_log s))"
      using ext True by (auto simp: nth_append)
    with m show ?thesis by (intro exI [of _ past] exI [of _ e] exI [of _ "later @ [ev]"] exI [of _ m]) simp
  next
    case False
    then obtain b where b: "blocks_of (system_log s') = blocks_of (system_log s) @ [b]" "authored V evs ev s b"
      using ext event.prems(3) by auto
    with False event.prems(3) have "k = length (blocks_of (system_log s))" by simp
    with b event.hyps(1) show ?thesis by (intro exI [of _ evs] exI [of _ ev] exI [of _ "[]"] exI [of _ s]) simp
  qed
qed

end




subsection \<open>A small gateway\<close>

text \<open>One whitelisted key, a fresh bbolt database, an empty log; a client connects and appends a block.\<close>

definition toy_system_env :: "(unit, nat) system_env" where
  "toy_system_env = \<lparr>se_ipc = chat_ipc, se_agentic = echo_service, se_sync = toy_env only_signed,
     se_url = ''u'', se_whitelist = [''k'']\<rparr>"

definition fresh_bolt :: mem_db where
  "fresh_bolt = (case NewBoltDB mem_bolt None (Inr []) of Inl _ \<Rightarrow> [] | Inr db \<Rightarrow> db)"

definition toy_repo :: "(mem_db, mem_table) database block_repo" where
  "toy_repo = database_block_repo mem_bolt mem_pg"

definition toy_ready :: "(mem_db, mem_table) database \<Rightarrow> bool" where
  "toy_ready = database_ready mem_bolt (\<lambda>_. True) (\<lambda>_. True)"

definition toy_system :: "(unit, unit, (mem_db, mem_table) database, nat) system" where
  "toy_system = \<lparr>sy_gateway = \<lparr>gw_node = Some sample_node, gw_reg = Some NewSwarmRegistry, gw_store = Some empty_storage,
       gw_swarmRepo = None, gw_blockRepo = Some (toy_repo, BoltDatabase fresh_bolt), gw_world = (), gw_clients = [], gw_sent = []\<rparr>,
     sy_peers = NewPeerManager [] empty_storage (Some (toy_repo, BoltDatabase fresh_bolt)) defaultFeedKey,
     sy_clients = (\<lambda>_. None), sy_forwarding = []\<rparr>"

definition toy_append :: "nat object" where
  "toy_append = [''command'' \<mapsto> JString ''append_block'', ''peer_key'' \<mapsto> JString ''k'', ''data'' \<mapsto> JString (b64_encode [1])]"

definition toy_events :: "nat system_event list" where
  "toy_events = [ClientConnects 7, ClientEvent 7 (Decoded toy_append (None, None) True)]"

lemma fresh_bolt: "bolt_ready mem_bolt (\<lambda>_. True) fresh_bolt" "bolt_GetBlock mem_bolt fresh_bolt f i \<noteq> Inr x"
proof -
  show "bolt_ready mem_bolt (\<lambda>_. True) fresh_bolt" using new_mem_bolt by (auto simp: fresh_bolt_def)
  obtain db where db: "NewBoltDB mem_bolt None (Inr []) = Inr db" using new_mem_bolt by blast
  then have "bolt_GetBlock mem_bolt db f i \<noteq> Inr x"
    by (auto simp: NewBoltDB_def bolt_update_def create_if_missing_def mem_bolt_def bolt_GetBlock_def
        valid_key_def swarmsBucket_def blocksBucket_def byte_of_char_def split: if_splits)
  with db show "bolt_GetBlock mem_bolt fresh_bolt f i \<noteq> Inr x" by (simp add: fresh_bolt_def)
qed

lemma toy_cache: "block_cache toy_repo toy_ready"
  unfolding toy_repo_def toy_ready_def by (rule mem_database.db_cache.block_cache_axioms)

lemma toy_ipc_ok: "ipc_env_ok (se_ipc toy_system_env)"
  by (simp add: toy_system_env_def ipc_env_ok_def network_ok_def chat_ipc_def no_ipc_def)

lemma toy_system_inv: "system_inv toy_system_env toy_repo toy_ready toy_system"
proof -
  have "registry_inv NewSwarmRegistry" by (simp add: registry_inv_def GetPeers_def NewSwarmRegistry_def)
  then show ?thesis
    using fresh_bolt sample_node_inv empty_storage_inv
    by (simp add: system_inv_def toy_system_def system_log_def NewPeerManager_def log_inv_def cache_agrees_def
        gateway_inv_def toy_ready_def database_ready_def toy_repo_def database_block_repo_def bolt_block_repo_def)
qed

lemma toy_auth: "auth_sound V [] toy_system"
  by (simp add: auth_sound_def toy_system_def)

lemma toy_system_run: "\<exists>s. system_run toy_system_env toy_system toy_events s \<and> system_log s = one_block"
proof -
  let ?V = "toy_system_env" and ?g = "Register 7 (sy_gateway toy_system)"
  let ?s1 = "toy_system\<lparr>sy_gateway := ?g, sy_clients := (sy_clients toy_system)(7 \<mapsto> False)\<rparr>"
  have "system_step ?V (ClientConnects 7) toy_system = Some ?s1"
    by (simp add: system_step_def toy_system_def toy_system_env_def)
  then have run1: "system_run ?V toy_system ([] @ [ClientConnects 7]) ?s1"
    by (intro system_run.event [OF system_run.start]) (simp_all add: fault_free_def)
  have room: "storage_room empty_storage [1]" by (simp add: storage_room_def empty_storage_def max_alloc_def)
  have "gw_store ?g = Some empty_storage" "toy_append ''data'' = Some (JString (b64_encode [1]))"
    by (simp_all add: toy_system_def toy_append_def)
  from cmd_append_ok [where g = ?g and st = empty_storage and b = "[1]" and req = toy_append and E = chat_ipc,
      OF this(1) empty_storage_inv room this(2)] obtain g1 m where
    g1: "cmd_append chat_ipc (None, None) toy_append ?g = (g1, m)" "gw_store g1 = Some (fst (storage_append None None empty_storage [1]))"
    by blast
  have st: "client_step chat_ipc 7 [''k''] (Decoded toy_append (None, None) True) False ?g = Some (Some True, reply 7 True m g1)"
    using g1(1) by (simp add: client_step_def exec_command_def req_string_def toy_append_def presents_key_def isWhitelisted_def Let_def)
  let ?s2 = "?s1\<lparr>sy_gateway := reply 7 True m g1, sy_peers := from_gateway (reply 7 True m g1) (sy_peers ?s1),
    sy_clients := (sy_clients ?s1)(7 \<mapsto> True)\<rparr>"
  have "system_step ?V (ClientEvent 7 (Decoded toy_append (None, None) True)) ?s1 = Some ?s2"
    using st by (simp add: system_step_def toy_system_env_def)
  then have "system_run ?V toy_system (([] @ [ClientConnects 7]) @ [ClientEvent 7 (Decoded toy_append (None, None) True)]) ?s2"
    by (intro system_run.event [OF run1]) (simp_all add: fault_free_def)
  moreover have "system_log ?s2 = one_block"
    using g1(2) by (simp add: system_log_def from_gateway_simps one_block_def storage_append_all_def)
  ultimately show ?thesis by (auto simp: toy_events_def)
qed




end
