(* ===== verification/Gateway_Races.thy ===== *)
theory Gateway_Races
  imports Gateway_System
begin

section \<open>Appends that race\<close>

text \<open>
  A goroutine that appends reads the length of the log first and appends later; the storage's lock is
  free in between. Here such a pass is two steps, with any steps of other goroutines in between: the
  task reads its index, with the checks that come before the append, and commits with the index that it
  has read. A task is listed with that index and the number of commits before its read; \<open>ra_done\<close> lists the
  tasks that have committed, in order.
\<close>

datatype 'f append_task =
    ClientAppend nat "'f object" bytes
  | ReplyAppend string bytes
  | PeerBlock nat bytes hc_data bytes

fun task_block :: "'f append_task \<Rightarrow> bytes" where
  "task_block (ClientAppend c req b) = b"
| "task_block (ReplyAppend ans b) = b"
| "task_block (PeerBlock i fr m b) = b"

record ('w, 's, 'r, 'f) racing =
  ra_system :: "('w, 's, 'r, 'f) system"
  ra_tasks :: "('f append_task \<times> u64 \<times> nat) list"
  ra_done :: "('f append_task \<times> u64 \<times> nat) list"

text \<open>The checks before the append; a received block has been verified for the log as it is.\<close>

fun may_start :: "('w, 'f) system_env \<Rightarrow> 'f append_task \<Rightarrow> ('w, 's, 'r, 'f) system \<Rightarrow> bool" where
  "may_start V (ClientAppend c req b) s \<longleftrightarrow>
     (case sy_clients s c of None \<Rightarrow> False | Some auth \<Rightarrow> auth \<or> presents_key (se_whitelist V) req) \<and>
     req_string req ''command'' = ''append_block'' \<and> b64_decode (req_string req ''data'') = (b, True)"
| "may_start V (ReplyAppend ans b) s \<longleftrightarrow> ag_marshal (se_agentic V) ans = Inr b"
| "may_start V (PeerBlock i fr m b) s \<longleftrightarrow>
     i < length (pm_handlers (sy_peers s)) \<and> data_check (se_sync V) (attach (sy_peers s) i) fr = Inr (m, b)"

text \<open>The index under which a finished append is reported and cached.\<close>

fun reported :: "'f append_task \<Rightarrow> u64 \<Rightarrow> u64" where
  "reported (ClientAppend c req b) index = index"
| "reported (ReplyAppend ans b) index = index"
| "reported (PeerBlock i fr m b) index = data_index m"

fun commit_task ::
  "('w, 'f) system_env \<Rightarrow> 'f append_task \<Rightarrow> u64 \<Rightarrow> ('w, 's, 'r, 'f) system \<Rightarrow> ('w, 's, 'r, 'f) system" where
  "commit_task V (ClientAppend c req b) index s =
     (let (g, resp) = append_at (se_ipc V) (None, None) req b index (system_log s) (sy_gateway s); g' = reply c True resp g
      in s\<lparr>sy_gateway := g', sy_peers := from_gateway g' (sy_peers s)\<rparr>)"
| "commit_task V (ReplyAppend ans b) index s =
     (let g = agentic_at (se_ipc V) (None, None) b index (system_log s) (sy_gateway s)
      in s\<lparr>sy_gateway := g, sy_peers := from_gateway g (sy_peers s)\<rparr>)"
| "commit_task V (PeerBlock i fr m b) index s =
     (case data_commit None None (attach (sy_peers s) i) (m, b) of
        (t, None) \<Rightarrow> (let pm = detach i t (sy_peers s)
          in on_append_start V (data_index m, b) (s\<lparr>sy_peers := pm, sy_gateway := from_peers pm (sy_gateway s)\<rparr>))
      | (t, Some _) \<Rightarrow> (let pm = peer_ended i (detach i t (sy_peers s))
          in s\<lparr>sy_peers := pm, sy_gateway := from_peers pm (sy_gateway s)\<rparr>))"

text \<open>The passes that append nothing are atomic as before.\<close>

inductive race_run :: "('w, 'f) system_env \<Rightarrow> ('w, 's, 'r, 'f) system \<Rightarrow> ('w, 's, 'r, 'f) racing \<Rightarrow> bool"
  for V and s0 where
  start: "race_run V s0 \<lparr>ra_system = s0, ra_tasks = [], ra_done = []\<rparr>"
| pass: "race_run V s0 r \<Longrightarrow> system_step V ev (ra_system r) = Some s \<Longrightarrow> system_log s = system_log (ra_system r) \<Longrightarrow>
    race_run V s0 (r\<lparr>ra_system := s\<rparr>)"
| read: "race_run V s0 r \<Longrightarrow> may_start V t (ra_system r) \<Longrightarrow>
    race_run V s0 (r\<lparr>ra_tasks := ra_tasks r @ [(t, storage_len (system_log (ra_system r)), length (ra_done r))]\<rparr>)"
| commit: "race_run V s0 r \<Longrightarrow> k < length (ra_tasks r) \<Longrightarrow> ra_tasks r ! k = (t, index, read) \<Longrightarrow>
    race_run V s0 \<lparr>ra_system = commit_task V t index (ra_system r),
      ra_tasks = take k (ra_tasks r) @ drop (Suc k) (ra_tasks r),
      ra_done = ra_done r @ [(t, index, read)]\<rparr>"

subsection \<open>What a commit does\<close>

lemma linked_from_gateway:
  assumes "gw_store g = Some st"
  shows "linked (s\<lparr>sy_gateway := g, sy_peers := from_gateway g pm\<rparr>)"
    and "system_log (s\<lparr>sy_gateway := g, sy_peers := from_gateway g pm\<rparr>) = st"
  using assms by (simp_all add: linked_def system_log_def from_gateway_simps)

lemma linked_from_peers:
  "linked (s\<lparr>sy_peers := pm, sy_gateway := from_peers pm g\<rparr>)"
  "system_log (s\<lparr>sy_peers := pm, sy_gateway := from_peers pm g\<rparr>) = pm_storage pm"
  by (simp_all add: linked_def system_log_def from_peers_def)

lemma on_append_start_log [simp]:
  "linked (on_append_start V x s) = linked s" "system_log (on_append_start V x s) = system_log s"
  by (cases x; simp add: on_append_start_def linked_def system_log_def)+

text \<open>Whatever the append does, a commit leaves the storage it returned, shared.\<close>

lemma commit_task_storage:
  "linked (commit_task V t index s) \<and> system_log (commit_task V t index s) = fst (storage_append None None (system_log s) (task_block t))"
proof (cases t)
  case (ClientAppend c req b)
  obtain st e where st: "storage_append None None (system_log s) b = (st, e)" by force
  obtain g resp where g: "append_at (se_ipc V) (None, None) req b index (system_log s) (sy_gateway s) = (g, resp)" by force
  then have "gw_store (reply c True resp g) = Some st"
    using st by (cases e) (auto simp: append_at_def Let_def)
  from linked_from_gateway [OF this] show ?thesis using ClientAppend g st by (simp add: Let_def)
next
  case (ReplyAppend ans b)
  obtain st e where st: "storage_append None None (system_log s) b = (st, e)" by force
  then have "gw_store (agentic_at (se_ipc V) (None, None) b index (system_log s) (sy_gateway s)) = Some st"
    by (cases e) (simp_all add: agentic_at_def)
  from linked_from_gateway [OF this] show ?thesis using ReplyAppend st by (simp add: Let_def)
next
  case (PeerBlock i fr m b)
  obtain st e where st: "storage_append None None (system_log s) b = (st, e)" by force
  obtain u x where u: "data_commit None None (attach (sy_peers s) i) (m, b) = (u, x)" by force
  then have "ss_storage u = st"
    using st by (cases e) (auto simp: data_commit_def Let_def system_log_def)
  then have "pm_storage (detach i u (sy_peers s)) = st" "pm_storage (peer_ended i (detach i u (sy_peers s))) = st"
    by (simp_all add: detach_def peer_ended_def Let_def)
  then show ?thesis using PeerBlock u st
    by (cases x) (simp_all add: Let_def linked_from_peers)
qed

definition race_inv :: "('w, 's, 'r, 'f) system \<Rightarrow> ('w, 's, 'r, 'f) racing \<Rightarrow> bool" where
  "race_inv s0 r \<longleftrightarrow>
     (let n0 = length (blocks_of (system_log s0)) in
      storage_inv (system_log (ra_system r)) \<and>
      blocks_of (system_log (ra_system r)) = blocks_of (system_log s0) @ map (\<lambda>(t, _). task_block t) (ra_done r) \<and>
      (\<forall>(t, index, read) \<in> set (ra_tasks r). unat (reported t index) = n0 + read \<and> read \<le> length (ra_done r)) \<and>
      (\<forall>k < length (ra_done r). case ra_done r ! k of (t, index, read) \<Rightarrow> unat (reported t index) = n0 + read \<and> read \<le> k))"

lemma race_run_inv:
  assumes "race_run V s0 r" "storage_inv (system_log s0)"
  shows "within_limits (system_log (ra_system r)) \<longrightarrow> race_inv s0 r"
  using assms(1)
proof (induction rule: race_run.induct)
  case start
  then show ?case using assms(2) by (simp add: race_inv_def)
next
  case (pass r ev s)
  then show ?case by (simp add: race_inv_def)
next
  case (read r t)
  show ?case
  proof
    let ?r' = "r\<lparr>ra_tasks := ra_tasks r @ [(t, storage_len (system_log (ra_system r)), length (ra_done r))]\<rparr>"
    assume "within_limits (system_log (ra_system ?r'))"
    then have inv: "race_inv s0 r" using read.IH by simp
    then have si: "storage_inv (system_log (ra_system r))" by (simp add: race_inv_def Let_def)
    have "reported t (storage_len (system_log (ra_system r))) = storage_len (system_log (ra_system r))"
    proof (cases t)
      case (PeerBlock i fr m b)
      then show ?thesis using read.hyps(2) data_check_verified(1) [of "se_sync V" "attach (sy_peers (ra_system r)) i" fr m b] si
        by (simp add: system_log_def)
    qed simp_all
    then show "race_inv s0 ?r'" using inv by (auto simp: race_inv_def Let_def hc_log.len_blocks)
  qed
next
  case (commit r k t index read)
  let ?s = "ra_system r" and ?s' = "commit_task V t index (ra_system r)"
  let ?r' = "\<lparr>ra_system = ?s', ra_tasks = take k (ra_tasks r) @ drop (Suc k) (ra_tasks r), ra_done = ra_done r @ [(t, index, read)]\<rparr>"
  show ?case
  proof
    assume lim: "within_limits (system_log (ra_system ?r'))"
    have log': "system_log ?s' = fst (storage_append None None (system_log ?s) (task_block t))"
      using commit_task_storage [of V t index ?s] by blast
    then have "grows (system_log ?s) (system_log ?s')" using storage_append_grows by metis
    then have "within_limits (system_log ?s)" using lim within_limits_back by simp
    then have inv: "race_inv s0 r" using commit.IH by blast
    then have si: "storage_inv (system_log ?s)" by (simp add: race_inv_def Let_def)
    have eff: "storage_inv (system_log ?s')" "blocks_of (system_log ?s') = blocks_of (system_log ?s) @ [task_block t]"
      using append_effect(2,3) [OF si, of "task_block t"] lim by (simp_all add: log')
    have "(t, index, read) \<in> set (ra_tasks r)" using commit.hyps(2,3) by (metis nth_mem)
    then have idx: "unat (reported t index) = length (blocks_of (system_log s0)) + read" "read \<le> length (ra_done r)"
      using inv by (auto simp: race_inv_def Let_def)
    have sub: "x \<in> set (take k (ra_tasks r) @ drop (Suc k) (ra_tasks r)) \<Longrightarrow> x \<in> set (ra_tasks r)" for x
      by (auto dest: in_set_takeD in_set_dropD)
    have "unat (reported u i) = length (blocks_of (system_log s0)) + j \<and> j \<le> Suc (length (ra_done r))"
      if "(u, i, j) \<in> set (take k (ra_tasks r) @ drop (Suc k) (ra_tasks r))" for u i j
      using sub [OF that] inv by (auto simp: race_inv_def Let_def)
    moreover have "case ra_done ?r' ! l of (u, i, j) \<Rightarrow> unat (reported u i) = length (blocks_of (system_log s0)) + j \<and> j \<le> l"
      if "l < length (ra_done ?r')" for l
      using that inv idx by (cases "l = length (ra_done r)") (auto simp: race_inv_def Let_def nth_append)
    ultimately show "race_inv s0 ?r'"
      using inv eff by (auto simp: race_inv_def Let_def)
  qed
qed

text \<open>
  C6. Races misplace blocks but never lose them. However the reads of the length and the appends of local
  clients, HTTP replies and peer sessions interleave, on a disk that works: the log keeps all its blocks,
  and its new blocks are those of the finished appends, in the order in which they finished, each as
  it was. The index under which the \<open>k\<close>-th of them was reported and cached is that of its place \<open>n0 + k\<close>
  exactly if no other append was finished since it had read the length, and too small otherwise.
\<close>

theorem racing_appends_keep_every_block:
  assumes "race_run V s0 r" "storage_inv (system_log s0)" "within_limits (system_log (ra_system r))"
    and "n0 = length (blocks_of (system_log s0))" "k < length (ra_done r)" "ra_done r ! k = (t, index, read)"
  shows "blocks_of (system_log (ra_system r)) = blocks_of (system_log s0) @ map (\<lambda>(t, _). task_block t) (ra_done r) \<and>
    blocks_of (system_log (ra_system r)) ! (n0 + k) = task_block t \<and>
    unat (reported t index) \<le> n0 + k \<and> (unat (reported t index) = n0 + k \<longleftrightarrow> read = k)"
proof -
  have inv: "race_inv s0 r" using race_run_inv [OF assms(1,2)] assms(3) by blast
  then have log: "blocks_of (system_log (ra_system r)) = blocks_of (system_log s0) @ map (\<lambda>(t, _). task_block t) (ra_done r)"
    by (simp add: race_inv_def Let_def)
  moreover have "unat (reported t index) = n0 + read \<and> read \<le> k"
    using inv assms(4-6) by (auto simp: race_inv_def Let_def)
  ultimately show ?thesis using assms(4-6) by (auto simp: nth_append)
qed

text \<open>Two replies of the service that both read the length of the empty log.\<close>

definition reply_task :: "string \<Rightarrow> nat append_task" where
  "reply_task s = ReplyAppend s (bytes_of_string s)"

theorem racing_appends_keep_every_block_witness:
  "\<exists>r. race_run toy_system_env toy_system r \<and> ra_done r = [(reply_task ''a'', 0, 0), (reply_task ''b'', 0, 0)] \<and>
     blocks_of (system_log (ra_system r)) = [bytes_of_string ''a'', bytes_of_string ''b''] \<and>
     blocks_of (system_log (ra_system r)) ! 1 = task_block (reply_task ''b'')"
proof -
  let ?V = toy_system_env and ?a = "reply_task ''a''" and ?b = "reply_task ''b''"
  let ?s1 = "commit_task ?V ?a 0 toy_system" let ?s2 = "commit_task ?V ?b 0 ?s1"
  have ok: "may_start ?V (reply_task t) s" for t and s :: "(unit, unit, (mem_db, mem_table) database, nat) system"
    by (simp add: reply_task_def toy_system_env_def echo_service_def)
  have log0: "system_log toy_system = empty_storage" by (simp add: toy_system_def system_log_def NewPeerManager_def)
  then have len: "storage_len (system_log toy_system) = 0" by (simp add: storage_len_def empty_storage_def)
  have r0: "race_run ?V toy_system \<lparr>ra_system = toy_system, ra_tasks = [], ra_done = []\<rparr>" by (rule race_run.start)
  have r1: "race_run ?V toy_system \<lparr>ra_system = toy_system, ra_tasks = [(?a, 0, 0)], ra_done = []\<rparr>"
    using race_run.read [OF r0, of ?a] ok len by simp
  have r2: "race_run ?V toy_system \<lparr>ra_system = toy_system, ra_tasks = [(?a, 0, 0), (?b, 0, 0)], ra_done = []\<rparr>"
    using race_run.read [OF r1, of ?b] ok len by simp
  have r3: "race_run ?V toy_system \<lparr>ra_system = ?s1, ra_tasks = [(?b, 0, 0)], ra_done = [(?a, 0, 0)]\<rparr>"
    using race_run.commit [OF r2, of 0] by simp
  have r4: "race_run ?V toy_system \<lparr>ra_system = ?s2, ra_tasks = [], ra_done = [(?a, 0, 0), (?b, 0, 0)]\<rparr>"
    using race_run.commit [OF r3, of 0] by simp
  let ?st1 = "fst (storage_append None None empty_storage (task_block ?a))"
  have log: "system_log ?s1 = ?st1" "system_log ?s2 = fst (storage_append None None ?st1 (task_block ?b))"
    using commit_task_storage [of ?V ?a 0 toy_system] commit_task_storage [of ?V ?b 0 ?s1] log0 by simp_all
  have tb: "task_block (reply_task t) = bytes_of_string t" for t by (simp add: reply_task_def)
  have st1: "storage_inv ?st1"
    by (rule hc_log.inv_append [OF empty_storage_inv]) (simp add: storage_room_def empty_storage_def max_alloc_def tb)
  have "within_limits (system_log ?s2)"
    using append_sizes [OF empty_storage_inv, of "task_block ?a"] append_sizes [OF st1, of "task_block ?b"]
    by (simp add: log within_limits_def empty_storage_def max_alloc_def tb)
  then have lim: "within_limits (system_log (ra_system \<lparr>ra_system = ?s2, ra_tasks = [], ra_done = [(?a, 0, 0), (?b, 0, 0)]\<rparr>))" by simp
  have inv: "storage_inv (system_log toy_system)" by (simp add: log0 empty_storage_inv)
  from racing_appends_keep_every_block [OF r4 inv lim refl, of 1 ?b 0 0] r4
  show ?thesis by (intro exI [of _ "\<lparr>ra_system = ?s2, ra_tasks = [], ra_done = [(?a, 0, 0), (?b, 0, 0)]\<rparr>"])
    (auto simp: log0 blocks_empty tb)
qed

end
