(* ===== verification/Gateway_Shutdown.thy ===== *)
theory Gateway_Shutdown
  imports Keet_Prelude "HOL-Library.Sublist"
begin

section \<open>How the gateway stops (cmd/gateway/main.go)\<close>

text \<open>
  After a termination signal two goroutines race: the signal handler closes the listener, cancels the
  context and calls \<open>os.Exit(0)\<close>, which runs no deferred function; the accept loop fails, goes round as
  long as the context is not cancelled, and returns from \<open>main\<close> after that, which runs the deferred
  functions one after the other and exits as well. Clients that are accepted only start goroutines.
\<close>

datatype deferred_call = StopNode | ClosePeers | CloseStorage | CloseDatabase | CloseListener | CancelContext

text \<open>The \<open>defer\<close> statements of \<open>main\<close>, the last one first.\<close>

definition deferred_calls :: "deferred_call list" where
  "deferred_calls = [StopNode, ClosePeers, CloseStorage, CloseDatabase, CloseListener, CancelContext]"

datatype signal_handler = Waiting | SignalReceived | ListenerClosed | ContextCancelled

datatype main_loop = Accepting | Returning "deferred_call list"

record process =
  pc_handler :: signal_handler
  pc_main :: main_loop
  pc_listenerClosed :: bool
  pc_cancelled :: bool
  pc_errors :: nat
  pc_ran :: "deferred_call list"
  pc_exit :: "nat option"

definition process_start :: process where
  "process_start = \<lparr>pc_handler = Waiting, pc_main = Accepting, pc_listenerClosed = False, pc_cancelled = False,
     pc_errors = 0, pc_ran = [], pc_exit = None\<rparr>"

definition run_deferred :: "deferred_call \<Rightarrow> process \<Rightarrow> process" where
  "run_deferred d p =
     (let p1 = p\<lparr>pc_ran := pc_ran p @ [d]\<rparr>
      in case d of CloseListener \<Rightarrow> p1\<lparr>pc_listenerClosed := True\<rparr> | CancelContext \<Rightarrow> p1\<lparr>pc_cancelled := True\<rparr> | _ \<Rightarrow> p1)"

text \<open>One step of the signal handler.\<close>

definition handler_step :: "process \<Rightarrow> process" where
  "handler_step p =
     (case pc_handler p of
        Waiting \<Rightarrow> p\<lparr>pc_handler := SignalReceived\<rparr>
      | SignalReceived \<Rightarrow> p\<lparr>pc_handler := ListenerClosed, pc_listenerClosed := True\<rparr>
      | ListenerClosed \<Rightarrow> p\<lparr>pc_handler := ContextCancelled, pc_cancelled := True\<rparr>
      | ContextCancelled \<Rightarrow> p\<lparr>pc_exit := Some 0\<rparr>)"

text \<open>
  One step of \<open>main\<close>: \<open>Accept\<close> returns with an error, which a closed listener always gives (a
  connection changes nothing here), or the next deferred function runs, or all have run.
\<close>

definition main_step :: "process \<Rightarrow> process" where
  "main_step p =
     (case pc_main p of
        Accepting \<Rightarrow> if pc_cancelled p then p\<lparr>pc_main := Returning deferred_calls\<rparr> else p\<lparr>pc_errors := Suc (pc_errors p)\<rparr>
      | Returning (d # ds) \<Rightarrow> run_deferred d (p\<lparr>pc_main := Returning ds\<rparr>)
      | Returning [] \<Rightarrow> p\<lparr>pc_exit := Some 0\<rparr>)"

inductive process_run :: "process \<Rightarrow> bool" where
  start: "process_run process_start"
| handler: "process_run p \<Longrightarrow> pc_exit p = None \<Longrightarrow> process_run (handler_step p)"
| main: "process_run p \<Longrightarrow> pc_exit p = None \<Longrightarrow> pc_main p = Accepting \<longrightarrow> pc_listenerClosed p \<Longrightarrow> process_run (main_step p)"

definition process_inv :: "process \<Rightarrow> bool" where
  "process_inv p \<longleftrightarrow>
     (pc_main p = Accepting \<longrightarrow> pc_ran p = [] \<and> (pc_cancelled p \<longleftrightarrow> pc_handler p = ContextCancelled)) \<and>
     (\<forall>ds. pc_main p = Returning ds \<longrightarrow> pc_handler p = ContextCancelled \<and> pc_ran p @ ds = deferred_calls) \<and>
     pc_exit p \<in> {None, Some 0} \<and> (pc_exit p \<noteq> None \<longrightarrow> pc_handler p = ContextCancelled)"

lemma process_run_inv: "process_run p \<Longrightarrow> process_inv p"
proof (induction rule: process_run.induct)
  case start
  then show ?case by (simp add: process_inv_def process_start_def)
next
  case (handler p)
  then show ?case
    by (cases "pc_handler p"; cases "pc_main p") (auto simp: process_inv_def handler_step_def)
next
  case (main p)
  then show ?case
    by (auto simp: process_inv_def main_step_def run_deferred_def Let_def split: main_loop.splits list.splits deferred_call.splits)
qed

lemma process_ran: "process_run p \<Longrightarrow> prefix (pc_ran p) deferred_calls"
  using process_run_inv [of p] by (cases "pc_main p") (auto simp: process_inv_def intro: prefixI [OF sym])

text \<open>The run that reaches the deferred functions, and then runs \<open>n\<close> of them.\<close>

definition returned :: "nat \<Rightarrow> process" where
  "returned n = (main_step ^^ Suc n) ((handler_step ^^ 3) process_start)"

lemma returned_run: "n \<le> 6 \<Longrightarrow> process_run (returned n) \<and> pc_exit (returned n) = None \<and> pc_handler (returned n) = ContextCancelled \<and>
   pc_main (returned n) = Returning (drop n deferred_calls) \<and> pc_ran (returned n) = take n deferred_calls"
proof (induction n)
  case 0
  let ?p = "(handler_step ^^ 3) process_start"
  have p: "process_run ?p"
    by (simp add: eval_nat_numeral handler_step_def process_start_def) (use process_run.handler [OF process_run.handler [OF process_run.handler [OF process_run.start]]] in \<open>simp add: handler_step_def process_start_def\<close>)
  have e: "pc_exit ?p = None" "pc_listenerClosed ?p" "pc_main ?p = Accepting" "pc_cancelled ?p" "pc_handler ?p = ContextCancelled" "pc_ran ?p = []"
    by (simp_all add: eval_nat_numeral handler_step_def process_start_def)
  have "process_run (main_step ?p)" using process_run.main [OF p e(1)] e(2) by simp
  with e show ?case by (simp add: returned_def main_step_def)
next
  case (Suc n)
  then have IH: "process_run (returned n)" "pc_exit (returned n) = None" "pc_handler (returned n) = ContextCancelled"
    "pc_main (returned n) = Returning (drop n deferred_calls)" "pc_ran (returned n) = take n deferred_calls" by simp_all
  have n: "n < length deferred_calls" using Suc.prems by (simp add: deferred_calls_def)
  have d: "drop n deferred_calls = deferred_calls ! n # drop (Suc n) deferred_calls"
    by (rule Cons_nth_drop_Suc [symmetric, OF n])
  have "process_run (main_step (returned n))" using process_run.main [OF IH(1,2)] IH(4) by simp
  moreover have "returned (Suc n) = main_step (returned n)" by (simp add: returned_def)
  moreover have "main_step (returned n) = run_deferred (deferred_calls ! n) (returned n\<lparr>pc_main := Returning (drop (Suc n) deferred_calls)\<rparr>)"
    using IH(4) d by (simp add: main_step_def)
  moreover have "take (Suc n) deferred_calls = take n deferred_calls @ [deferred_calls ! n]"
    by (rule take_Suc_conv_app_nth [OF n])
  ultimately show ?case using IH by (simp add: run_deferred_def Let_def split: deferred_call.split)
qed

text \<open>
  C40. A shutdown may stop anywhere. The ways in which the process can end after a signal are: exit
  status 0, with any initial part of the deferred functions done, none and all included. So the node,
  the peer connections, the storage and the database may each be left open.
\<close>

theorem shutdown_stops_anywhere:
  "(\<exists>p. process_run p \<and> pc_exit p = Some status \<and> pc_ran p = ds) \<longleftrightarrow> status = 0 \<and> prefix ds deferred_calls"
proof
  assume "\<exists>p. process_run p \<and> pc_exit p = Some status \<and> pc_ran p = ds"
  then obtain p where p: "process_run p" "pc_exit p = Some status" "pc_ran p = ds" by blast
  with process_run_inv [OF p(1)] process_ran [OF p(1)] show "status = 0 \<and> prefix ds deferred_calls"
    by (auto simp: process_inv_def)
next
  assume a: "status = 0 \<and> prefix ds deferred_calls"
  then have len: "length ds \<le> 6" and ds: "ds = take (length ds) deferred_calls"
    using prefix_length_le [of ds deferred_calls] by (auto simp: deferred_calls_def elim!: prefixE)
  note r = returned_run [OF len]
  have "process_run (handler_step (returned (length ds)))" using r process_run.handler by blast
  moreover have "pc_exit (handler_step (returned (length ds))) = Some 0" "pc_ran (handler_step (returned (length ds))) = ds"
    using r ds by (simp_all add: handler_step_def)
  ultimately show "\<exists>p. process_run p \<and> pc_exit p = Some status \<and> pc_ran p = ds" using a by blast
qed

end
