(* ===== verification/Spec2Isabelle.thy ===== *)
theory Spec2Isabelle
  imports Utp_Packet Hyper_Wire Hyper_Merkle Hyper_Storage Db_Bolt Hyper_Sync Hyper_Replicate
    Dht_Routing Dht_Rpc Dht_Registry Dht_Dispatch Dht_Node Net_Proto Crypto_Secure Utp_Link Utp_Turn Utp_Control Utp_Ice Net_Peers Ipc_Client Dht_Replies Dht_Transport Dht_Cluster Chat_Message Gateway_Main
    Hyper_Relay Gateway_Cache Gateway_System Gateway_Races Gateway_Shutdown
begin

text \<open>
  A verification library for the keet gateway (Go module \<open>keet-adk-gateway\<close>): a peer-to-peer
  replicator of append-only feeds. The program has four layers.

  \<^item> Storage. \<open>pkg/hypercore/storage.go\<close> keeps a feed as a data file and an index file;
    \<open>pkg/db\<close> keeps swarm topics and signed blocks in bbolt or Postgres behind two interfaces.
  \<^item> Replication. \<open>pkg/hypercore/sync.go\<close> runs one session per connection: a handshake, then Have,
    Want, Request and Data messages in length-prefixed frames (\<open>wire.go\<close>). A received block is
    appended when the peer's signature verifies over the Merkle root (\<open>merkle.go\<close>) of the whole log.
  \<^item> Discovery. \<open>pkg/dht\<close> is a Kademlia node: a routing table, a message codec, a dispatcher that
    matches responses to requests, a registry of the peers of each topic, iterative lookups.
  \<^item> Transport. \<open>pkg/utp\<close> and \<open>pkg/network\<close> carry the sessions; \<open>pkg/crypto\<close> encrypts them.

  Conventions (theory \<open>Keet_Prelude\<close>). An operation that returns \<open>(T, error)\<close> in Go returns
  \<open>error + T\<close>, \<open>Inl\<close> the error, a run-time panic being one of the errors. Integers are words of the
  width they have in Go, so additions and conversions wrap where Go's do; \<open>int\<close> is 64 bits wide. A
  \<open>bytes.Buffer\<close> is the list of its bytes and a \<open>bytes.Reader\<close> the list of the bytes not yet read.
  A pointer receiver that the code mutates is a record the operation returns updated. A mutex that
  spans a whole method makes the method one atomic step. What Go and the libraries supply and the
  repository does not (BLAKE2b, ed25519, zlib, bbolt, the network, the random source) is a
  parameter, and what is assumed of it is stated in the theorem that needs it.

  Theories and what they show.

  \<^item> \<open>Utp_Packet\<close> (\<open>pkg/utp/packet.go\<close>): header layout; a datagram decodes to a packet exactly when
    it is that packet's encoding.
  \<^item> \<open>Hyper_Wire\<close> (\<open>wire.go\<close>): all message encoders and decoders, with round trips and the exact
    domain of \<open>DecodeData\<close>.
  \<^item> \<open>Hyper_Merkle\<close> (\<open>merkle.go\<close>): the level-by-level root computation; the root binds the whole
    block list unless the hash collides on a string the two computations hash.
  \<^item> \<open>Block_Log\<close>, \<open>Hyper_Storage\<close> (\<open>storage.go\<close>): the contract of an append-only log as a locale,
    and its implementation over two files whose writes can fail at any byte; crash recovery, and the
    two ways a failed write damages a later block.
  \<^item> \<open>Db_Interfaces\<close>, \<open>Db_Bolt\<close> (\<open>interfaces.go\<close>, \<open>bbolt.go\<close>): the repositories as records of
    operations, their contract as a locale, and its interpretation on the bbolt implementation.
  \<^item> \<open>Hyper_Sync\<close> (\<open>sync.go\<close>, \<open>extension.go\<close>, \<open>crypto.go\<close>): the session, from the handshake to the
    read loop, as functions from the bytes that arrive to the new session and the bytes written.
    Steps are shown to extend the log only by verified blocks.
  \<^item> \<open>Hyper_Replicate\<close>: two sessions against each other. The client ends with the server's feed; a
    replica stays a prefix of the author's feed against any peer; one unverifiable repository block
    ends every session that asks for it.
  \<^item> \<open>Go_Net\<close>: the parts of Go's \<open>net\<close>, \<open>strconv\<close>, \<open>strings\<close> and \<open>sort\<close> packages the program uses.
    \<open>sort.Slice\<close> is modelled by a stable insertion sort; on distinct keys every sort agrees with it.
  \<^item> \<open>Dht_Routing\<close> (\<open>routing.go\<close>): 256 buckets of 20 contacts, least recently seen first; invariant,
    update rule, and the selection of the closest contacts.
  \<^item> \<open>Dht_Rpc\<close> (\<open>rpc.go\<close>): the codec of the seven message types, its round trip and its leniency.
  \<^item> \<open>Dht_Registry\<close> (\<open>registry.go\<close>, \<open>topic.go\<close>): refinement of the registry to sets of addresses.
  \<^item> \<open>Dht_Dispatch\<close> (\<open>dispatcher.go\<close>): the read loop, the cleanup loop and the senders as steps of
    one transition system, with invariants over all interleavings.
  \<^item> \<open>Dht_Node\<close> (\<open>dht.go\<close>): request handling, iterative lookup, announce, leave and start-up.
  \<^item> \<open>Dht_Replies\<close>: what a node stores from requests stays encodable, so its replies decode.
  \<^item> \<open>Dht_Transport\<close> (\<open>inprocess.go\<close>, \<open>transport.go\<close>): the in-memory transports, shared by pointer with a
    registry, and the transport interface as a locale that they and the UDP transport satisfy.
  \<^item> \<open>Dht_Cluster\<close>: nodes joined by their dispatchers over in-process transports. A request is shown
    to be a call of the remote handler, and an announced peer to be found by a later lookup.
  \<^item> \<open>Net_Proto\<close> (\<open>pkg/network/protobuf.go\<close>): the hand-written protobuf codec.
  \<^item> \<open>Crypto_Secure\<close> (\<open>noise.go\<close>, \<open>keys.go\<close>): the Noise handshake and the framed cipher stream over
    an abstract cipher state, and the node key file; both ends agree, the stream is delivered in order
    and not forged, and the identity in the payload is not proved.
  \<^item> \<open>Utp_Conn\<close>, \<open>Utp_Link\<close> (\<open>conn.go\<close>, \<open>mux.go\<close>, \<open>listener.go\<close>): every method of a connection as
    its atomic steps between blocking points, the multiplexer, and two endpoints joined by a lossy
    link; what is written is delivered at least once, and exactly once under stated conditions.
  \<^item> \<open>Utp_Turn\<close>, \<open>Utp_Ice\<close> (\<open>stun.go\<close>, \<open>turn.go\<close>, the relay path of \<open>conn.go\<close>, \<open>ice.go\<close>,
    \<open>simulator.go\<close>): STUN and TURN messages, parsers against a reference attribute list, candidates.
  \<^item> \<open>Utp_Control\<close> (\<open>reliability.go\<close>, \<open>ledbat.go\<close>): retransmission queue, timeout, congestion window.
  \<^item> \<open>Net_Peers\<close> (\<open>tcp.go\<close>): the peer manager, one handler per connection on one shared log.
  \<^item> \<open>Hyper_Relay\<close>: a replica as a source for others: the signatures it hands on are the author's, which
    its peers check against the replica's own key.
  \<^item> \<open>Go_Base64\<close>, \<open>Ipc_Client\<close> (\<open>pkg/ipc/socket.go\<close>): the commands of local clients,
    authentication, notifications and the listening socket.
  \<^item> \<open>Gateway_Config\<close> (\<open>config.go\<close>), \<open>Log_Files\<close> (\<open>rotator.go\<close>), \<open>Log_Handlers\<close> (\<open>logger.go\<close>),
    \<open>Chat_Message\<close> (\<open>message.go\<close>): configuration, log rotation, logger, chat validation.
  \<^item> \<open>Db_Postgres\<close> (\<open>postgres.go\<close>, \<open>migrations.go\<close>, the two Postgres repositories, \<open>init.go\<close>): the
    second backend behind the repository contract, and its agreement with bbolt.
  \<^item> \<open>Gateway_Main\<close> (\<open>cmd/gateway/main.go\<close>): the start-up that composes all parts, and the replies of
    the HTTP service to replicated chat blocks.
  \<^item> \<open>Gateway_Cache\<close>: the database as a cache of the log, on either backend, under a contract that lets
    puts fail.
  \<^item> \<open>Gateway_System\<close>: the running gateway as one transition system of clients, peers, DHT requests and
    the HTTP service over the shared log and database; its invariant over all sequences of events,
    the author of every block, and what a read returns.
  \<^item> \<open>Gateway_Races\<close>: the same with each append split at the lock it does not hold: no interleaving
    loses a block, and exactly which ones misreport its index.
  \<^item> \<open>Gateway_Shutdown\<close>: the race of the signal handler with the deferred functions of \<open>main\<close>.

  Bounds. Loops over input recurse on the bytes left, with their termination proved. The loop of an
  iterative lookup is \<open>partial_function (option)\<close>, so a lookup that does not end is \<open>None\<close>; it is
  shown to end on every network whose nodes answer with 32-byte identifiers. A file holds at most
  \<open>max_alloc = 2^48\<close> bytes; theorems about appends ask for room below it (\<open>storage_room\<close>,
  \<open>within_limits\<close>), which keeps 64-bit offsets from wrapping.

  Not modelled: time (deadlines and expiry are explicit steps or choices where they matter), the
  scheduling of goroutines inside a method that holds its lock, log output, and what the manifest
  lists as left out per component (forwarding methods such as \<open>LocalAddr\<close>, pool settings). Third-party code (bbolt, pgx, Noise, BLAKE2b, ed25519, zlib, encoding/json, YAML)
  is a parameter.
\<close>

end
